(* ===== verification/Quic_Prelude.thy ===== *)
theory Quic_Prelude
  imports Main "HOL-Library.Word"
begin

text \<open>
  Shared vocabulary of the development: machine integers, byte strings, exceptions as
  values, and the generic lemmas on words, lists and results that the component theories
  rely on. Protocol values (\<^verbatim>\<open>uint64_t\<close>) are 64-bit words, so every
  sum and difference wraps exactly as in the source. Sizes of objects held in memory
  (\<^verbatim>\<open>size_t\<close> byte counts of buffers) are natural numbers: no buffer of
  \<open>2 ^ 64\<close> bytes exists, so those counters never wrap.
\<close>

unbundle bit_operations_syntax

named_theorems unat_simps \<open>word comparisons and arithmetic as natural-number arithmetic\<close>
named_theorems result_simps \<open>sequencing of computations that may throw\<close>

section \<open>Machine integers\<close>

type_synonym u8 = "8 word"
type_synonym u16 = "16 word"
type_synonym u32 = "32 word"
type_synonym u64 = "64 word"
type_synonym bytes = "u8 list"

abbreviation u64_max :: u64 where
  "u64_max \<equiv> 0xFFFFFFFFFFFFFFFF"

declare word_le_nat_alt [unat_simps] word_less_nat_alt [unat_simps]

lemma unat_u64_less [simp]: "unat (w :: u64) < 18446744073709551616"
  using unsigned_less [of w, where ?'a = nat] by simp

lemma unat_u64_le_max: "unat (w :: u64) \<le> 18446744073709551615"
  using unat_u64_less [of w] by linarith

lemma unat_u64_max [unat_simps]: "unat u64_max = 18446744073709551615"
  by simp

lemma unat_add_no_wrap:
  assumes "unat (a :: u64) + unat b < 18446744073709551616"
  shows "unat (a + b) = unat a + unat b"
  using assms by (simp add: unat_word_ariths)

lemma unat_sub_no_wrap:
  assumes "unat b \<le> unat (a :: u64)"
  shows "unat (a - b) = unat a - unat b"
  using assms by (simp add: unat_sub word_le_nat_alt)

lemma unat_of_nat_u64:
  assumes "n < 18446744073709551616"
  shows "unat (of_nat n :: u64) = n"
  using assms by (simp add: unat_of_nat take_bit_nat_eq_self)

lemma unat_offset_no_wrap:
  assumes "unat (a :: u64) + n < 18446744073709551616"
  shows "unat (a + of_nat n) = unat a + n"
proof -
  have "unat (of_nat n :: u64) = n"
    using assms by (intro unat_of_nat_u64) linarith
  then show ?thesis using assms by (simp add: unat_add_no_wrap)
qed

lemma unat_Suc_no_wrap:
  assumes "(a :: u64) \<noteq> u64_max"
  shows "unat (a + 1) = unat a + 1"
proof -
  have "unat a \<noteq> unat u64_max" using assms by (metis word_unat_eq_iff)
  then have "unat a < 18446744073709551615"
    using unat_u64_le_max [of a] by (simp add: unat_u64_max)
  then show ?thesis by (simp add: unat_word_ariths)
qed

lemma unat_max_u64 [unat_simps]: "unat (max a b) = max (unat a) (unat (b :: u64))"
  by (simp add: max_def unat_simps)

lemma unat_min_u64 [unat_simps]: "unat (min a b) = min (unat a) (unat (b :: u64))"
  by (simp add: min_def unat_simps)

section \<open>Exceptions as values\<close>

text \<open>
  A C++ function that may throw returns \<open>Inl exception\<close> or \<open>Inr value\<close>. The state a
  function had mutated before it threw is not observed afterwards: the transport closes
  the connection on every exception that leaves the packet handlers.
\<close>

definition and_then :: "'e + 'a \<Rightarrow> ('a \<Rightarrow> 'e + 'b) \<Rightarrow> 'e + 'b" where
  "and_then m f = (case m of Inl e \<Rightarrow> Inl e | Inr x \<Rightarrow> f x)"

lemma and_then_Inl [simp, result_simps]: "and_then (Inl e) f = Inl e"
  by (simp add: and_then_def)

lemma and_then_Inr [simp, result_simps]: "and_then (Inr x) f = f x"
  by (simp add: and_then_def)

lemma and_then_eq_Inr [result_simps]:
  "and_then m f = Inr y \<longleftrightarrow> (\<exists>x. m = Inr x \<and> f x = Inr y)"
  by (cases m) auto

lemma and_then_eq_Inl [result_simps]:
  "and_then m f = Inl e \<longleftrightarrow> m = Inl e \<or> (\<exists>x. m = Inr x \<and> f x = Inl e)"
  by (cases m) auto

lemma and_then_InrE: "and_then m f = Inr y \<Longrightarrow> (\<And>x. m = Inr x \<Longrightarrow> f x = Inr y \<Longrightarrow> P) \<Longrightarrow> P"
  by (auto simp: and_then_eq_Inr)

section \<open>Big-endian byte strings\<close>

text \<open>
  \<^verbatim>\<open>writeBE\<close> stores the bytes of an integer most significant first;
  \<open>load_be\<close> reads such a byte string back.
\<close>

definition be_nat :: "bytes \<Rightarrow> nat" where
  "be_nat bs = foldl (\<lambda>acc b. acc * 256 + unat b) 0 bs"

fun store_be :: "nat \<Rightarrow> nat \<Rightarrow> bytes" where
  "store_be 0 v = []"
| "store_be (Suc n) v = store_be n (v div 256) @ [of_nat v]"

definition load_be :: "bytes \<Rightarrow> u64" where
  "load_be bs = of_nat (be_nat bs)"

lemma store_be_numeral:
  "store_be (numeral k) v = store_be (pred_numeral k) (v div 256) @ [of_nat v]"
  unfolding numeral_eq_Suc [of k] store_be.simps ..

lemma length_store_be [simp]: "length (store_be n v) = n"
  by (induction n arbitrary: v) auto

lemma be_nat_Nil [simp]: "be_nat [] = 0"
  by (simp add: be_nat_def)

lemma be_nat_snoc: "be_nat (bs @ [b]) = be_nat bs * 256 + unat b"
  by (simp add: be_nat_def)

lemma be_nat_zeros: "be_nat (bs @ replicate n 0) = be_nat bs * 256 ^ n"
proof (induction n)
  case 0
  then show ?case by simp
next
  case (Suc n)
  have "be_nat (bs @ replicate (Suc n) 0) = be_nat ((bs @ replicate n 0) @ [0])"
    by (metis append_assoc replicate_append_same replicate_Suc)
  with Suc show ?case by (simp only: be_nat_snoc) simp
qed

lemma unat_of_nat_u8: "unat (of_nat v :: u8) = v mod 256"
  by (simp add: unat_of_nat take_bit_nat_def)

lemma be_nat_store_be: "v < 256 ^ n \<Longrightarrow> be_nat (store_be n v) = v"
proof (induction n arbitrary: v)
  case 0
  then show ?case by simp
next
  case (Suc n)
  then have "v div 256 < 256 ^ n" by (simp add: less_mult_imp_div_less mult.commute)
  with Suc.IH show ?case by (simp add: be_nat_snoc unat_of_nat_u8)
qed

lemma be_nat_less: "be_nat bs < 256 ^ length bs"
proof (induction bs rule: rev_induct)
  case Nil
  then show ?case by simp
next
  case (snoc b bs)
  have "unat b < 256" using unsigned_less [of b, where ?'a = nat] by simp
  with snoc show ?case by (simp add: be_nat_snoc)
qed

end
