(* ===== verification/Quic_Types.thy ===== *)
theory Quic_Types
  imports Quic_Prelude
begin

text \<open>
  Enumerations and constants of \<^verbatim>\<open>protocol/quic_constants.hpp\<close> and the
  exceptions of the transport. An enumerator is a constructor; its wire code is given by
  a function where the code is written to or read from a packet.
\<close>

section \<open>Error codes and exceptions\<close>

datatype TransportErrorCode =
    NO_ERROR | INTERNAL_ERROR | SERVER_BUSY | FLOW_CONTROL_ERROR | STREAM_LIMIT_ERROR
  | STREAM_STATE_ERROR | FINAL_SIZE_ERROR | FRAME_ENCODING_ERROR | TRANSPORT_PARAMETER_ERROR
  | PROTOCOL_VIOLATION | INVALID_MIGRATION | CRYPTO_ERROR | CRYPTO_ERROR_MAX | INVALID_TOKEN
  | TransportErrorValue u16

text \<open>
  The enumeration has the underlying type \<^verbatim>\<open>uint16_t\<close>; the last constructor stands
  for a value that is cast to it and is none of the enumerators.
\<close>

fun TransportErrorCode_value :: "TransportErrorCode \<Rightarrow> u16" where
  "TransportErrorCode_value NO_ERROR = 0"
| "TransportErrorCode_value INTERNAL_ERROR = 1"
| "TransportErrorCode_value SERVER_BUSY = 2"
| "TransportErrorCode_value FLOW_CONTROL_ERROR = 3"
| "TransportErrorCode_value STREAM_LIMIT_ERROR = 4"
| "TransportErrorCode_value STREAM_STATE_ERROR = 5"
| "TransportErrorCode_value FINAL_SIZE_ERROR = 6"
| "TransportErrorCode_value FRAME_ENCODING_ERROR = 7"
| "TransportErrorCode_value TRANSPORT_PARAMETER_ERROR = 8"
| "TransportErrorCode_value PROTOCOL_VIOLATION = 0xA"
| "TransportErrorCode_value INVALID_TOKEN = 0xb"
| "TransportErrorCode_value INVALID_MIGRATION = 0xC"
| "TransportErrorCode_value CRYPTO_ERROR = 0x100"
| "TransportErrorCode_value CRYPTO_ERROR_MAX = 0x1ff"
| "TransportErrorCode_value (TransportErrorValue v) = v"

definition TransportErrorCode_cast :: "u16 \<Rightarrow> TransportErrorCode" where
  "TransportErrorCode_cast v =
     (case find (\<lambda>e. TransportErrorCode_value e = v)
        [NO_ERROR, INTERNAL_ERROR, SERVER_BUSY, FLOW_CONTROL_ERROR, STREAM_LIMIT_ERROR,
         STREAM_STATE_ERROR, FINAL_SIZE_ERROR, FRAME_ENCODING_ERROR, TRANSPORT_PARAMETER_ERROR,
         PROTOCOL_VIOLATION, INVALID_TOKEN, INVALID_MIGRATION, CRYPTO_ERROR, CRYPTO_ERROR_MAX] of
        Some e \<Rightarrow> e
      | None \<Rightarrow> TransportErrorValue v)"

text \<open>The error codes that values of the enumeration really take.\<close>

definition TransportErrorCode_normal :: "TransportErrorCode \<Rightarrow> bool" where
  "TransportErrorCode_normal e \<longleftrightarrow> TransportErrorCode_cast (TransportErrorCode_value e) = e"

datatype LocalErrorCode =
    LOCAL_NO_ERROR | CONNECT_FAILED | CODEC_ERROR | STREAM_CLOSED | STREAM_NOT_EXISTS
  | CREATING_EXISTING_STREAM | SHUTTING_DOWN | RESET_CRYPTO_STREAM | CWND_OVERFLOW
  | INFLIGHT_BYTES_OVERFLOW | LOST_BYTES_OVERFLOW | NEW_VERSION_NEGOTIATED
  | INVALID_WRITE_CALLBACK | TLS_HANDSHAKE_FAILED | APP_ERROR | LOCAL_INTERNAL_ERROR
  | TRANSPORT_ERROR | INVALID_WRITE_DATA | INVALID_STATE_TRANSITION | CONNECTION_CLOSED
  | EARLY_DATA_REJECTED | CONNECTION_RESET | IDLE_TIMEOUT | PACKET_NUMBER_ENCODING
  | INVALID_OPERATION | STREAM_LIMIT_EXCEEDED | CONNECTION_ABANDONED
  | CALLBACK_ALREADY_INSTALLED | KNOB_FRAME_UNSUPPORTED | PACER_NOT_AVAILABLE
  | RTX_POLICIES_LIMIT_EXCEEDED

text \<open>
  What a function may throw: the two exception classes of the transport and the standard
  exceptions the code and the containers raise. The last two constructors are not thrown, and
  no handler catches them: one marks a run whose behaviour C++ leaves undefined (a function
  that returns no value, a shift by the width of its operand, a null pointer that is
  followed), the other a loop that never ends.
\<close>

datatype exn =
    QuicTransportException TransportErrorCode
  | QuicInternalException LocalErrorCode
  | invalid_argument
  | out_of_range
  | underflow_error
  | runtime_error
  | logic_error
  | undefined_behaviour
  | loops_forever

type_synonym 'a result = "exn + 'a"

section \<open>Roles and stream identifiers\<close>

datatype QuicNodeType = Client | Server

type_synonym StreamId = u64
type_synonym StreamGroupId = u64
type_synonym PacketNum = u64
type_synonym ApplicationErrorCode = u16

datatype QuicErrorCode =
    AppError ApplicationErrorCode
  | LocalError LocalErrorCode
  | TransportError TransportErrorCode

text \<open>Time points and durations, in microseconds.\<close>

type_synonym TimePoint = int

section \<open>Constants\<close>

abbreviation (input) kMaxMaxStreams :: u64 where
  "kMaxMaxStreams \<equiv> 0x1000000000000000"

abbreviation (input) kMaxConnectionIdSize :: nat where
  "kMaxConnectionIdSize \<equiv> 20"

abbreviation (input) kMaxReasonPhraseLength :: u64 where
  "kMaxReasonPhraseLength \<equiv> 1024"

abbreviation (input) kDefaultAckDelayExponent :: nat where
  "kDefaultAckDelayExponent \<equiv> 3"

abbreviation (input) kDefaultReceiveTimestampsExponent :: nat where
  "kDefaultReceiveTimestampsExponent \<equiv> 3"

end
