(* ===== verification/Buf_Queue.thy ===== *)
theory Buf_Queue
  imports Quic_Types
begin

text \<open>
  \<^verbatim>\<open>common/BufUtil.{h,cpp}\<close>: the byte queue that streams and the parser
  store data in. A queue owns a circular chain of \<^verbatim>\<open>IOBuf\<close>s, modelled as the
  list of their contents from \<^verbatim>\<open>chain_\<close> on (the empty list is the null
  pointer), and caches the total length. The section at the end states the contract of
  such a queue over plain byte strings and shows that the chain implements it.
\<close>

section \<open>The queue and its operations\<close>

text \<open>A \<^verbatim>\<open>Buf\<close>: a chain of buffers handed between owners.\<close>

type_synonym Buf = "bytes list"

record BufQueue =
  bq_chain :: Buf
  bq_chainLength :: nat

definition computeChainDataLength :: "Buf \<Rightarrow> nat" where
  "computeChainDataLength c = sum_list (map length c)"

definition bq_empty_queue :: BufQueue where
  "bq_empty_queue = \<lparr>bq_chain = [], bq_chainLength = 0\<rparr>"

definition bq_of_chain :: "Buf \<Rightarrow> BufQueue" where
  "bq_of_chain c =
     \<lparr>bq_chain = c, bq_chainLength = (if c = [] then 0 else computeChainDataLength c)\<rparr>"

definition chainLength :: "BufQueue \<Rightarrow> nat" where
  "chainLength q = bq_chainLength q"

definition bq_empty :: "BufQueue \<Rightarrow> bool" where
  "bq_empty q \<longleftrightarrow> bq_chainLength q = 0"

definition bq_move :: "BufQueue \<Rightarrow> Buf \<times> BufQueue" where
  "bq_move q = (bq_chain q, \<lparr>bq_chain = [], bq_chainLength = 0\<rparr>)"

text \<open>
  The walk of \<^verbatim>\<open>splitAtMost\<close>: \<open>pre\<close> are the buffers already passed, the
  second argument starts at \<^verbatim>\<open>current\<close>. The caller has checked that the chain
  holds more than \<open>len\<close> bytes, so the walk ends before the chain does.
\<close>

fun split_walk :: "Buf \<Rightarrow> Buf \<Rightarrow> nat \<Rightarrow> Buf \<times> Buf" where
  "split_walk pre [] len = (pre, [])"
| "split_walk pre (b # bs) len =
     (if len = 0 then (pre, b # bs)
      else if length b > len then (pre @ [take len b], drop len b # bs)
      else split_walk (pre @ [b]) bs (len - length b))"

definition splitAtMost :: "BufQueue \<Rightarrow> nat \<Rightarrow> Buf \<times> BufQueue" where
  "splitAtMost q len =
     (if bq_chain q = [] \<or> len = 0 then ([[]], q)
      else if len \<ge> bq_chainLength q then bq_move q
      else let (result, rest) = split_walk [] (bq_chain q) len
           in (result, \<lparr>bq_chain = rest, bq_chainLength = bq_chainLength q - len\<rparr>))"

text \<open>
  The walk of \<^verbatim>\<open>trimStartAtMost\<close>: the remaining chain, and the part of the
  amount that the chain could not provide (then the whole chain is dropped).
\<close>

fun trim_walk :: "Buf \<Rightarrow> nat \<Rightarrow> Buf \<times> nat" where
  "trim_walk [] amount = ([], amount)"
| "trim_walk (b # bs) amount =
     (if length b \<ge> amount then (drop amount b # bs, 0)
      else trim_walk bs (amount - length b))"

definition trimStartAtMost :: "BufQueue \<Rightarrow> nat \<Rightarrow> nat \<times> BufQueue" where
  "trimStartAtMost q amount =
     (if bq_chain q = [] \<or> amount = 0 then (0, q)
      else let (rest, left) = trim_walk (bq_chain q) amount;
               trimmed = amount - left
           in (trimmed, \<lparr>bq_chain = rest, bq_chainLength = bq_chainLength q - trimmed\<rparr>))"

definition trimStart :: "BufQueue \<Rightarrow> nat \<Rightarrow> BufQueue result" where
  "trimStart q amount =
     (let (trimmed, q') = trimStartAtMost q amount
      in if trimmed \<noteq> amount then Inl underflow_error else Inr q')"

definition bq_append :: "BufQueue \<Rightarrow> Buf \<Rightarrow> BufQueue" where
  "bq_append q buf =
     (if buf = [] \<or> (\<forall>b \<in> set buf. length b = 0) then q
      else \<lparr>bq_chain = bq_chain q @ buf,
            bq_chainLength = bq_chainLength q + computeChainDataLength buf\<rparr>)"

section \<open>Abstraction to byte strings\<close>

definition bq_bytes :: "BufQueue \<Rightarrow> bytes" where
  "bq_bytes q = concat (bq_chain q)"

definition bq_inv :: "BufQueue \<Rightarrow> bool" where
  "bq_inv q \<longleftrightarrow> bq_chainLength q = length (concat (bq_chain q))"

lemma computeChainDataLength_concat: "computeChainDataLength c = length (concat c)"
  by (simp add: computeChainDataLength_def length_concat)

lemma split_walk_concat:
  assumes "len < length (concat c)"
  shows "concat (fst (split_walk pre c len)) = concat pre @ take len (concat c)
       \<and> concat (snd (split_walk pre c len)) = drop len (concat c)"
  using assms
proof (induction pre c len rule: split_walk.induct)
  case (1 pre len)
  then show ?case by simp
next
  case (2 pre b bs len)
  show ?case
  proof (cases "len = 0 \<or> length b > len")
    case True
    then show ?thesis by auto
  next
    case False
    with 2(2) have "len - length b < length (concat bs)" by auto
    with False 2(1) show ?thesis by (simp add: not_less)
  qed
qed

lemma trim_walk_concat:
  "concat (fst (trim_walk c amount)) = drop amount (concat c)
   \<and> snd (trim_walk c amount) = amount - length (concat c)"
  by (induction c amount rule: trim_walk.induct) auto

lemma length_concat_empty: "length (concat c) = 0 \<Longrightarrow> concat c = []"
  by simp

section \<open>The contract of a byte queue\<close>

text \<open>
  What the clients (the read and write buffers of a stream, the frame parser) rely on:
  the operations are \<open>append\<close>, \<open>take\<close> and \<open>drop\<close> on the byte string the queue
  holds, and the cached length is the length of that string.
\<close>

locale byte_queue =
  fixes contents :: "'q \<Rightarrow> bytes"
    and invar :: "'q \<Rightarrow> bool"
    and len :: "'q \<Rightarrow> nat"
    and of_buf :: "Buf \<Rightarrow> 'q"
    and append :: "'q \<Rightarrow> Buf \<Rightarrow> 'q"
    and split :: "'q \<Rightarrow> nat \<Rightarrow> Buf \<times> 'q"
    and trim :: "'q \<Rightarrow> nat \<Rightarrow> nat \<times> 'q"
    and move :: "'q \<Rightarrow> Buf \<times> 'q"
  assumes len_contents: "invar q \<Longrightarrow> len q = length (contents q)"
    and contents_of_buf: "contents (of_buf c) = concat c"
    and contents_append: "contents (append q c) = contents q @ concat c"
    and contents_split: "invar q \<Longrightarrow> contents (snd (split q n)) = drop n (contents q)"
    and buf_split: "invar q \<Longrightarrow> concat (fst (split q n)) = take n (contents q)"
    and contents_trim: "contents (snd (trim q n)) = drop n (contents q)"
    and count_trim: "fst (trim q n) = min n (length (contents q))"
    and buf_move: "concat (fst (move q)) = contents q"
    and contents_move: "contents (snd (move q)) = []"
    and invar_of_buf: "invar (of_buf c)"
    and invar_append: "invar q \<Longrightarrow> invar (append q c)"
    and invar_split: "invar q \<Longrightarrow> invar (snd (split q n))"
    and invar_trim: "invar q \<Longrightarrow> invar (snd (trim q n))"
    and invar_move: "invar (snd (move q))"
begin

text \<open>Splitting loses and duplicates nothing: the two parts make up the old contents.\<close>

lemma split_conserves:
  "invar q \<Longrightarrow> concat (fst (split q n)) @ contents (snd (split q n)) = contents q"
  by (simp add: buf_split contents_split)

text \<open>Handing the split-off part back to the end of a queue that was emptied restores it.\<close>

lemma move_append:
  "contents (append p (fst (move q))) = contents p @ contents q"
  by (simp add: contents_append buf_move)

text \<open>Trimming in two steps is trimming once by the sum.\<close>

lemma trim_trim:
  "contents (snd (trim (snd (trim q m)) n)) = contents (snd (trim q (m + n)))"
  by (simp add: contents_trim add.commute)

lemma len_split: "invar q \<Longrightarrow> len (snd (split q n)) = len q - n"
  by (simp add: len_contents invar_split contents_split)

lemma len_trim: "invar q \<Longrightarrow> len (snd (trim q n)) = len q - n"
  by (simp add: len_contents invar_trim contents_trim)

lemma len_append: "invar q \<Longrightarrow> len (append q c) = len q + length (concat c)"
  by (simp add: len_contents invar_append contents_append)

lemmas queue_contents = contents_of_buf contents_append contents_split buf_split
  contents_trim count_trim buf_move contents_move

lemmas queue_invar = invar_of_buf invar_append invar_split invar_trim invar_move

end

lemma bq_split_contents:
  assumes "bq_inv q"
  shows "concat (fst (splitAtMost q n)) = take n (bq_bytes q)
       \<and> bq_bytes (snd (splitAtMost q n)) = drop n (bq_bytes q)
       \<and> bq_inv (snd (splitAtMost q n))"
proof (cases "bq_chain q = [] \<or> n = 0 \<or> n \<ge> bq_chainLength q")
  case True
  with assms show ?thesis
    by (auto simp: splitAtMost_def bq_move_def bq_bytes_def bq_inv_def)
next
  case False
  with assms have less: "n < length (concat (bq_chain q))" by (simp add: bq_inv_def)
  obtain r s where rs: "split_walk [] (bq_chain q) n = (r, s)" by fastforce
  with split_walk_concat [OF less, of "[]"]
  have "concat r = take n (concat (bq_chain q))" "concat s = drop n (concat (bq_chain q))"
    by auto
  with False assms rs show ?thesis
    by (auto simp: splitAtMost_def bq_bytes_def bq_inv_def)
qed

lemma bq_trim_contents:
  "bq_bytes (snd (trimStartAtMost q n)) = drop n (bq_bytes q)
   \<and> fst (trimStartAtMost q n) = min n (length (bq_bytes q))"
  using trim_walk_concat [of "bq_chain q" n]
  by (auto simp: trimStartAtMost_def bq_bytes_def split: prod.splits)

lemma bq_trim_inv: "bq_inv q \<Longrightarrow> bq_inv (snd (trimStartAtMost q n))"
  using trim_walk_concat [of "bq_chain q" n]
  by (auto simp: trimStartAtMost_def bq_inv_def split: prod.splits)

interpretation bq: byte_queue bq_bytes bq_inv chainLength bq_of_chain bq_append
  splitAtMost trimStartAtMost bq_move
proof (unfold_locales, goal_cases)
  case (1 q) then show ?case by (simp add: chainLength_def bq_inv_def bq_bytes_def)
next
  case (2 c) show ?case by (simp add: bq_of_chain_def bq_bytes_def)
next
  case (3 q c) show ?case
    by (auto simp: bq_append_def bq_bytes_def)
next
  case (4 q n) then show ?case by (simp add: bq_split_contents)
next
  case (5 q n) then show ?case by (simp add: bq_split_contents)
next
  case (6 q n) show ?case by (simp add: bq_trim_contents)
next
  case (7 q n) show ?case by (simp add: bq_trim_contents)
next
  case (8 q) show ?case by (simp add: bq_move_def bq_bytes_def)
next
  case (9 q) show ?case by (simp add: bq_move_def bq_bytes_def)
next
  case (10 c) show ?case
    by (simp add: bq_of_chain_def bq_inv_def computeChainDataLength_concat)
next
  case (11 q c) then show ?case
    by (simp add: bq_append_def bq_inv_def computeChainDataLength_concat)
next
  case (12 q n) then show ?case by (simp add: bq_split_contents)
next
  case (13 q n) then show ?case by (rule bq_trim_inv)
next
  case (14 q) show ?case by (simp add: bq_move_def bq_inv_def)
qed

lemma bq_empty_iff: "bq_inv q \<Longrightarrow> bq_empty q \<longleftrightarrow> bq_bytes q = []"
  by (simp add: bq_empty_def bq_inv_def bq_bytes_def)

lemma trimStart_Inr:
  assumes "n \<le> length (bq_bytes q)"
  shows "trimStart q n = Inr (snd (trimStartAtMost q n))"
  using assms bq.count_trim [of q n] by (auto simp: trimStart_def split: prod.splits)

end
