(* ===== verification/Io_Cursor.thy ===== *)
theory Io_Cursor
  imports Buf_Queue
begin

text \<open>
  \<^verbatim>\<open>folly/io/Cursor.h\<close>: the read cursor of the parser, unbounded as every
  cursor of the transport is. A cursor stands inside one buffer of a chain; reads may cross
  buffer boundaries. Each operation is shown to be an operation on the byte string from
  the cursor to the end of the chain.
\<close>

section \<open>The cursor and its operations\<close>

text \<open>
  \<open>cur_here\<close> holds the bytes from \<^verbatim>\<open>crtPos_\<close> to \<^verbatim>\<open>crtEnd_\<close>,
  \<open>cur_next\<close> the buffers after \<^verbatim>\<open>crtBuf_\<close>, and \<open>cur_pos\<close> the distance
  of the cursor from the head of the chain.
\<close>

record Cursor =
  cur_here :: bytes
  cur_next :: Buf
  cur_pos :: nat

definition cursor_of :: "Buf \<Rightarrow> Cursor" where
  "cursor_of c = (case c of [] \<Rightarrow> \<lparr>cur_here = [], cur_next = [], cur_pos = 0\<rparr>
                  | b # bs \<Rightarrow> \<lparr>cur_here = b, cur_next = bs, cur_pos = 0\<rparr>)"

definition tryAdvanceBuffer :: "Cursor \<Rightarrow> bool \<times> Cursor" where
  "tryAdvanceBuffer c =
     (case cur_next c of
        [] \<Rightarrow> (False, c\<lparr>cur_here := [], cur_pos := cur_pos c + length (cur_here c)\<rparr>)
      | b # bs \<Rightarrow> (True, \<lparr>cur_here = b, cur_next = bs,
                           cur_pos = cur_pos c + length (cur_here c)\<rparr>))"

definition advanceBufferIfEmpty :: "Cursor \<Rightarrow> Cursor" where
  "advanceBufferIfEmpty c = (if cur_here c = [] then snd (tryAdvanceBuffer c) else c)"

definition cur_length :: "Cursor \<Rightarrow> nat" where
  "cur_length c = length (cur_here c)"

definition totalLength :: "Cursor \<Rightarrow> nat" where
  "totalLength c = sum_list (map length (cur_next c)) + length (cur_here c)"

fun canAdvance_loop :: "nat \<Rightarrow> nat \<Rightarrow> Buf \<Rightarrow> bool" where
  "canAdvance_loop amount available [] = (available \<ge> amount)"
| "canAdvance_loop amount available (b # bs) =
     (if available \<ge> amount then True
      else canAdvance_loop (amount - available) (length b) bs)"

definition canAdvance :: "Cursor \<Rightarrow> nat \<Rightarrow> bool" where
  "canAdvance c amount = canAdvance_loop amount (length (cur_here c)) (cur_next c)"

definition isAtEnd :: "Cursor \<Rightarrow> bool" where
  "isAtEnd c \<longleftrightarrow>
     (if cur_here c \<noteq> [] then False
      else if cur_next c = [] then True
      else (\<forall>b \<in> set (cur_next c). length b = 0))"

text \<open>The slow paths: walk the chain until enough bytes are found.\<close>

fun pull_walk :: "bytes \<Rightarrow> Buf \<Rightarrow> nat \<Rightarrow> nat \<Rightarrow> bytes \<times> Cursor" where
  "pull_walk here [] pos len =
     (if length here < len
      then (here, \<lparr>cur_here = [], cur_next = [], cur_pos = pos + length here\<rparr>)
      else (take len here,
            advanceBufferIfEmpty \<lparr>cur_here = drop len here, cur_next = [], cur_pos = pos + len\<rparr>))"
| "pull_walk here (b # bs) pos len =
     (if length here < len
      then let (more, c) = pull_walk b bs (pos + length here) (len - length here)
           in (here @ more, c)
      else (take len here,
            advanceBufferIfEmpty \<lparr>cur_here = drop len here, cur_next = b # bs, cur_pos = pos + len\<rparr>))"

definition pullAtMostSlow :: "Cursor \<Rightarrow> nat \<Rightarrow> bytes \<times> Cursor" where
  "pullAtMostSlow c len = pull_walk (cur_here c) (cur_next c) (cur_pos c) len"

definition pull :: "Cursor \<Rightarrow> nat \<Rightarrow> (bytes \<times> Cursor) result" where
  "pull c len =
     (if len = 0 then Inr ([], c)
      else if len \<le> length (cur_here c)
      then Inr (take len (cur_here c),
                c\<lparr>cur_here := drop len (cur_here c), cur_pos := cur_pos c + len\<rparr>)
      else let (bs, c') = pullAtMostSlow c len
           in if length bs \<noteq> len then Inl out_of_range else Inr (bs, c'))"

definition skip :: "Cursor \<Rightarrow> nat \<Rightarrow> Cursor result" where
  "skip c len =
     (if len < length (cur_here c)
      then Inr (c\<lparr>cur_here := drop len (cur_here c), cur_pos := cur_pos c + len\<rparr>)
      else let (bs, c') = pullAtMostSlow c len
           in if length bs \<noteq> len then Inl out_of_range else Inr c')"

text \<open>\<^verbatim>\<open>readBE<T>\<close> for a type of \<open>n\<close> bytes.\<close>

definition readBE :: "nat \<Rightarrow> Cursor \<Rightarrow> (u64 \<times> Cursor) result" where
  "readBE n c = and_then (pull c n) (\<lambda>(bs, c'). Inr (load_be bs, c'))"

fun peek_walk :: "bytes \<Rightarrow> Buf \<Rightarrow> nat \<Rightarrow> Cursor" where
  "peek_walk here [] pos = \<lparr>cur_here = here, cur_next = [], cur_pos = pos\<rparr>"
| "peek_walk here (b # bs) pos =
     (if length here = 0 then peek_walk b bs (pos + length here)
      else \<lparr>cur_here = here, cur_next = b # bs, cur_pos = pos\<rparr>)"

definition peekBytes :: "Cursor \<Rightarrow> bytes \<times> Cursor" where
  "peekBytes c = (let c' = peek_walk (cur_here c) (cur_next c) (cur_pos c) in (cur_here c', c'))"

text \<open>
  \<^verbatim>\<open>cloneAtMost\<close> returns the chain of cloned buffers; the walk stops at the first
  buffer that holds the rest of the requested length.
\<close>

fun clone_walk :: "bytes \<Rightarrow> Buf \<Rightarrow> nat \<Rightarrow> nat \<Rightarrow> Buf \<times> Cursor" where
  "clone_walk here [] pos len =
     (if length here \<ge> len
      then ([take len here],
            advanceBufferIfEmpty \<lparr>cur_here = drop len here, cur_next = [], cur_pos = pos + len\<rparr>)
      else ([here], \<lparr>cur_here = [], cur_next = [], cur_pos = pos + length here\<rparr>))"
| "clone_walk here (b # bs) pos len =
     (if length here \<ge> len
      then ([take len here],
            advanceBufferIfEmpty \<lparr>cur_here = drop len here, cur_next = b # bs, cur_pos = pos + len\<rparr>)
      else let (more, c) = clone_walk b bs (pos + length here) (len - length here)
           in (here # more, c))"

definition cloneAtMost :: "Cursor \<Rightarrow> nat \<Rightarrow> Buf \<times> Cursor" where
  "cloneAtMost c len =
     (let c' = advanceBufferIfEmpty c
      in clone_walk (cur_here c') (cur_next c') (cur_pos c') len)"

definition clone :: "Cursor \<Rightarrow> nat \<Rightarrow> (Buf \<times> Cursor) result" where
  "clone c len =
     (let (b, c') = cloneAtMost c len
      in if computeChainDataLength b \<noteq> len then Inl out_of_range else Inr (b, c'))"

definition readFixedString :: "Cursor \<Rightarrow> nat \<Rightarrow> (bytes \<times> Cursor) result" where
  "readFixedString c len =
     (if len \<le> length (cur_here c)
      then Inr (take len (cur_here c),
                c\<lparr>cur_here := drop len (cur_here c), cur_pos := cur_pos c + len\<rparr>)
      else let (bs, c') = pullAtMostSlow c len
           in if length bs \<noteq> len then Inl out_of_range else Inr (bs, c'))"

section \<open>Abstraction to the remaining bytes\<close>

definition cursor_bytes :: "Cursor \<Rightarrow> bytes" where
  "cursor_bytes c = cur_here c @ concat (cur_next c)"

text \<open>\<open>cursor_at c n bs\<close>: the cursor has consumed \<open>n\<close> bytes and \<open>bs\<close> are left.\<close>

definition cursor_at :: "Cursor \<Rightarrow> nat \<Rightarrow> bytes \<Rightarrow> bool" where
  "cursor_at c n bs \<longleftrightarrow> cur_pos c = n \<and> cursor_bytes c = bs"

lemma cursor_of_at: "cursor_at (cursor_of c) 0 (concat c)"
  by (simp add: cursor_of_def cursor_at_def cursor_bytes_def split: list.split)

lemma cursor_at_bytes: "cursor_at c n bs \<Longrightarrow> cursor_bytes c = bs"
  by (simp add: cursor_at_def)

lemma advance_at: "cursor_at (advanceBufferIfEmpty c) n bs \<longleftrightarrow> cursor_at c n bs"
  by (auto simp: advanceBufferIfEmpty_def tryAdvanceBuffer_def cursor_at_def cursor_bytes_def
      split: list.split)

lemma totalLength_bytes: "totalLength c = length (cursor_bytes c)"
  by (simp add: totalLength_def cursor_bytes_def length_concat)

lemma canAdvance_loop_iff:
  "canAdvance_loop amount available bs \<longleftrightarrow> amount \<le> available + length (concat bs)"
  by (induction amount available bs rule: canAdvance_loop.induct) auto

lemma canAdvance_iff: "canAdvance c n \<longleftrightarrow> n \<le> length (cursor_bytes c)"
  by (simp add: canAdvance_def canAdvance_loop_iff cursor_bytes_def)

lemma isAtEnd_iff: "isAtEnd c \<longleftrightarrow> cursor_bytes c = []"
  by (auto simp: isAtEnd_def cursor_bytes_def)

lemma pull_walk_bytes:
  "fst (pull_walk here bs pos len) = take len (here @ concat bs)"
  by (induction here bs pos len rule: pull_walk.induct) (auto split: prod.splits)

lemma pull_walk_at:
  "len \<le> length (here @ concat bs) \<Longrightarrow>
   cursor_at (snd (pull_walk here bs pos len)) (pos + len) (drop len (here @ concat bs))"
proof (induction here bs pos len rule: pull_walk.induct)
  case (1 here pos len)
  then show ?case by (simp add: advance_at) (simp add: cursor_at_def cursor_bytes_def)
next
  case (2 here b bs pos len)
  show ?case
  proof (cases "length here < len")
    case True
    with 2 show ?thesis by (auto split: prod.splits)
  next
    case False
    then show ?thesis by (simp add: advance_at) (simp add: cursor_at_def cursor_bytes_def)
  qed
qed

lemma pull_at:
  assumes "cursor_at c n bs" and "len \<le> length bs"
  shows "\<exists>c'. pull c len = Inr (take len bs, c') \<and> cursor_at c' (n + len) (drop len bs)"
proof (cases "len \<le> length (cur_here c)")
  case True
  with assms show ?thesis by (auto simp: pull_def cursor_at_def cursor_bytes_def)
next
  case False
  obtain r c' where p: "pullAtMostSlow c len = (r, c')" by fastforce
  have "r = take len bs" and "cursor_at c' (n + len) (drop len bs)"
    using assms p pull_walk_bytes [of "cur_here c" "cur_next c" "cur_pos c" len]
      pull_walk_at [of len "cur_here c" "cur_next c" "cur_pos c"]
    by (auto simp: pullAtMostSlow_def cursor_at_def cursor_bytes_def)
  with False assms p show ?thesis by (auto simp: pull_def)
qed

lemma pull_short:
  assumes "cursor_at c n bs" and "length bs < len"
  shows "pull c len = Inl out_of_range"
  using assms pull_walk_bytes [of "cur_here c" "cur_next c" "cur_pos c" len]
  by (auto simp: pull_def pullAtMostSlow_def cursor_at_def cursor_bytes_def split: prod.splits)

lemma skip_at:
  assumes "cursor_at c n bs" and "len \<le> length bs"
  shows "\<exists>c'. skip c len = Inr c' \<and> cursor_at c' (n + len) (drop len bs)"
proof (cases "len < length (cur_here c)")
  case True
  with assms show ?thesis by (auto simp: skip_def cursor_at_def cursor_bytes_def)
next
  case False
  obtain r c' where p: "pullAtMostSlow c len = (r, c')" by fastforce
  have "length r = len" and "cursor_at c' (n + len) (drop len bs)"
    using assms p pull_walk_bytes [of "cur_here c" "cur_next c" "cur_pos c" len]
      pull_walk_at [of len "cur_here c" "cur_next c" "cur_pos c"]
    by (auto simp: pullAtMostSlow_def cursor_at_def cursor_bytes_def)
  with False p show ?thesis by (auto simp: skip_def)
qed

lemma readBE_at:
  assumes "cursor_at c n bs" and "len \<le> length bs"
  shows "\<exists>c'. readBE len c = Inr (load_be (take len bs), c')
            \<and> cursor_at c' (n + len) (drop len bs)"
  using pull_at [OF assms] by (auto simp: readBE_def)

lemma readFixedString_at:
  assumes "cursor_at c n bs" and "len \<le> length bs"
  shows "\<exists>c'. readFixedString c len = Inr (take len bs, c')
            \<and> cursor_at c' (n + len) (drop len bs)"
proof (cases "len = 0")
  case True
  with assms show ?thesis by (auto simp: readFixedString_def cursor_at_def cursor_bytes_def)
next
  case False
  with pull_at [OF assms] show ?thesis by (auto simp: readFixedString_def pull_def)
qed

lemma readFixedString_short:
  assumes "cursor_at c n bs" and "length bs < len"
  shows "readFixedString c len = Inl out_of_range"
  using pull_short [OF assms] assms
  by (auto simp: readFixedString_def pull_def split: if_splits)

lemma clone_walk_at:
  "concat (fst (clone_walk here bs pos len)) = take len (here @ concat bs)
   \<and> (len \<le> length (here @ concat bs) \<longrightarrow>
      cursor_at (snd (clone_walk here bs pos len)) (pos + len) (drop len (here @ concat bs)))"
proof (induction here bs pos len rule: clone_walk.induct)
  case (1 here pos len)
  then show ?case by (simp add: advance_at) (simp add: cursor_at_def cursor_bytes_def)
next
  case (2 here b bs pos len)
  show ?case
  proof (cases "length here \<ge> len")
    case True
    then show ?thesis by (simp add: advance_at) (simp add: cursor_at_def cursor_bytes_def)
  next
    case False
    with 2 show ?thesis by (auto split: prod.splits)
  qed
qed

lemma cloneAtMost_bytes: "concat (fst (cloneAtMost c len)) = take len (cursor_bytes c)"
proof -
  let ?d = "advanceBufferIfEmpty c"
  have "cursor_bytes ?d = cursor_bytes c"
    by (meson advance_at cursor_at_def)
  moreover have "concat (fst (cloneAtMost c len)) = take len (cursor_bytes ?d)"
    using clone_walk_at [of "cur_here ?d" "cur_next ?d" "cur_pos ?d" len]
    by (simp add: cloneAtMost_def Let_def cursor_bytes_def)
  ultimately show ?thesis by simp
qed

lemma cloneAtMost_at:
  assumes "cursor_at c n bs" and "len \<le> length bs"
  shows "cursor_at (snd (cloneAtMost c len)) (n + len) (drop len bs)"
proof -
  have "cursor_at (advanceBufferIfEmpty c) n bs" using assms(1) by (simp add: advance_at)
  then show ?thesis
    using assms(2) clone_walk_at [of "cur_here (advanceBufferIfEmpty c)"
      "cur_next (advanceBufferIfEmpty c)" "cur_pos (advanceBufferIfEmpty c)" len]
    by (auto simp: cloneAtMost_def Let_def cursor_at_def cursor_bytes_def)
qed

lemma clone_at:
  assumes "cursor_at c n bs" and "len \<le> length bs"
  shows "\<exists>b c'. clone c len = Inr (b, c') \<and> concat b = take len bs
              \<and> cursor_at c' (n + len) (drop len bs)"
  using assms cloneAtMost_bytes [of c len] cloneAtMost_at [OF assms]
  by (auto simp: clone_def computeChainDataLength_concat cursor_at_def split: prod.splits)

lemma peek_walk_at:
  "cursor_at (peek_walk here bs pos) pos (here @ concat bs)
   \<and> (here @ concat bs \<noteq> [] \<longrightarrow> cur_here (peek_walk here bs pos) \<noteq> [])"
  by (induction here bs pos rule: peek_walk.induct)
    (auto simp: cursor_at_def cursor_bytes_def)

lemma peekBytes_at:
  assumes "cursor_at c n bs"
  shows "cursor_at (snd (peekBytes c)) n bs \<and> (\<exists>more. bs = fst (peekBytes c) @ more)
       \<and> (bs \<noteq> [] \<longrightarrow> fst (peekBytes c) \<noteq> [])"
  using assms peek_walk_at [of "cur_here c" "cur_next c" "cur_pos c"]
  by (auto simp: peekBytes_def Let_def cursor_at_def cursor_bytes_def) metis+

end
