(* ===== verification/Quic_Integer.thy ===== *)
theory Quic_Integer
  imports Io_Cursor
begin

text \<open>
  \<^verbatim>\<open>protocol/quic_integer.{hpp,cpp}\<close>: the variable-length integers of the wire
  format. An encoder hands an integer of the chosen width to a buffer operation that
  appends it in network byte order, so it is modelled as the number of bytes reported and
  the bytes appended. The last section is the contract frame codecs use.
\<close>

section \<open>Encoding\<close>

abbreviation (input) kOneByteLimit :: u64 where "kOneByteLimit \<equiv> 0x3F"
abbreviation (input) kTwoByteLimit :: u64 where "kTwoByteLimit \<equiv> 0x3FFF"
abbreviation (input) kFourByteLimit :: u64 where "kFourByteLimit \<equiv> 0x3FFFFFFF"
abbreviation (input) kEightByteLimit :: u64 where "kEightByteLimit \<equiv> 0x3FFFFFFFFFFFFFFF"

definition encodeOneByte :: "u64 \<Rightarrow> nat \<times> bytes" where
  "encodeOneByte value =
     (let modified = (ucast value :: u8) in (1, store_be 1 (unat modified)))"

definition encodeTwoBytes :: "u64 \<Rightarrow> nat \<times> bytes" where
  "encodeTwoBytes value =
     (let reduced = (ucast value :: u16); modified = reduced OR 0x4000
      in (2, store_be 2 (unat modified)))"

definition encodeFourBytes :: "u64 \<Rightarrow> nat \<times> bytes" where
  "encodeFourBytes value =
     (let reduced = (ucast value :: u32); modified = reduced OR 0x80000000
      in (4, store_be 4 (unat modified)))"

definition encodeEightBytes :: "u64 \<Rightarrow> nat \<times> bytes" where
  "encodeEightBytes value =
     (let modified = value OR 0xC000000000000000 in (8, store_be 8 (unat modified)))"

definition encodeQuicInteger :: "u64 \<Rightarrow> TransportErrorCode + (nat \<times> bytes)" where
  "encodeQuicInteger value =
     (if value \<le> kOneByteLimit then Inr (encodeOneByte value)
      else if value \<le> kTwoByteLimit then Inr (encodeTwoBytes value)
      else if value \<le> kFourByteLimit then Inr (encodeFourBytes value)
      else if value \<le> kEightByteLimit then Inr (encodeEightBytes value)
      else Inl INTERNAL_ERROR)"

text \<open>The overload that is told the output size; its range checks are commented out.\<close>

definition encodeQuicInteger_sized :: "u64 \<Rightarrow> int \<Rightarrow> TransportErrorCode + (nat \<times> bytes)" where
  "encodeQuicInteger_sized value outputSize =
     (if outputSize = 1 then Inr (encodeOneByte value)
      else if outputSize = 2 then Inr (encodeTwoBytes value)
      else if outputSize = 4 then Inr (encodeFourBytes value)
      else if outputSize = 8 then Inr (encodeEightBytes value)
      else Inl INTERNAL_ERROR)"

definition getQuicIntegerSize :: "u64 \<Rightarrow> TransportErrorCode + nat" where
  "getQuicIntegerSize value =
     (if value \<le> kOneByteLimit then Inr 1
      else if value \<le> kTwoByteLimit then Inr 2
      else if value \<le> kFourByteLimit then Inr 4
      else if value \<le> kEightByteLimit then Inr 8
      else Inl INTERNAL_ERROR)"

definition getQuicIntegerSizeThrows :: "u64 \<Rightarrow> nat result" where
  "getQuicIntegerSizeThrows value =
     (if value \<le> kOneByteLimit then Inr 1
      else if value \<le> kTwoByteLimit then Inr 2
      else if value \<le> kFourByteLimit then Inr 4
      else if value \<le> kEightByteLimit then Inr 8
      else Inl runtime_error)"

text \<open>
  The class \<^verbatim>\<open>QuicInteger\<close>: \<^verbatim>\<open>getSize\<close> throws for a value
  that has no encoding. \<^verbatim>\<open>encode\<close> prints a message and then asks the failed
  \<^verbatim>\<open>Expected\<close> for its value, which throws as well.
\<close>

definition QuicInteger_getSize :: "u64 \<Rightarrow> nat result" where
  "QuicInteger_getSize value =
     (case getQuicIntegerSize value of Inl e \<Rightarrow> Inl runtime_error | Inr n \<Rightarrow> Inr n)"

definition QuicInteger_encode :: "u64 \<Rightarrow> (nat \<times> bytes) result" where
  "QuicInteger_encode value =
     (case encodeQuicInteger value of Inl e \<Rightarrow> Inl runtime_error | Inr r \<Rightarrow> Inr r)"

section \<open>Decoding\<close>

text \<open>The parameter \<open>limit\<close> is \<^verbatim>\<open>atMost\<close> of the source.\<close>

definition decodeQuicIntegerLength :: "u8 \<Rightarrow> u8" where
  "decodeQuicIntegerLength firstByte = push_bit (unat (drop_bit 6 firstByte AND 3)) 1"

text \<open>
  The value of \<open>n\<close> raw bytes: they are copied to the start of a zeroed
  \<^verbatim>\<open>uint64_t\<close>, read in network byte order, stripped of the two length bits and
  shifted down.
\<close>

definition varint_value :: "bytes \<Rightarrow> nat \<Rightarrow> u64" where
  "varint_value raw n =
     drop_bit ((8 - n) * 8) (load_be (raw @ replicate (8 - n) 0) AND NOT (push_bit 62 3))"

definition decodeQuicInteger :: "Cursor \<Rightarrow> u64 \<Rightarrow> ((u64 \<times> nat) option \<times> Cursor) result" where
  "decodeQuicInteger cursor limit =
     (if limit = 0 \<or> \<not> canAdvance cursor 1 then Inr (None, cursor)
      else let (data, cursor1) = peekBytes cursor;
               firstByte = hd data;
               varintType = drop_bit 6 firstByte AND 3;
               bytesExpected = unat (push_bit (unat varintType) 1 :: u8)
           in if varintType = 0
              then and_then (skip cursor1 1)
                     (\<lambda>cursor2. Inr (Some (ucast (firstByte AND 0x3f), 1), cursor2))
              else if \<not> canAdvance cursor1 bytesExpected \<or> limit < of_nat bytesExpected
              then Inr (None, cursor1)
              else and_then (pull cursor1 bytesExpected)
                     (\<lambda>(raw, cursor2).
                        Inr (Some (varint_value raw bytesExpected, bytesExpected), cursor2)))"

text \<open>
  The overload on a raw buffer: \<open>buf\<close> is the memory from \<^verbatim>\<open>buf\<close> on. It
  advances \<^verbatim>\<open>offset\<close> past the first byte before it knows the length, and
  copies the integer from the start of the buffer.
\<close>

definition decodeQuicInteger_buf ::
    "bytes \<Rightarrow> nat \<Rightarrow> nat \<Rightarrow> u64 \<Rightarrow> (u64 \<times> nat) option \<times> nat" where
  "decodeQuicInteger_buf buf offset len limit =
     (if limit = 0 \<or> len < 1 then (None, offset)
      else let firstByte = buf ! offset;
               offset1 = offset + 1;
               varintType = drop_bit 6 firstByte AND 3;
               bytesExpected = unat (push_bit (unat varintType) 1 :: u8)
           in if varintType = 0 then (Some (ucast (firstByte AND 0x3f), 1), offset1)
              else if len < bytesExpected \<or> limit < of_nat bytesExpected then (None, offset1)
              else (Some (varint_value (take bytesExpected buf) bytesExpected, bytesExpected),
                    offset1 + bytesExpected))"

section \<open>Arithmetic of the encoding\<close>

lemma nat_and_disjoint:
  fixes x :: nat
  assumes "x < 2 ^ k"
  shows "x AND 2 ^ k * j = 0"
proof -
  have "take_bit k x AND push_bit k j = 0"
    by (rule bit_eqI) (auto simp: bit_simps)
  then show ?thesis
    using assms by (simp add: take_bit_nat_eq_self push_bit_eq_mult mult.commute)
qed

lemma or_high_bit:
  fixes w :: "'a::len word"
  assumes "unat w < 2 ^ k" and "unat m = 2 ^ k * j"
  shows "unat (w OR m) = unat w + 2 ^ k * j"
proof -
  have "unat (w OR m) = unat w OR unat m" by (simp add: unsigned_or_eq)
  also have "\<dots> = unat w + unat m"
    using nat_and_disjoint [OF assms(1), of j] assms(2)
    by (simp add: disjunctive_add_eq_or)
  finally show ?thesis using assms(2) by simp
qed

lemma hd_store_be: "k > 0 \<Longrightarrow> hd (store_be k t) = of_nat (t div 256 ^ (k - 1))"
proof (induction k arbitrary: t)
  case 0
  then show ?case by simp
next
  case (Suc k)
  show ?case
  proof (cases k)
    case 0
    then show ?thesis by simp
  next
    case (Suc m)
    with Suc.IH [of "t div 256"] have "hd (store_be k (t div 256)) = of_nat (t div 256 div 256 ^ m)"
      by simp
    moreover have "store_be k (t div 256) \<noteq> []"
      using Suc by (metis length_0_conv length_store_be nat.distinct(1))
    then have "hd (store_be (Suc k) t) = hd (store_be k (t div 256))"
      by (metis hd_append2 store_be.simps(2))
    ultimately show ?thesis
      using Suc by (simp only: div_mult2_eq [symmetric] power_Suc) simp
  qed
qed

lemma mod_mult_shift: "(c :: nat) > 0 \<Longrightarrow> (x * c) mod (d * c) div c = x mod d"
  by (simp add: mult_mod_left [symmetric])

lemma unat_drop_take: "unat (drop_bit k (take_bit m (w :: u64))) = unat w mod 2 ^ m div 2 ^ k"
  by (simp only: unat_drop_bit_eq unsigned_take_bit_eq)
    (simp only: take_bit_eq_mod drop_bit_eq_div)

text \<open>Stripping the two length bits and shifting down keeps the low \<open>8 n - 2\<close> bits.\<close>

lemma unat_varint_value:
  assumes "length raw = n" and "n \<in> {2, 4, 8}"
  shows "unat (varint_value raw n) = be_nat raw mod 2 ^ (8 * n - 2)"
proof -
  have mask: "NOT (push_bit 62 3) = (mask 62 :: u64)"
    by (simp add: mask_eq_exp_minus_1)
  have "be_nat (raw @ replicate (8 - n) 0) = be_nat raw * 256 ^ (8 - n)"
    by (simp add: be_nat_zeros)
  moreover have "be_nat (raw @ replicate (8 - n) 0) < 256 ^ 8"
    using be_nat_less [of "raw @ replicate (8 - n) 0"] assms by auto
  ultimately have "unat (load_be (raw @ replicate (8 - n) 0)) = be_nat raw * 256 ^ (8 - n)"
    using unat_of_nat_u64 [of "be_nat (raw @ replicate (8 - n) 0)"] by (simp only: load_be_def) simp
  then have "unat (varint_value raw n)
      = (be_nat raw * 256 ^ (8 - n)) mod 2 ^ 62 div 2 ^ ((8 - n) * 8)"
    unfolding varint_value_def mask
    by (simp only: take_bit_eq_mask [symmetric] unat_drop_take)
  also have "\<dots> = be_nat raw mod 2 ^ (8 * n - 2)"
    using assms(2) mod_mult_shift [of 281474976710656 "be_nat raw" "2 ^ 14"]
      mod_mult_shift [of 4294967296 "be_nat raw" "2 ^ 30"] by auto
  finally show ?thesis .
qed

text \<open>The two top bits of the first byte select the length.\<close>

definition varint_length :: "bytes \<Rightarrow> nat" where
  "varint_length bs = 2 ^ (unat (hd bs) div 64)"

lemma varint_tag: "unat (drop_bit 6 (b :: u8) AND 3) = unat b div 64"
proof -
  have "unat (drop_bit 6 b AND 3) = unat (take_bit 2 (drop_bit 6 b))"
    by (simp add: take_bit_eq_mask mask_eq_exp_minus_1)
  also have "\<dots> = take_bit 2 (drop_bit 6 (unat b))"
    by (simp add: unsigned_take_bit_eq unat_drop_bit_eq)
  also have "\<dots> = unat b div 64"
    using unsigned_less [of b, where ?'a = nat]
    by (simp only: take_bit_eq_mod drop_bit_eq_div) simp
  finally show ?thesis .
qed

lemma tag_less_4: "unat (b :: u8) div 64 < 4"
  using unsigned_less [of b, where ?'a = nat] by simp

lemma tag_cases:
  obtains "unat (b :: u8) div 64 = 0" | "unat b div 64 = 1" | "unat b div 64 = 2"
    | "unat b div 64 = 3"
  using tag_less_4 [of b] by linarith

lemma unat_bytesExpected:
  "unat (push_bit (unat (drop_bit 6 (b :: u8) AND 3)) 1 :: u8) = 2 ^ (unat b div 64)"
  by (rule tag_cases [of b]) (simp_all add: varint_tag)

lemma varint_type_zero: "drop_bit 6 (b :: u8) AND 3 = 0 \<longleftrightarrow> unat b div 64 = 0"
  by (metis unat_eq_zero varint_tag)

lemma one_byte_value:
  assumes "unat (b :: u8) div 64 = 0"
  shows "unat (ucast (b AND 0x3f) :: u64) = be_nat [b] mod 2 ^ 6"
proof -
  have "b AND 0x3f = take_bit 6 b" by (simp add: take_bit_eq_mask mask_eq_exp_minus_1)
  then have "unat (b AND 0x3f) = take_bit 6 (unat b)"
    by (simp only: unsigned_take_bit_eq)
  then have "unat (b AND 0x3f) = unat b mod 64"
    by (simp only: take_bit_eq_mod) simp
  then show ?thesis by (simp add: be_nat_def unsigned_ucast_eq take_bit_nat_eq_self)
qed

section \<open>Behaviour of the decoder\<close>

lemma decode_unfold:
  assumes "limit \<noteq> 0" and "canAdvance c 1" and "peekBytes c = (data, c1)"
    and "n = 2 ^ (unat (hd data) div 64)"
  shows "decodeQuicInteger c limit =
     (if n = 1
      then and_then (skip c1 1) (\<lambda>c2. Inr (Some (ucast (hd data AND 0x3f), 1), c2))
      else if \<not> canAdvance c1 n \<or> limit < of_nat n then Inr (None, c1)
      else and_then (pull c1 n) (\<lambda>(raw, c2). Inr (Some (varint_value raw n, n), c2)))"
proof -
  have "drop_bit 6 (hd data) AND 3 = 0 \<longleftrightarrow> n = 1"
    using assms(4) by (auto simp: varint_type_zero intro: tag_cases [of "hd data"])
  then show ?thesis
    unfolding decodeQuicInteger_def using assms(1-3)
    by (simp only: Let_def prod.case unat_bytesExpected assms(4) [symmetric]) simp
qed

lemma decode_peek:
  assumes "cursor_at c p bs" and "bs \<noteq> []"
  obtains data c1 where "peekBytes c = (data, c1)" and "cursor_at c1 p bs"
    and "hd data = hd bs" and "canAdvance c 1"
proof -
  obtain data c1 where d: "peekBytes c = (data, c1)" by fastforce
  with peekBytes_at [OF assms(1)] assms(2) obtain more where
    "cursor_at c1 p bs" "bs = data @ more" "data \<noteq> []" by auto
  with d assms that show thesis by (auto simp: canAdvance_iff cursor_at_def Suc_le_eq)
qed

lemma varint_length_pos: "0 < varint_length bs"
  by (simp add: varint_length_def)

lemma decode_none:
  assumes "cursor_at c p bs"
    and "limit = 0 \<or> bs = [] \<or> length bs < varint_length bs \<or> limit < of_nat (varint_length bs)"
  shows "\<exists>c'. decodeQuicInteger c limit = Inr (None, c') \<and> cursor_at c' p bs"
proof (cases "limit = 0 \<or> bs = []")
  case True
  with assms(1) show ?thesis
    by (auto simp: decodeQuicInteger_def canAdvance_iff cursor_at_def)
next
  case False
  then obtain data c1 where d: "peekBytes c = (data, c1)" "cursor_at c1 p bs"
    "hd data = hd bs" "canAdvance c 1"
    using decode_peek [OF assms(1)] by blast
  let ?n = "varint_length bs"
  have "?n \<noteq> 1"
    using assms(2) False by (auto simp: word_less_1 Suc_le_eq)
  moreover have "\<not> canAdvance c1 ?n \<or> limit < of_nat ?n"
    using assms(2) False d(2) by (auto simp: canAdvance_iff cursor_at_def)
  ultimately show ?thesis
    using False d decode_unfold [of limit c data c1 ?n] by (simp add: varint_length_def)
qed

lemma decode_some:
  assumes "cursor_at c p bs" and "bs \<noteq> []" and "n = varint_length bs"
    and "n \<le> length bs" and "\<not> limit < of_nat n" and "limit \<noteq> 0"
  shows "\<exists>v c'. decodeQuicInteger c limit = Inr (Some (v, n), c')
           \<and> unat v = be_nat (take n bs) mod 2 ^ (8 * n - 2)
           \<and> cursor_at c' (p + n) (drop n bs)"
proof -
  obtain data c1 where d: "peekBytes c = (data, c1)" "cursor_at c1 p bs"
    "hd data = hd bs" "canAdvance c 1"
    using decode_peek [OF assms(1,2)] by blast
  note unf = decode_unfold [OF assms(6) d(4) d(1), of n]
  have n: "n = 2 ^ (unat (hd data) div 64)" using assms(3) d(3) by (simp add: varint_length_def)
  show ?thesis
  proof (cases "n = 1")
    case True
    obtain c2 where c2: "skip c1 1 = Inr c2" "cursor_at c2 (p + 1) (drop 1 bs)"
      using skip_at [OF d(2), of 1] assms(4) True by auto
    have "take 1 bs = [hd bs]" using assms(2) by (cases bs) auto
    moreover have "unat (hd bs) div 64 = 0"
      using n True d(3) by (auto intro: tag_cases [of "hd bs"])
    ultimately have "unat (ucast (hd data AND 0x3f) :: u64) = be_nat (take 1 bs) mod 2 ^ 6"
      using one_byte_value [of "hd bs"] d(3) by simp
    with c2 True unf [OF n] show ?thesis by simp
  next
    case False
    then have "n \<in> {2, 4, 8}"
      using n by (auto intro: tag_cases [of "hd data"])
    then have "unat (varint_value (take n bs) n) = be_nat (take n bs) mod 2 ^ (8 * n - 2)"
      using assms(4) by (intro unat_varint_value) auto
    moreover obtain c2 where "pull c1 n = Inr (take n bs, c2)" "cursor_at c2 (p + n) (drop n bs)"
      using pull_at [OF d(2) assms(4)] by auto
    moreover have "canAdvance c1 n" using d(2) assms(4) by (simp add: canAdvance_iff cursor_at_def)
    ultimately show ?thesis using False assms(5) unf [OF n] by simp
  qed
qed

section \<open>Behaviour of the encoder\<close>

text \<open>An integer tagged with the two length bits in front of \<open>8 n - 2\<close> value bits.\<close>

lemma tagged_integer:
  assumes "v < 2 ^ (8 * n - 2)" and "n = 2 ^ j" and "j < 4"
    and "bs = store_be n (v + 2 ^ (8 * n - 2) * j)"
  shows "length bs = n \<and> be_nat bs = v + 2 ^ (8 * n - 2) * j \<and> unat (hd bs) div 64 = j"
proof -
  let ?t = "v + 2 ^ (8 * n - 2) * j"
  have j: "j = 0 \<or> j = 1 \<or> j = 2 \<or> j = 3" using assms(3) by linarith
  have "?t < 256 ^ n" using j assms(1,2) by auto
  then have "be_nat bs = ?t" using assms(4) by (simp add: be_nat_store_be)
  moreover have "unat (hd bs) div 64 = j"
  proof -
    have "hd bs = of_nat (?t div 256 ^ (n - 1))"
      using assms(2,4) by (simp add: hd_store_be)
    then have "unat (hd bs) = ?t div 256 ^ (n - 1) mod 256" by (simp only: unat_of_nat_u8)
    then show ?thesis using j assms(1,2) by auto
  qed
  ultimately show ?thesis using assms(4) by simp
qed

lemma unat_ucast_small:
  fixes v :: u64
  assumes "unat v < 2 ^ LENGTH('a::len)"
  shows "unat (ucast v :: 'a word) = unat v"
  using assms by (simp add: unsigned_ucast_eq take_bit_nat_eq_self)

lemma encode_spec:
  assumes "encodeQuicInteger v = Inr (n, bs)"
  shows "\<exists>j. n = 2 ^ j \<and> j < 4 \<and> unat v < 2 ^ (8 * n - 2)
           \<and> bs = store_be n (unat v + 2 ^ (8 * n - 2) * j)"
proof -
  consider "v \<le> kOneByteLimit" | "\<not> v \<le> kOneByteLimit" "v \<le> kTwoByteLimit"
    | "\<not> v \<le> kTwoByteLimit" "\<not> v \<le> kOneByteLimit" "v \<le> kFourByteLimit"
    | "\<not> v \<le> kFourByteLimit" "\<not> v \<le> kTwoByteLimit" "\<not> v \<le> kOneByteLimit" "v \<le> kEightByteLimit"
    using assms by (auto simp: encodeQuicInteger_def split: if_splits)
  then show ?thesis
  proof cases
    case 1
    then have "unat v < 64" by (simp add: unat_simps)
    moreover from this have "unat (ucast v :: u8) = unat v" by (intro unat_ucast_small) simp
    ultimately show ?thesis
      using 1 assms by (intro exI [of _ 0]) (auto simp: encodeQuicInteger_def encodeOneByte_def)
  next
    case 2
    then have v: "unat v < 2 ^ 14" by (simp add: unat_simps)
    then have "unat (ucast v :: u16) = unat v" by (intro unat_ucast_small) simp
    then have "unat ((ucast v :: u16) OR 0x4000) = unat v + 2 ^ 14 * 1"
      using v or_high_bit [of "ucast v :: u16" 14 "0x4000" 1] by simp
    then show ?thesis
      using 2 v assms by (intro exI [of _ 1]) (auto simp: encodeQuicInteger_def encodeTwoBytes_def)
  next
    case 3
    then have v: "unat v < 2 ^ 30" by (simp add: unat_simps)
    then have "unat (ucast v :: u32) = unat v" by (intro unat_ucast_small) simp
    then have "unat ((ucast v :: u32) OR 0x80000000) = unat v + 2 ^ 30 * 2"
      using v or_high_bit [of "ucast v :: u32" 30 "0x80000000" 2] by simp
    then show ?thesis
      using 3 v assms by (intro exI [of _ 2]) (auto simp: encodeQuicInteger_def encodeFourBytes_def)
  next
    case 4
    then have v: "unat v < 2 ^ 62" by (simp add: unat_simps)
    then have "unat (v OR 0xC000000000000000) = unat v + 2 ^ 62 * 3"
      using or_high_bit [of v 62 "0xC000000000000000" 3] by simp
    then show ?thesis
      using 4 v assms by (intro exI [of _ 3]) (auto simp: encodeQuicInteger_def encodeEightBytes_def)
  qed
qed

lemma encode_bytes:
  assumes "encodeQuicInteger v = Inr (n, bs)"
  shows "length bs = n \<and> 0 < n \<and> n \<le> 8 \<and> varint_length (bs @ rest) = n
       \<and> be_nat bs mod 2 ^ (8 * n - 2) = unat v"
proof -
  obtain j where j: "n = 2 ^ j" "j < 4" "unat v < 2 ^ (8 * n - 2)"
    "bs = store_be n (unat v + 2 ^ (8 * n - 2) * j)"
    using encode_spec [OF assms] by blast
  note t = tagged_integer [OF j(3) j(1) j(2) j(4)]
  have "bs \<noteq> []" using t j(1) by auto
  moreover have "n \<le> 8"
    using j(1) power_increasing [of j 3 "2::nat"] j(2) by simp
  ultimately show ?thesis using t j by (auto simp: varint_length_def)
qed

lemma encode_decode:
  assumes "encodeQuicInteger v = Inr (n, bs)" and "cursor_at c p (bs @ rest)"
    and "8 \<le> limit"
  shows "\<exists>c'. decodeQuicInteger c limit = Inr (Some (v, n), c') \<and> cursor_at c' (p + n) rest"
proof -
  note e = encode_bytes [OF assms(1), of rest]
  have lim: "\<not> limit < of_nat n" "limit \<noteq> 0"
  proof -
    have "unat (of_nat n :: u64) = n" using e by (intro unat_of_nat_u64) simp
    with e assms(3) show "\<not> limit < of_nat n" by (simp add: unat_simps)
    show "limit \<noteq> 0" using assms(3) by auto
  qed
  have "bs @ rest \<noteq> []" "n \<le> length (bs @ rest)" "n = varint_length (bs @ rest)"
    using e by auto
  from decode_some [OF assms(2) this(1,3,2) lim] e show ?thesis
    by (auto simp: word_unat_eq_iff)
qed

lemma encode_succeeds_iff:
  "(\<exists>n bs. encodeQuicInteger v = Inr (n, bs)) \<longleftrightarrow> v \<le> kEightByteLimit"
proof
  assume "\<exists>n bs. encodeQuicInteger v = Inr (n, bs)"
  then show "v \<le> kEightByteLimit"
    by (auto simp: encodeQuicInteger_def unat_simps split: if_splits)
next
  assume "v \<le> kEightByteLimit"
  then show "\<exists>n bs. encodeQuicInteger v = Inr (n, bs)"
    by (auto simp: encodeQuicInteger_def encodeOneByte_def encodeTwoBytes_def
        encodeFourBytes_def encodeEightBytes_def Let_def)
qed

lemma getQuicIntegerSize_encode:
  "getQuicIntegerSize v = (case encodeQuicInteger v of Inl e \<Rightarrow> Inl e | Inr (n, bs) \<Rightarrow> Inr n)"
  by (simp add: getQuicIntegerSize_def encodeQuicInteger_def encodeOneByte_def
      encodeTwoBytes_def encodeFourBytes_def encodeEightBytes_def Let_def)

section \<open>Properties\<close>

text \<open>C6: Round trip of variable-length integers: whatever \<^verbatim>\<open>encodeQuicInteger\<close>
  writes, \<^verbatim>\<open>decodeQuicInteger\<close> reads back as the same value with the same
  length, from any chunking of the input into buffers and with any bytes following, and
  leaves the cursor right behind the integer.\<close>

theorem quic_integer_roundtrip:
  assumes "encodeQuicInteger v = Inr (n, bs)" and "concat chunks = bs @ rest"
  shows "\<exists>c'. decodeQuicInteger (cursor_of chunks) 8 = Inr (Some (v, n), c')
           \<and> cur_pos c' = n \<and> cursor_bytes c' = rest"
proof -
  have "cursor_at (cursor_of chunks) 0 (bs @ rest)"
    using cursor_of_at [of chunks] assms(2) by simp
  from encode_decode [OF assms(1) this, of 8] show ?thesis by (auto simp: cursor_at_def)
qed

theorem quic_integer_roundtrip_witness:
  "\<exists>c'. decodeQuicInteger (cursor_of [[0x7b], [], [0xbd, 0x2a]]) 8 = Inr (Some (15293, 2), c')
      \<and> cur_pos c' = 2 \<and> cursor_bytes c' = [0x2a]"
  by (rule quic_integer_roundtrip [where bs = "[0x7b, 0xbd]"])
    (simp_all add: encodeQuicInteger_def encodeTwoBytes_def store_be_numeral)

text \<open>The decoder fails without moving, or reads one integer.\<close>

lemma decode_cases:
  obtains (none) c' where "decodeQuicInteger c limit = Inr (None, c')"
      and "cur_pos c' = cur_pos c" and "cursor_bytes c' = cursor_bytes c"
    | (some) v n c' where "decodeQuicInteger c limit = Inr (Some (v, n), c')" and "n \<in> {1, 2, 4, 8}"
      and "n \<le> length (cursor_bytes c)" and "n \<le> unat limit" and "unat v < 2 ^ (8 * n - 2)"
      and "cur_pos c' = cur_pos c + n" and "cursor_bytes c' = drop n (cursor_bytes c)"
proof -
  let ?bs = "cursor_bytes c" and ?n = "varint_length (cursor_bytes c)"
  have at: "cursor_at c (cur_pos c) ?bs" by (simp add: cursor_at_def)
  have n: "?n \<in> {1, 2, 4, 8}"
    by (auto simp: varint_length_def intro: tag_cases [of "hd ?bs"])
  show thesis
  proof (cases "limit = 0 \<or> ?bs = [] \<or> length ?bs < ?n \<or> limit < of_nat ?n")
    case True
    from decode_none [OF at True] show thesis using none by (auto simp: cursor_at_def)
  next
    case False
    then have "unat (of_nat ?n :: u64) \<le> unat limit" by (simp add: unat_simps not_less)
    moreover have "unat (of_nat ?n :: u64) = ?n" using n by (intro unat_of_nat_u64) auto
    moreover obtain v c' where "decodeQuicInteger c limit = Inr (Some (v, ?n), c')"
      "unat v = be_nat (take ?n ?bs) mod 2 ^ (8 * ?n - 2)"
      "cursor_at c' (cur_pos c + ?n) (drop ?n ?bs)"
      using decode_some [OF at, of ?n limit] False by auto
    ultimately show thesis using some [of v ?n c'] n False by (auto simp: cursor_at_def)
  qed
qed

text \<open>C25: The decoder is total and safe on every input: it never throws, never reads past
  the input, yields a value below \<open>2 ^ 62\<close> with a length of 1, 2, 4 or 8 bytes by which
  the cursor moved, and on failure leaves the cursor's position and the remaining bytes
  untouched.\<close>

theorem decodeQuicInteger_safe:
  "case decodeQuicInteger c limit of
     Inl e \<Rightarrow> False
   | Inr (None, c') \<Rightarrow> cur_pos c' = cur_pos c \<and> cursor_bytes c' = cursor_bytes c
   | Inr (Some (v, n), c') \<Rightarrow> n \<in> {1, 2, 4, 8} \<and> n \<le> length (cursor_bytes c)
       \<and> n \<le> unat limit \<and> unat v < 2 ^ (8 * n - 2)
       \<and> cur_pos c' = cur_pos c + n \<and> cursor_bytes c' = drop n (cursor_bytes c)"
  by (rule decode_cases [of c limit]) auto

text \<open>C26: The size functions agree with the encoder: \<^verbatim>\<open>getQuicIntegerSize\<close> is
  the number of bytes the encoder writes, the encoder reports exactly the bytes it
  appends, values above \<open>2 ^ 62 - 1\<close> are the only ones refused (with
  \<^verbatim>\<open>INTERNAL_ERROR\<close>), and the throwing size function throws exactly there.\<close>

theorem quic_integer_sizes:
  "case encodeQuicInteger v of
     Inl e \<Rightarrow> e = INTERNAL_ERROR \<and> v > kEightByteLimit
       \<and> getQuicIntegerSize v = Inl e \<and> getQuicIntegerSizeThrows v = Inl runtime_error
       \<and> QuicInteger_getSize v = Inl runtime_error
   | Inr (n, bs) \<Rightarrow> v \<le> kEightByteLimit \<and> length bs = n \<and> getQuicIntegerSize v = Inr n
       \<and> getQuicIntegerSizeThrows v = Inr n \<and> QuicInteger_getSize v = Inr n"
proof (cases "encodeQuicInteger v")
  case (Inl e)
  then show ?thesis
    by (auto simp: encodeQuicInteger_def getQuicIntegerSize_def getQuicIntegerSizeThrows_def
        QuicInteger_getSize_def unat_simps split: if_splits)
next
  case (Inr r)
  obtain n bs where r: "r = (n, bs)" by fastforce
  have "getQuicIntegerSizeThrows v = Inr n"
    using Inr r getQuicIntegerSize_encode [of v]
    by (auto simp: getQuicIntegerSizeThrows_def getQuicIntegerSize_def split: if_splits)
  then show ?thesis
    using Inr r encode_bytes [of v n bs] encode_succeeds_iff [of v] getQuicIntegerSize_encode [of v]
    by (auto simp: QuicInteger_getSize_def)
qed

text \<open>C28: The overload of the decoder on a raw buffer does not agree with the cursor
  version: for every multi-byte integer it takes the value from the start of the buffer
  whatever the offset is, and moves the offset one byte too far.\<close>

theorem decodeQuicInteger_buf_misreads:
  assumes "0 < unat (buf ! offset) div 64" and "n = 2 ^ (unat (buf ! offset) div 64)"
    and "n \<le> len" and "8 \<le> limit"
  shows "decodeQuicInteger_buf buf offset len limit =
           (Some (varint_value (take n buf) n, n), offset + n + 1)"
proof -
  have n: "n \<in> {2, 4, 8}"
    using assms(1,2) by (auto intro: tag_cases [of "buf ! offset"])
  then have "unat (of_nat n :: u64) = n" by (intro unat_of_nat_u64) auto
  then have "\<not> limit < of_nat n" using n assms(4) by (auto simp: unat_simps)
  moreover have "drop_bit 6 (buf ! offset) AND 3 \<noteq> 0" using assms(1) by (simp add: varint_type_zero)
  moreover have "limit \<noteq> 0" using assms(4) by auto
  ultimately show ?thesis
    using n assms(3) unfolding decodeQuicInteger_buf_def
    by (simp only: Let_def unat_bytesExpected assms(2) [symmetric]) auto
qed

theorem decodeQuicInteger_buf_misreads_witness:
  "decodeQuicInteger_buf [0xff, 0x40, 0x7b, 0x01] 1 4 8 = (Some (16192, 2), 4)"
proof -
  have "varint_value (take 2 [0xff, 0x40, 0x7b, 0x01]) 2 = 16192"
    using unat_varint_value [where n = 2 and raw = "take 2 [0xff, 0x40, 0x7b, 0x01]"]
    by (simp add: word_unat_eq_iff be_nat_def)
  then show ?thesis
    using decodeQuicInteger_buf_misreads [where buf = "[0xff, 0x40, 0x7b, 0x01]" and offset = 1 and n = 2
        and len = 4 and limit = 8] by simp
qed

end
