(* ===== verification/Packet_Num.thy ===== *)
theory Packet_Num
  imports Quic_Types
begin

text \<open>
  Truncated packet numbers: \<^verbatim>\<open>protocol/quic_packet_num.cpp\<close> and the bit scan
  \<^verbatim>\<open>common::findLastSet\<close> of \<^verbatim>\<open>common/common.hpp\<close>. The encoder keeps just
  enough low-order bytes of a packet number for a receiver whose expectation lies between
  the largest acknowledged packet and half a window ahead; the decoder picks the candidate
  closest to its expectation.
\<close>

section \<open>Operations\<close>

record PacketNumEncodingResult =
  enc_result :: PacketNum
  enc_length :: u32

text \<open>The compiler builtin \<^verbatim>\<open>__builtin_clzl\<close> on a 64-bit operand: leading zeros.\<close>

fun clz_below :: "nat \<Rightarrow> u64 \<Rightarrow> nat" where
  "clz_below 0 v = 0"
| "clz_below (Suc k) v = (if bit v k then 0 else Suc (clz_below k v))"

definition builtin_clzl :: "u64 \<Rightarrow> u32" where
  "builtin_clzl v = of_nat (clz_below 64 v)"

definition findLastSet :: "u64 \<Rightarrow> u32" where
  "findLastSet v = (if v \<noteq> 0 then 1 + ((8 * 8 - 1) XOR builtin_clzl v) else 0)"

definition encodePacketNumber :: "PacketNum \<Rightarrow> PacketNum \<Rightarrow> PacketNumEncodingResult result" where
  "encodePacketNumber packetNum largestAckedPacketNum =
     (let twiceDistance = (packetNum - largestAckedPacketNum) * 2;
          lengthInBits = findLastSet twiceDistance;
          lengthInBytes = (if lengthInBits = 0 then 1 else drop_bit 3 (lengthInBits + 7))
      in if lengthInBytes > 4 then Inl runtime_error
         else let mask = push_bit (unat (lengthInBytes * 8)) 1 - 1
              in Inr \<lparr>enc_result = packetNum AND mask, enc_length = lengthInBytes\<rparr>)"

definition decodePacketNumber :: "u64 \<Rightarrow> u32 \<Rightarrow> PacketNum \<Rightarrow> PacketNum" where
  "decodePacketNumber encodedPacketNum packetNumBytes expectedNextPacketNum =
     (let packetNumBits = unat (8 * packetNumBytes);
          packetNumWin = push_bit packetNumBits 1;
          packetNumHalfWin = drop_bit 1 packetNumWin;
          mask = packetNumWin - 1;
          candidate = (expectedNextPacketNum AND NOT mask) OR encodedPacketNum
      in if expectedNextPacketNum > packetNumHalfWin \<and>
            candidate \<le> expectedNextPacketNum - packetNumHalfWin \<and>
            candidate < push_bit 62 1 - packetNumWin
         then candidate + packetNumWin
         else if candidate > expectedNextPacketNum + packetNumHalfWin \<and> candidate \<ge> packetNumWin
         then candidate - packetNumWin
         else candidate)"

section \<open>The bit scan\<close>

lemma bit_top:
  assumes "unat v < 2 ^ Suc k"
  shows "bit (v :: u64) k \<longleftrightarrow> 2 ^ k \<le> unat v"
proof -
  have "bit v k \<longleftrightarrow> bit (unat v) k" by (simp add: bit_unsigned_iff)
  then have "bit v k \<longleftrightarrow> odd (unat v div 2 ^ k)" by (simp only: bit_iff_odd)
  moreover have "unat v div 2 ^ k < 2" using assms by (simp add: less_mult_imp_div_less)
  then have "unat v div 2 ^ k = 0 \<or> unat v div 2 ^ k = 1" by linarith
  ultimately show ?thesis by (auto simp: div_eq_0_iff not_less leI) (metis div_less leI nat.simps(3))
qed

lemma clz_below_bound:
  assumes "unat v < 2 ^ k" and "v \<noteq> 0"
  shows "clz_below k v < k \<and> 2 ^ (k - clz_below k v - 1) \<le> unat v
           \<and> unat v < 2 ^ (k - clz_below k v)"
  using assms(1)
proof (induction k)
  case 0
  with assms(2) show ?case by (simp add: word_unat_eq_iff)
next
  case (Suc k)
  then show ?case using bit_top [OF Suc.prems] by (auto simp: not_le)
qed

lemma xor_63: "n \<le> 63 \<Longrightarrow> (63 :: u32) XOR of_nat n = of_nat (63 - n)"
proof -
  assume n: "n \<le> 63"
  let ?w = "of_nat n :: u32"
  have w: "?w = take_bit 6 ?w"
    using n by (simp only: take_bit_of_nat) (simp add: take_bit_nat_eq_self)
  have m: "(63 :: u32) = mask 6" by (simp add: mask_eq_exp_minus_1)
  have b: "i < 6" if "bit ?w i" for i using that w by (metis bit_take_bit_iff)
  have "?w AND (63 XOR ?w) = 0"
    unfolding m by (rule bit_eqI) (use b in \<open>auto simp: bit_simps\<close>)
  then have "?w + (63 XOR ?w) = ?w OR (63 XOR ?w)" by (rule disjunctive_add_eq_or)
  also have "\<dots> = 63"
    unfolding m by (rule bit_eqI) (use b in \<open>auto simp: bit_simps\<close>)
  finally show ?thesis using n by (simp add: algebra_simps of_nat_diff)
qed

lemma findLastSet_bits:
  assumes "v \<noteq> 0"
  obtains k where "findLastSet v = of_nat (Suc k)" and "k < 64"
    and "2 ^ k \<le> unat v" and "unat v < 2 ^ Suc k"
proof -
  let ?z = "clz_below 64 v"
  have z: "?z < 64" "2 ^ (63 - ?z) \<le> unat v" "unat v < 2 ^ (64 - ?z)"
    using clz_below_bound [of v 64] assms unat_u64_less [of v] by auto
  show thesis
  proof (rule that [of "63 - ?z"])
    show "findLastSet v = of_nat (Suc (63 - ?z))"
      using assms z(1) xor_63 [of ?z] by (simp add: findLastSet_def builtin_clzl_def)
    show "unat v < 2 ^ Suc (63 - ?z)" using z(1,3) by (simp flip: Suc_diff_le)
  qed (use z in auto)
qed

section \<open>Encoding and decoding\<close>

lemma and_mask_u64: "(w :: u64) AND (push_bit k 1 - 1) = take_bit k w"
  by (simp add: take_bit_eq_mask push_bit_eq_mult flip: mask_eq_exp_minus_1)

lemma unat_take_bit_mod: "unat (take_bit k (w :: u64)) = unat w mod 2 ^ k"
  by (simp only: unsigned_take_bit_eq) (simp add: take_bit_eq_mod)

lemma unat_push_bit_1: "k < 64 \<Longrightarrow> unat (push_bit k 1 :: u64) = 2 ^ k"
  using unat_of_nat_u64 [of "2 ^ k"] power_strict_increasing [of k 64 "2 :: nat"] by simp

text \<open>The shape of the encoder's result: the number of bytes is the least that holds
  twice the distance to the largest acknowledged packet.\<close>

lemma length_in_bytes:
  assumes "k < 64"
  shows "drop_bit 3 (of_nat (Suc k) + 7 :: u32) = of_nat ((k + 8) div 8)"
    and "(of_nat (Suc k) :: u32) \<noteq> 0"
    and "unat (of_nat ((k + 8) div 8) :: u32) = (k + 8) div 8"
    and "unat (of_nat ((k + 8) div 8) * 8 :: u32) = 8 * ((k + 8) div 8)"
proof -
  have "of_nat (Suc k) + 7 = (of_nat (k + 8) :: u32)" by simp
  moreover have "unat (of_nat (k + 8) :: u32) = k + 8"
    using assms by (simp add: unsigned_of_nat take_bit_nat_eq_self del: of_nat_add)
  moreover show n: "unat (of_nat ((k + 8) div 8) :: u32) = (k + 8) div 8"
    using assms by (simp add: unsigned_of_nat take_bit_nat_eq_self)
  ultimately show "drop_bit 3 (of_nat (Suc k) + 7 :: u32) = of_nat ((k + 8) div 8)"
    unfolding word_unat_eq_iff unat_drop_bit_eq by (simp add: drop_bit_eq_div)
  show "(of_nat (Suc k) :: u32) \<noteq> 0"
    using assms by (simp add: word_unat_eq_iff unsigned_of_nat take_bit_nat_eq_self del: of_nat_Suc)
  show "unat (of_nat ((k + 8) div 8) * 8 :: u32) = 8 * ((k + 8) div 8)"
    using assms n by (simp add: unat_word_ariths)
qed

lemma encode_cases:
  obtains (fail) "encodePacketNumber pn la = Inl runtime_error" and "2 ^ 32 \<le> unat ((pn - la) * 2)"
  | (ok) n where "encodePacketNumber pn la =
        Inr \<lparr>enc_result = take_bit (8 * n) pn, enc_length = of_nat n\<rparr>"
      and "n \<in> {1, 2, 3, 4}" and "unat ((pn - la) * 2) < 2 ^ (8 * n)"
      and "\<And>m. 1 \<le> m \<Longrightarrow> m < n \<Longrightarrow> 2 ^ (8 * m) \<le> unat ((pn - la) * 2)"
proof (cases "(pn - la) * 2 = 0")
  case True
  then have "encodePacketNumber pn la = Inr \<lparr>enc_result = pn AND (push_bit 8 1 - 1), enc_length = 1\<rparr>"
    by (simp add: encodePacketNumber_def findLastSet_def Let_def)
  then show thesis using ok [of 1] True by (simp only: and_mask_u64) simp
next
  case False
  then obtain k where k: "findLastSet ((pn - la) * 2) = of_nat (Suc k)" "k < 64"
    "2 ^ k \<le> unat ((pn - la) * 2)" "unat ((pn - la) * 2) < 2 ^ Suc k"
    using findLastSet_bits by metis
  let ?n = "(k + 8) div 8"
  note len = length_in_bytes [OF k(2)]
  have enc: "encodePacketNumber pn la =
     (if of_nat ?n > (4 :: u32) then Inl runtime_error
      else Inr \<lparr>enc_result = pn AND (push_bit (8 * ?n) 1 - 1), enc_length = of_nat ?n\<rparr>)"
    unfolding encodePacketNumber_def Let_def k(1) using len(2) by (simp only: len(1,4) if_False)
  have four: "of_nat ?n > (4 :: u32) \<longleftrightarrow> ?n > 4" using len(3) by (simp add: word_less_nat_alt)
  show thesis
  proof (cases "?n > 4")
    case True
    then have "(2 :: nat) ^ 32 \<le> 2 ^ k" by (intro power_increasing) auto
    with k(3) have "2 ^ 32 \<le> unat ((pn - la) * 2)" by linarith
    moreover have "encodePacketNumber pn la = Inl runtime_error"
      using True enc four by (simp only: if_True)
    ultimately show thesis by (rule fail [rotated])
  next
    case False
    show thesis
    proof (rule ok [of ?n])
      show "encodePacketNumber pn la =
          Inr \<lparr>enc_result = take_bit (8 * ?n) pn, enc_length = of_nat ?n\<rparr>"
        using False enc four by (simp only: and_mask_u64 if_False)
      show "?n \<in> {1, 2, 3, 4}" using False by auto
      have "(2 :: nat) ^ Suc k \<le> 2 ^ (8 * ?n)" by (rule power_increasing) auto
      with k(4) show "unat ((pn - la) * 2) < 2 ^ (8 * ?n)" by linarith
      fix m assume "1 \<le> m" "m < ?n"
      then have "(2 :: nat) ^ (8 * m) \<le> 2 ^ k" by (intro power_increasing) auto
      with k(3) show "2 ^ (8 * m) \<le> unat ((pn - la) * 2)" by linarith
    qed
  qed
qed

lemma twice_distance:
  "la \<le> pn \<Longrightarrow> unat pn - unat la < 2 ^ 62 \<Longrightarrow> unat ((pn - la) * 2 :: u64) = 2 * (unat pn - unat la)"
  unfolding unat_word_ariths(2) by (simp add: unat_sub_no_wrap word_le_nat_alt)

lemma candidate_value:
  assumes "unat enc < 2 ^ k" and "k < 64"
  shows "unat (((e :: u64) AND NOT (push_bit k 1 - 1)) OR enc) = unat e div 2 ^ k * 2 ^ k + unat enc"
proof -
  have m: "push_bit k 1 - 1 = (mask k :: u64)"
    by (simp add: push_bit_eq_mult flip: mask_eq_exp_minus_1)
  have enc: "enc = take_bit k enc"
    using assms(1) by (simp add: word_unat_eq_iff unsigned_take_bit_eq take_bit_nat_eq_self)
  have b: "i < k" if "bit enc i" for i using that enc by (metis bit_take_bit_iff)
  have "(e AND NOT (mask k)) AND take_bit k e = 0" "(e AND NOT (mask k)) OR take_bit k e = e"
    by (rule bit_eqI; auto simp: bit_simps)+
  then have "(e AND NOT (mask k)) + take_bit k e = e" by (simp add: disjunctive_add_eq_or)
  then have "e AND NOT (mask k) = e - take_bit k e" by (simp add: algebra_simps)
  moreover have "unat (take_bit k e) = unat e mod 2 ^ k" by (rule unat_take_bit_mod)
  moreover from this have "unat (e - take_bit k e) = unat e - unat (take_bit k e)"
    by (intro unat_sub_no_wrap) simp
  ultimately have hi: "unat (e AND NOT (mask k)) = unat e div 2 ^ k * 2 ^ k"
    by (simp add: minus_mod_eq_div_mult)
  have "(e AND NOT (mask k)) AND enc = 0"
    by (rule bit_eqI) (use b in \<open>auto simp: bit_simps\<close>)
  then have "(e AND NOT (mask k)) OR enc = (e AND NOT (mask k)) + enc"
    by (simp add: disjunctive_add_eq_or)
  moreover have "unat e div 2 ^ k * 2 ^ k + unat enc < 2 ^ 64"
  proof -
    have "unat e div 2 ^ k < 2 ^ (64 - k)"
      using assms(2) by (simp add: div_less_iff_less_mult flip: power_add)
    then have "Suc (unat e div 2 ^ k) * 2 ^ k \<le> 2 ^ (64 - k) * 2 ^ k"
      by (intro mult_right_mono) auto
    then show ?thesis using assms by (simp flip: power_add)
  qed
  ultimately show ?thesis unfolding m using hi by (simp add: unat_add_no_wrap)
qed

text \<open>Window arithmetic on natural numbers: \<open>W\<close> is the window, \<open>H\<close> half of it,
  \<open>e\<close> the expectation, \<open>p\<close> the packet number.\<close>

lemma window_nat:
  fixes W H e p :: nat
  assumes W: "W = 2 * H" and e: "e = a * W + r" "r < W" and p: "p = b * W + q" "q < W"
    and near: "e < p + H" "p < e + H" and M: "p < M"
  shows "(if e > H \<and> a * W + q \<le> e - H \<and> a * W + q < M - W then a * W + q + W
          else if a * W + q > e + H \<and> a * W + q \<ge> W then a * W + q - W
          else a * W + q) = p"
proof -
  have "b < a + 2"
  proof (rule ccontr)
    assume "\<not> b < a + 2"
    then have "(a + 2) * W \<le> b * W" by (intro mult_right_mono) auto
    with W e p near show False by (simp add: algebra_simps)
  qed
  moreover have "a < b + 2"
  proof (rule ccontr)
    assume "\<not> a < b + 2"
    then have "(b + 2) * W \<le> a * W" by (intro mult_right_mono) auto
    with W e p near show False by (simp add: algebra_simps)
  qed
  ultimately consider "b = a" | "b = a + 1" | "a = b + 1" by linarith
  then show ?thesis
  proof cases
    case 1 with W e p near M show ?thesis by auto
  next
    case 2 with W e p near M show ?thesis by (auto simp: algebra_simps)
  next
    case 3 with W e p near M show ?thesis by (auto simp: algebra_simps)
  qed
qed

lemma window_word:
  fixes c W H e pn L :: u64
  assumes "(if unat e > unat H \<and> unat c \<le> unat e - unat H \<and> unat c < unat L
      then unat c + unat W
      else if unat c > unat e + unat H \<and> unat c \<ge> unat W then unat c - unat W
      else unat c) = unat pn"
    and "unat e + unat H < 2 ^ 64" and "unat L + unat W < 2 ^ 64"
  shows "(if e > H \<and> c \<le> e - H \<and> c < L then c + W
          else if c > e + H \<and> c \<ge> W then c - W else c) = pn"
proof -
  have "unat (e + H) = unat e + unat H" using assms(2) by (simp add: unat_add_no_wrap)
  moreover have "unat (e - H) = unat e - unat H" if "unat e > unat H"
    using that by (simp add: unat_sub_no_wrap)
  moreover have "unat (c + W) = unat c + unat W" if "unat c < unat L"
    using that assms(3) by (simp add: unat_add_no_wrap)
  moreover have "unat (c - W) = unat c - unat W" if "unat c \<ge> unat W"
    using that by (simp add: unat_sub_no_wrap)
  ultimately show ?thesis
    using assms(1) by (auto simp: word_less_nat_alt word_le_nat_alt word_unat_eq_iff split: if_splits)
qed

lemma decode_near:
  assumes n: "n \<in> {1, 2, 3, 4}" and pn: "unat pn < 2 ^ 62" and e: "unat e < 2 ^ 63"
    and near: "unat e < unat pn + 2 ^ (8 * n - 1)" "unat pn < unat e + 2 ^ (8 * n - 1)"
  shows "decodePacketNumber (take_bit (8 * n) pn) (of_nat n) e = pn"
proof -
  let ?W = "push_bit (8 * n) 1 :: u64" and ?H = "drop_bit 1 (push_bit (8 * n) 1) :: u64"
  let ?c = "(e AND NOT (?W - 1)) OR take_bit (8 * n) pn"
  have bits: "unat (8 * of_nat n :: u32) = 8 * n" using n by auto
  have q: "unat (take_bit (8 * n) pn) = unat pn mod 2 ^ (8 * n)"
    by (rule unat_take_bit_mod)
  have W: "unat ?W = 2 ^ (8 * n)" using n by (intro unat_push_bit_1) auto
  have H: "unat ?H = 2 ^ (8 * n - 1)" using n by auto
  have c: "unat ?c = unat e div 2 ^ (8 * n) * 2 ^ (8 * n) + unat pn mod 2 ^ (8 * n)"
    using candidate_value [of "take_bit (8 * n) pn" "8 * n" e] n q by auto
  have small: "(2 :: nat) ^ (8 * n) \<le> 2 ^ 32" using n by (intro power_increasing) auto
  have half: "(2 :: nat) ^ (8 * n - 1) \<le> 2 ^ 32" using n by (intro power_increasing) auto
  note nat = window_nat [of "2 ^ (8 * n)" "2 ^ (8 * n - 1)" "unat e" "unat e div 2 ^ (8 * n)"
      "unat e mod 2 ^ (8 * n)" "unat pn" "unat pn div 2 ^ (8 * n)" "unat pn mod 2 ^ (8 * n)" "2 ^ 62"]
  have L: "unat (push_bit 62 1 - ?W) = 2 ^ 62 - 2 ^ (8 * n)"
    using small W unat_push_bit_1 [of 62] unat_sub_no_wrap [of ?W "push_bit 62 1"] by simp
  have "(if unat e > unat ?H \<and> unat ?c \<le> unat e - unat ?H \<and> unat ?c < unat (push_bit 62 1 - ?W)
      then unat ?c + unat ?W
      else if unat ?c > unat e + unat ?H \<and> unat ?c \<ge> unat ?W then unat ?c - unat ?W
      else unat ?c) = unat pn"
    unfolding c W H L using near pn n by (intro nat) (auto simp flip: power_Suc)
  moreover have "unat e + unat ?H < 2 ^ 64"
    using e half unfolding H by simp
  moreover have "unat (push_bit 62 1 - ?W) + unat ?W < 2 ^ 64"
    unfolding L W using small by simp
  ultimately show ?thesis
    unfolding decodePacketNumber_def Let_def bits by (rule window_word)
qed

section \<open>Properties\<close>

text \<open>C9: Packet numbers survive truncation: whatever \<^verbatim>\<open>encodePacketNumber\<close>
  produces for a packet number below \<open>2 ^ 62\<close> relative to the largest acknowledged one,
  \<^verbatim>\<open>decodePacketNumber\<close> restores at every receiver that has seen the
  acknowledged packet and whose expectation is less than half a window ahead of the packet
  (reordering included).\<close>

theorem packet_number_roundtrip:
  assumes "encodePacketNumber pn la = Inr r" and "pn < 2 ^ 62" and "la \<le> pn"
    and "la \<le> expected" and "unat expected < unat pn + 2 ^ (8 * unat (enc_length r) - 1)"
  shows "decodePacketNumber (enc_result r) (enc_length r) expected = pn"
proof -
  obtain n where n: "enc_length r = of_nat n" "n \<in> {1, 2, 3, 4}"
    "unat ((pn - la) * 2) < 2 ^ (8 * n)" "enc_result r = take_bit (8 * n) pn"
  proof (cases rule: encode_cases [of pn la])
    case (ok n)
    with assms(1) have "r = \<lparr>enc_result = take_bit (8 * n) pn, enc_length = of_nat n\<rparr>" by simp
    with ok(2,3) show thesis by (intro that [of n]) simp_all
  qed (use assms(1) in simp)
  have len: "unat (enc_length r) = n" using n(1,2) by auto
  have pn: "unat pn < 2 ^ 62" using assms(2) by (simp add: word_less_nat_alt)
  have "unat ((pn - la) * 2) = 2 * (unat pn - unat la)"
    using assms(3) pn by (intro twice_distance) auto
  moreover have "(2 :: nat) ^ (8 * n) = 2 * 2 ^ (8 * n - 1)"
    using n(2) by (auto simp flip: power_Suc)
  ultimately have near: "unat pn < unat la + 2 ^ (8 * n - 1)" using n(3) by simp
  have "(2 :: nat) ^ (8 * n - 1) \<le> 2 ^ 31" using n(2) by (intro power_increasing) auto
  with assms(5) pn len have exp: "unat expected < 2 ^ 62 + 2 ^ 31" by simp
  show ?thesis
    unfolding n(1,4)
  proof (rule decode_near [OF n(2) pn])
    show "unat expected < 2 ^ 63" using exp by simp
    show "unat expected < unat pn + 2 ^ (8 * n - 1)" using assms(5) len by simp
    show "unat pn < unat expected + 2 ^ (8 * n - 1)"
      using near assms(4) by (simp add: word_le_nat_alt)
  qed
qed

theorem packet_number_roundtrip_witness:
  "decodePacketNumber 0x5c02 2 0xac0000 = 0xac5c02"
proof -
  have "findLastSet 0xE3DC = 16"
  proof (rule findLastSet_bits [of "0xE3DC"])
    fix k assume k: "findLastSet 0xE3DC = of_nat (Suc k)" "2 ^ k \<le> unat (0xE3DC :: u64)"
      "unat (0xE3DC :: u64) < 2 ^ Suc k"
    have "k < 16" using k(2) power_less_imp_less_exp [of "2 :: nat" k 16] by simp
    moreover have "15 < Suc k" using k(3) power_less_imp_less_exp [of "2 :: nat" 15 "Suc k"] by simp
    ultimately have "k = 15" by simp
    then show ?thesis using k(1) by simp
  qed simp
  then have "encodePacketNumber 0xac5c02 0xabea14 = Inr \<lparr>enc_result = 0x5c02, enc_length = 2\<rparr>"
    by (simp add: encodePacketNumber_def Let_def)
  from packet_number_roundtrip [OF this, of "0xac0000"] show ?thesis by simp
qed

text \<open>C27: The encoder uses one to four bytes, the fewest that hold twice the distance
  to the largest acknowledged packet, and throws exactly when that distance needs more
  than four.\<close>

theorem encodePacketNumber_minimal:
  assumes "la \<le> pn" and "unat pn - unat la < 2 ^ 62"
  shows "case encodePacketNumber pn la of
     Inl e \<Rightarrow> e = runtime_error \<and> 2 ^ 32 \<le> 2 * (unat pn - unat la)
   | Inr r \<Rightarrow> 1 \<le> unat (enc_length r) \<and> unat (enc_length r) \<le> 4
       \<and> 2 * (unat pn - unat la) < 2 ^ (8 * unat (enc_length r))
       \<and> (\<forall>m \<in> {1..<unat (enc_length r)}. 2 ^ (8 * m) \<le> 2 * (unat pn - unat la))
       \<and> unat (enc_result r) = unat pn mod 2 ^ (8 * unat (enc_length r))"
proof (cases rule: encode_cases [of pn la])
  case fail
  then show ?thesis unfolding twice_distance [OF assms] by simp
next
  case (ok n)
  have "unat (of_nat n :: u32) = n" using ok(2) by auto
  moreover have "1 \<le> n \<and> n \<le> 4" using ok(2) by auto
  ultimately show ?thesis
    using ok(1) ok(3,4) [unfolded twice_distance [OF assms]] by (simp add: unat_take_bit_mod)
qed

theorem encodePacketNumber_minimal_witness:
  "2 ^ 32 \<le> 2 * (unat (0x90000000 :: u64) - unat (5 :: u64))
     \<and> encodePacketNumber 0x90000000 5 = Inl runtime_error"
proof -
  have p: "(2 :: nat) ^ (8 * n) \<le> 2 ^ 32" if "n \<le> 4" for n
    using that by (intro power_increasing) auto
  have "\<not> 4831838198 < (2 :: nat) ^ (8 * n)" if "n \<le> 4" for n
    using p [OF that] by simp
  then show ?thesis
    using encodePacketNumber_minimal [of 5 "0x90000000"]
    by (auto split: sum.splits)
qed

end
