(* ===== verification/Interval_Set.thy ===== *)
theory Interval_Set
  imports Quic_Types
begin

text \<open>
  Sets of disjoint intervals, \<^verbatim>\<open>common/IntervalSet.h\<close> and
  \<^verbatim>\<open>common/IntervalSet-inl.h\<close>, at the type the transport uses them with
  (\<^verbatim>\<open>uint64_t\<close> bounds, unit 1, a \<^verbatim>\<open>std::deque\<close> of intervals). Iterators
  are positions in the list. The operations refine union and difference of sets of
  numbers, and the representation is canonical.
\<close>

section \<open>Data\<close>

record Interval =
  iv_start :: u64
  iv_end :: u64

definition Interval_make :: "u64 \<Rightarrow> u64 \<Rightarrow> Interval result" where
  "Interval_make s e =
     (if s > e then Inl invalid_argument
      else if e > u64_max - 1 then Inl invalid_argument
      else Inr \<lparr>iv_start = s, iv_end = e\<rparr>)"

record IntervalSet =
  is_items :: "Interval list"
  is_insertVersion :: u64

definition IntervalSet_empty :: IntervalSet where
  "IntervalSet_empty = \<lparr>is_items = [], is_insertVersion = 0\<rparr>"

section \<open>Operations\<close>

text \<open>\<^verbatim>\<open>std::lower_bound\<close>: the binary search of the standard library over positions.\<close>

fun lower_bound_loop :: "('a \<Rightarrow> bool) \<Rightarrow> 'a list \<Rightarrow> nat \<Rightarrow> nat \<Rightarrow> nat" where
  "lower_bound_loop before xs first count =
     (if count = 0 then first
      else let step = count div 2; it = first + step
           in if before (xs ! it) then lower_bound_loop before xs (it + 1) (count - (step + 1))
              else lower_bound_loop before xs first step)"

declare lower_bound_loop.simps [simp del]

definition lower_bound :: "('a \<Rightarrow> bool) \<Rightarrow> 'a list \<Rightarrow> nat" where
  "lower_bound before xs = lower_bound_loop before xs 0 (length xs)"

text \<open>The walk of \<^verbatim>\<open>endIt\<close> over the elements from \<^verbatim>\<open>firstIt\<close> on.\<close>

fun walk_end :: "u64 \<Rightarrow> Interval list \<Rightarrow> nat \<Rightarrow> nat" where
  "walk_end bound [] endIt = endIt"
| "walk_end bound (x # xs) endIt =
     (if iv_start x \<le> bound then walk_end bound xs (endIt + 1) else endIt)"

definition intersectingRange :: "Interval list \<Rightarrow> Interval \<Rightarrow> nat \<times> nat" where
  "intersectingRange items interval =
     (let firstIt = lower_bound (\<lambda>a. iv_end a + 1 < iv_start interval) items
      in (firstIt, walk_end (iv_end interval + 1) (drop firstIt items) firstIt))"

text \<open>The container's positional insertion and range erasure.\<close>

definition insert_at :: "nat \<Rightarrow> 'a \<Rightarrow> 'a list \<Rightarrow> 'a list" where
  "insert_at i x xs = take i xs @ x # drop i xs"

definition erase_range :: "nat \<Rightarrow> nat \<Rightarrow> 'a list \<Rightarrow> 'a list" where
  "erase_range i j xs = take i xs @ drop j xs"

definition is_insert :: "IntervalSet \<Rightarrow> Interval \<Rightarrow> IntervalSet" where
  "is_insert s interval =
     (let items = is_items s; (firstIt, endIt) = intersectingRange items interval
      in if firstIt = endIt
         then s\<lparr>is_items := insert_at firstIt interval items,
                is_insertVersion := is_insertVersion s + 1\<rparr>
         else let first = items ! firstIt;
                  originalDifference = iv_end first - iv_start first;
                  last = items ! (endIt - 1);
                  merged = \<lparr>iv_start = min (iv_start interval) (iv_start first),
                            iv_end = max (iv_end interval) (iv_end last)\<rparr>;
                  newDifference = iv_end merged - iv_start merged
              in s\<lparr>is_items := erase_range (firstIt + 1) endIt (items[firstIt := merged]),
                   is_insertVersion :=
                     (if newDifference > originalDifference then is_insertVersion s + 1
                      else is_insertVersion s)\<rparr>)"

definition is_insert_range :: "IntervalSet \<Rightarrow> u64 \<Rightarrow> u64 \<Rightarrow> IntervalSet result" where
  "is_insert_range s startIt endIt =
     (if startIt > endIt then Inl invalid_argument
      else and_then (Interval_make startIt endIt) (\<lambda>iv. Inr (is_insert s iv)))"

definition is_insert_point :: "IntervalSet \<Rightarrow> u64 \<Rightarrow> IntervalSet result" where
  "is_insert_point s point =
     and_then (Interval_make point point) (\<lambda>iv. Inr (is_insert s iv))"

primrec IntervalSet_of_list :: "Interval list \<Rightarrow> IntervalSet \<Rightarrow> IntervalSet" where
  "IntervalSet_of_list [] s = s"
| "IntervalSet_of_list (iv # ivs) s = IntervalSet_of_list ivs (is_insert s iv)"

definition is_withdraw :: "IntervalSet \<Rightarrow> Interval \<Rightarrow> IntervalSet result" where
  "is_withdraw s interval =
     (let items = is_items s; (first, end') = intersectingRange items interval
      in if first = end' then Inr s
         else let last = end' - 1;
                  keepFirst = iv_start (items ! first) + 1 \<le> iv_start interval
              in if last = first \<and> keepFirst \<and> iv_end (items ! last) \<ge> iv_end interval + 1
                 then and_then (Interval_make (iv_start (items ! first)) (iv_start interval - 1))
                        (\<lambda>toSplit.
                           Inr (s\<lparr>is_items := insert_at last toSplit
                                 (items[last := (items ! last)\<lparr>iv_start := iv_end interval + 1\<rparr>])\<rparr>))
                 else let (erasureStart, items1) =
                            (if keepFirst
                             then (first + 1,
                                   items[first := (items ! first)\<lparr>iv_end := iv_start interval - 1\<rparr>])
                             else (first, items));
                          (erasureEnd, items2) =
                            (if iv_end (items1 ! last) \<ge> iv_end interval + 1
                             then (last,
                                   items1[last := (items1 ! last)\<lparr>iv_start := iv_end interval + 1\<rparr>])
                             else (end', items1))
                      in Inr (s\<lparr>is_items := erase_range erasureStart erasureEnd items2\<rparr>))"

fun contains_walk :: "Interval list \<Rightarrow> u64 \<Rightarrow> u64 \<Rightarrow> bool" where
  "contains_walk [] start end' = False"
| "contains_walk (itr # rest) start end' =
     (if start \<ge> iv_start itr \<and> end' \<le> iv_end itr then True
      else if start < iv_end itr then False
      else contains_walk rest start end')"

definition is_contains :: "IntervalSet \<Rightarrow> u64 \<Rightarrow> u64 \<Rightarrow> bool" where
  "is_contains s start end' = contains_walk (is_items s) start end'"

section \<open>Invariant and abstraction\<close>

definition iv_lo :: "Interval \<Rightarrow> nat" where "iv_lo iv = unat (iv_start iv)"

definition iv_hi :: "Interval \<Rightarrow> nat" where "iv_hi iv = unat (iv_end iv)"

definition iv_valid :: "Interval \<Rightarrow> bool" where
  "iv_valid iv \<longleftrightarrow> iv_lo iv \<le> iv_hi iv \<and> iv_hi iv < unat u64_max"

definition iv_set :: "Interval \<Rightarrow> nat set" where "iv_set iv = {iv_lo iv .. iv_hi iv}"

definition items_set :: "Interval list \<Rightarrow> nat set" where
  "items_set items = (\<Union>iv \<in> set items. iv_set iv)"

definition is_set :: "IntervalSet \<Rightarrow> nat set" where "is_set s = items_set (is_items s)"

text \<open>Neighbours are neither overlapping nor adjacent.\<close>

definition items_inv :: "Interval list \<Rightarrow> bool" where
  "items_inv items \<longleftrightarrow>
     sorted_wrt (\<lambda>a b. iv_hi a + 1 < iv_lo b) items \<and> (\<forall>iv \<in> set items. iv_valid iv)"

definition is_inv :: "IntervalSet \<Rightarrow> bool" where "is_inv s \<longleftrightarrow> items_inv (is_items s)"

section \<open>The search\<close>

lemma lower_bound_loop_partition:
  assumes "first + count \<le> length xs" and "k \<le> length xs"
    and "\<And>i. i < k \<Longrightarrow> before (xs ! i)" and "\<And>i. k \<le> i \<Longrightarrow> i < length xs \<Longrightarrow> \<not> before (xs ! i)"
    and "first \<le> k" and "k \<le> first + count"
  shows "lower_bound_loop before xs first count = k"
  using assms
proof (induction before xs first count rule: lower_bound_loop.induct)
  case (1 before xs first count)
  show ?case
  proof (cases "count = 0")
    case True
    with 1(7,8) show ?thesis by (simp add: lower_bound_loop.simps)
  next
    case False
    let ?it = "first + count div 2"
    have it: "?it < length xs" using 1(3) False by simp
    show ?thesis
    proof (cases "before (xs ! ?it)")
      case True
      then have "?it < k" using 1(6) [of ?it] it by (meson leI)
      then show ?thesis
        using 1(1) [OF False refl refl True] 1(3-8) False True
        by (simp add: lower_bound_loop.simps [of before xs first count] Let_def)
    next
      case f: False
      then have "k \<le> ?it" using 1(5) [of ?it] by (meson not_le)
      then show ?thesis
        using 1(2) [OF False refl refl f] 1(3-8) False f
        by (simp add: lower_bound_loop.simps [of before xs first count] Let_def)
    qed
  qed
qed

lemma lower_bound_partition:
  assumes "xs = ys @ zs" and "\<forall>y \<in> set ys. before y" and "\<forall>z \<in> set zs. \<not> before z"
  shows "lower_bound before xs = length ys"
  unfolding lower_bound_def
  by (rule lower_bound_loop_partition) (use assms in \<open>auto simp: nth_append\<close>)

lemma walk_end_takeWhile:
  "walk_end bound xs e = e + length (takeWhile (\<lambda>x. iv_start x \<le> bound) xs)"
  by (induction xs arbitrary: e) auto

lemma unat_succ_end: "iv_valid iv \<Longrightarrow> unat (iv_end iv + 1) = iv_hi iv + 1"
  by (simp add: iv_valid_def iv_hi_def unat_add_no_wrap unat_simps)

lemma unat_succ_start: "iv_valid iv \<Longrightarrow> unat (iv_start iv + 1) = iv_lo iv + 1"
  by (simp add: iv_valid_def iv_hi_def iv_lo_def unat_add_no_wrap unat_simps)

text \<open>Around an interval the container falls into three parts: what lies strictly before,
  what touches or overlaps, and what lies strictly behind.\<close>

lemma range_split:
  assumes "items_inv items" and "iv_valid iv"
  obtains as bs cs where "items = as @ bs @ cs"
    and "intersectingRange items iv = (length as, length as + length bs)"
    and "\<forall>a \<in> set as. iv_hi a + 1 < iv_lo iv"
    and "\<forall>b \<in> set bs. iv_lo iv \<le> iv_hi b + 1 \<and> iv_lo b \<le> iv_hi iv + 1"
    and "\<forall>c \<in> set cs. iv_hi iv + 1 < iv_lo c"
proof -
  let ?before = "\<lambda>a. iv_end a + 1 < iv_start iv" and ?touch = "\<lambda>x. iv_start x \<le> iv_end iv + 1"
  define as where "as = takeWhile ?before items"
  define rest where "rest = dropWhile ?before items"
  define bs where "bs = takeWhile ?touch rest"
  define cs where "cs = dropWhile ?touch rest"
  have split: "items = as @ rest" "rest = bs @ cs" by (simp_all add: as_def rest_def bs_def cs_def)
  have before: "?before a \<longleftrightarrow> iv_hi a + 1 < iv_lo iv" if "a \<in> set items" for a
    using assms(1) that by (auto simp: items_inv_def word_less_nat_alt unat_succ_end iv_lo_def)
  have touch: "?touch a \<longleftrightarrow> iv_lo a \<le> iv_hi iv + 1" for a
    using assms(2) by (simp add: word_le_nat_alt unat_succ_end iv_lo_def)
  have sorted: "sorted_wrt (\<lambda>a b. iv_hi a + 1 < iv_lo b) rest" "\<forall>x \<in> set rest. iv_valid x"
    using assms(1) split(1) by (auto simp: items_inv_def sorted_wrt_append)
  have rest: "\<forall>r \<in> set rest. \<not> ?before r"
  proof (cases rest)
    case (Cons r rs)
    then have "\<not> ?before r" unfolding rest_def by (metis hd_dropWhile list.distinct(1) list.sel(1))
    then have r: "iv_lo iv \<le> iv_hi r + 1" using before [of r] Cons split(1) by simp
    have "x = r \<or> iv_hi r + 1 < iv_lo x \<and> iv_lo x \<le> iv_hi x" if "x \<in> set rest" for x
      using that sorted Cons by (auto simp: iv_valid_def)
    with r have "iv_lo iv \<le> iv_hi x + 1" if "x \<in> set rest" for x
      using that by fastforce
    then show ?thesis using before split(1) by (simp add: not_less)
  qed simp
  have cs: "\<forall>c \<in> set cs. iv_hi iv + 1 < iv_lo c"
  proof (cases cs)
    case (Cons r rs)
    then have "\<not> ?touch r" unfolding cs_def by (metis hd_dropWhile list.distinct(1) list.sel(1))
    moreover have "sorted_wrt (\<lambda>a b. iv_hi a + 1 < iv_lo b) cs" "iv_valid r"
      using sorted split(2) Cons by (auto simp: sorted_wrt_append)
    ultimately show ?thesis using Cons touch by (auto simp: iv_valid_def)
  qed simp
  have as: "\<forall>a \<in> set as. ?before a" by (auto simp: as_def dest: set_takeWhileD)
  have first: "lower_bound ?before items = length as"
    using lower_bound_partition [OF split(1)] as rest by blast
  have "intersectingRange items iv = (length as, length as + length bs)"
    unfolding intersectingRange_def Let_def first walk_end_takeWhile
    using split(1) by (simp add: bs_def)
  moreover have "\<forall>a \<in> set as. iv_hi a + 1 < iv_lo iv"
    using as before split(1) by simp
  moreover have "iv_lo iv \<le> iv_hi b + 1 \<and> iv_lo b \<le> iv_hi iv + 1" if "b \<in> set bs" for b
  proof -
    have "b \<in> set rest" "?touch b" using that by (auto simp: bs_def dest: set_takeWhileD)
    then show ?thesis using rest before [of b] touch split(1) by simp
  qed
  ultimately show thesis using that split cs by blast
qed

lemma items_set_append [simp]: "items_set (xs @ ys) = items_set xs \<union> items_set ys"
  by (simp add: items_set_def)

lemma items_set_Cons [simp]: "items_set (x # xs) = iv_set x \<union> items_set xs"
  by (simp add: items_set_def)

lemma items_set_Nil [simp]: "items_set [] = {}"
  by (simp add: items_set_def)

lemma items_inv_Nil [simp]: "items_inv []"
  by (simp add: items_inv_def)

lemma items_inv_Cons [simp]:
  "items_inv (x # xs) \<longleftrightarrow> iv_valid x \<and> (\<forall>y \<in> set xs. iv_hi x + 1 < iv_lo y) \<and> items_inv xs"
  by (auto simp: items_inv_def)

lemma items_inv_append [simp]:
  "items_inv (xs @ ys) \<longleftrightarrow>
     items_inv xs \<and> items_inv ys \<and> (\<forall>x \<in> set xs. \<forall>y \<in> set ys. iv_hi x + 1 < iv_lo y)"
  by (auto simp: items_inv_def sorted_wrt_append)

lemma items_apart:
  assumes "items_inv items" and "b \<in> set items" and "c \<in> set items"
  shows "b = c \<or> iv_hi b + 1 < iv_lo c \<or> iv_hi c + 1 < iv_lo b"
  using assms by (induction items) auto

text \<open>A range of numbers inside the set lies inside one interval.\<close>

lemma covered_by_one:
  assumes "items_inv items" and "lo \<le> hi" and "{lo..hi} \<subseteq> items_set items"
  obtains b where "b \<in> set items" and "iv_lo b \<le> lo" and "hi \<le> iv_hi b"
proof -
  have "lo \<in> items_set items" using assms(2,3) by auto
  then obtain b where b: "b \<in> set items" "iv_lo b \<le> lo" "lo \<le> iv_hi b"
    by (auto simp: items_set_def iv_set_def)
  have "hi \<le> iv_hi b"
  proof (rule ccontr)
    assume "\<not> hi \<le> iv_hi b"
    then have "iv_hi b + 1 \<in> items_set items" using b assms(3) by auto
    then obtain c where "c \<in> set items" "iv_lo c \<le> iv_hi b + 1" "iv_hi b + 1 \<le> iv_hi c"
      by (auto simp: items_set_def iv_set_def)
    then show False using items_apart [OF assms(1) b(1)] b by fastforce
  qed
  with b that show thesis by blast
qed

section \<open>Insertion\<close>

text \<open>The intervals that touch \<open>iv\<close> merge with it into one.\<close>

definition iv_merge :: "Interval \<Rightarrow> Interval list \<Rightarrow> Interval" where
  "iv_merge iv bs = \<lparr>iv_start = min (iv_start iv) (iv_start (hd bs)),
                      iv_end = max (iv_end iv) (iv_end (last bs))\<rparr>"

lemma iv_lo_merge: "iv_lo (iv_merge iv bs) = min (iv_lo iv) (iv_lo (hd bs))"
  by (simp add: iv_lo_def iv_merge_def unat_min_u64)

lemma iv_hi_merge: "iv_hi (iv_merge iv bs) = max (iv_hi iv) (iv_hi (last bs))"
  by (simp add: iv_hi_def iv_merge_def unat_max_u64)

lemma merge_bounds:
  assumes "items_inv bs" and "b \<in> set bs"
  shows "iv_lo (hd bs) \<le> iv_lo b" and "iv_hi b \<le> iv_hi (last bs)"
proof -
  have "bs \<noteq> []" using assms(2) by auto
  then show "iv_lo (hd bs) \<le> iv_lo b"
    using assms by (cases bs) (auto simp: iv_valid_def intro: order_trans less_imp_le)
  obtain cs c where "bs = cs @ [c]" using \<open>bs \<noteq> []\<close> by (metis append_butlast_last_id)
  then show "iv_hi b \<le> iv_hi (last bs)"
    using assms by (auto simp: iv_valid_def)
qed

lemma iv_merge_set:
  assumes "bs \<noteq> []" and "items_inv bs" and "iv_valid iv"
    and "\<forall>b \<in> set bs. iv_lo iv \<le> iv_hi b + 1 \<and> iv_lo b \<le> iv_hi iv + 1"
  shows "iv_set (iv_merge iv bs) = iv_set iv \<union> items_set bs"
proof
  have h: "hd bs \<in> set bs" "last bs \<in> set bs" using assms(1) by auto
  have "x \<in> iv_set iv \<union> (iv_set (hd bs) \<union> iv_set (last bs))" if "x \<in> iv_set (iv_merge iv bs)" for x
  proof -
    have x: "min (iv_lo iv) (iv_lo (hd bs)) \<le> x" "x \<le> max (iv_hi iv) (iv_hi (last bs))"
      using that by (simp_all add: iv_set_def iv_lo_merge iv_hi_merge)
    have t: "iv_lo iv \<le> iv_hi (hd bs) + 1" "iv_lo (last bs) \<le> iv_hi iv + 1"
      using assms(4) h by auto
    consider "x < iv_lo iv" | "iv_lo iv \<le> x" "x \<le> iv_hi iv" | "iv_hi iv < x" by linarith
    then show ?thesis using x t by cases (auto simp: iv_set_def)
  qed
  with h show "iv_set (iv_merge iv bs) \<subseteq> iv_set iv \<union> items_set bs"
    by (auto simp: items_set_def)
  show "iv_set iv \<union> items_set bs \<subseteq> iv_set (iv_merge iv bs)"
  proof -
    have "iv_set b \<subseteq> iv_set (iv_merge iv bs)" if "b \<in> set bs" for b
      using merge_bounds [OF assms(2) that] by (auto simp: iv_set_def iv_lo_merge iv_hi_merge)
    moreover have "iv_set iv \<subseteq> iv_set (iv_merge iv bs)"
      by (auto simp: iv_set_def iv_lo_merge iv_hi_merge)
    ultimately show ?thesis by (auto simp: items_set_def)
  qed
qed

definition iv_size :: "Interval \<Rightarrow> u64" where "iv_size iv = iv_end iv - iv_start iv"

lemma middle_nth:
  assumes "bs \<noteq> []"
  shows "(as @ bs @ cs) ! length as = hd bs"
    and "(as @ bs @ cs) ! (length as + length bs - 1) = last bs"
    and "erase_range (length as + 1) (length as + length bs) ((as @ bs @ cs)[length as := x]) = as @ x # cs"
proof -
  obtain b bt where bs: "bs = b # bt" using assms by (cases bs) auto
  then show "(as @ bs @ cs) ! length as = hd bs"
    "erase_range (length as + 1) (length as + length bs) ((as @ bs @ cs)[length as := x]) = as @ x # cs"
    by (simp_all add: erase_range_def list_update_append)
  show "(as @ bs @ cs) ! (length as + length bs - 1) = last bs"
    using assms by (simp add: nth_append last_conv_nth bs)
qed

lemma is_insert_split:
  assumes "items_inv (is_items s)" and "iv_valid iv"
  obtains as bs cs where "is_items s = as @ bs @ cs"
    and "\<forall>a \<in> set as. iv_hi a + 1 < iv_lo iv"
    and "\<forall>b \<in> set bs. iv_lo iv \<le> iv_hi b + 1 \<and> iv_lo b \<le> iv_hi iv + 1"
    and "\<forall>c \<in> set cs. iv_hi iv + 1 < iv_lo c"
    and "is_items (is_insert s iv) = as @ (if bs = [] then iv else iv_merge iv bs) # cs"
    and "is_insertVersion (is_insert s iv) =
           (if bs = [] \<or> iv_size (iv_merge iv bs) > iv_size (hd bs)
            then is_insertVersion s + 1 else is_insertVersion s)"
proof -
  obtain as bs cs where sp: "is_items s = as @ bs @ cs"
    "intersectingRange (is_items s) iv = (length as, length as + length bs)"
    "\<forall>a \<in> set as. iv_hi a + 1 < iv_lo iv"
    "\<forall>b \<in> set bs. iv_lo iv \<le> iv_hi b + 1 \<and> iv_lo b \<le> iv_hi iv + 1"
    "\<forall>c \<in> set cs. iv_hi iv + 1 < iv_lo c"
    using range_split [OF assms] by blast
  have range: "intersectingRange (as @ bs @ cs) iv = (length as, length as + length bs)"
    using sp(1,2) by simp
  have "is_items (is_insert s iv) = as @ (if bs = [] then iv else iv_merge iv bs) # cs \<and>
    is_insertVersion (is_insert s iv) =
      (if bs = [] \<or> iv_size (iv_merge iv bs) > iv_size (hd bs)
       then is_insertVersion s + 1 else is_insertVersion s)"
  proof (cases "bs = []")
    case True
    then show ?thesis using range by (simp add: is_insert_def sp(1) insert_at_def)
  next
    case False
    then show ?thesis
      unfolding is_insert_def Let_def sp(1) range
      by (simp only: prod.case middle_nth [OF False]) (simp add: iv_merge_def iv_size_def)
  qed
  with that [OF sp(1,3-5)] show thesis by blast
qed

lemma iv_merge_valid:
  assumes "bs \<noteq> []" and "items_inv bs" and "iv_valid iv"
  shows "iv_valid (iv_merge iv bs)"
proof -
  have "last bs \<in> set bs" using assms(1) by simp
  then have "iv_valid (last bs)" using assms(2) by (auto simp: items_inv_def)
  then show ?thesis
    using assms(3) by (auto simp: iv_valid_def iv_lo_merge iv_hi_merge)
qed

lemma is_insert_correct:
  assumes "is_inv s" and "iv_valid iv"
  shows "is_inv (is_insert s iv) \<and> is_set (is_insert s iv) = is_set s \<union> iv_set iv"
proof -
  have inv: "items_inv (is_items s)" using assms(1) by (simp add: is_inv_def)
  obtain as bs cs where sp:
    "is_items s = as @ bs @ cs" "\<forall>a \<in> set as. iv_hi a + 1 < iv_lo iv"
    "\<forall>b \<in> set bs. iv_lo iv \<le> iv_hi b + 1 \<and> iv_lo b \<le> iv_hi iv + 1"
    "\<forall>c \<in> set cs. iv_hi iv + 1 < iv_lo c"
    "is_items (is_insert s iv) = as @ (if bs = [] then iv else iv_merge iv bs) # cs"
    "is_insertVersion (is_insert s iv) =
       (if bs = [] \<or> iv_size (iv_merge iv bs) > iv_size (hd bs)
        then is_insertVersion s + 1 else is_insertVersion s)"
    by (rule is_insert_split [OF inv assms(2)])
  have parts: "items_inv as" "items_inv bs" "items_inv cs"
    "\<forall>a \<in> set as. \<forall>b \<in> set bs. iv_hi a + 1 < iv_lo b" "\<forall>b \<in> set bs. \<forall>c \<in> set cs. iv_hi b + 1 < iv_lo c"
    "\<forall>a \<in> set as. \<forall>c \<in> set cs. iv_hi a + 1 < iv_lo c"
    using inv sp(1) by auto
  show ?thesis
  proof (cases "bs = []")
    case True
    with sp parts assms(2) show ?thesis by (auto simp: is_inv_def is_set_def)
  next
    case False
    then have h: "hd bs \<in> set bs" "last bs \<in> set bs" by auto
    have "items_inv (as @ iv_merge iv bs # cs)"
      using parts sp(2,4) h iv_merge_valid [OF False parts(2) assms(2)]
      by (auto simp: iv_lo_merge iv_hi_merge max_def)
    moreover have "items_set (as @ iv_merge iv bs # cs) = is_set s \<union> iv_set iv"
      using iv_merge_set [OF False parts(2) assms(2) sp(3)] by (auto simp: is_set_def sp(1))
    ultimately show ?thesis using False sp(5) by (simp add: is_inv_def is_set_def)
  qed
qed

lemma unat_iv_size: "iv_valid iv \<Longrightarrow> unat (iv_size iv) = iv_hi iv - iv_lo iv"
  by (simp add: iv_size_def iv_valid_def iv_hi_def iv_lo_def unat_sub_no_wrap)

lemma is_insert_version:
  assumes "is_inv s" and "iv_valid iv"
  shows "is_insertVersion (is_insert s iv) =
           (if iv_set iv \<subseteq> is_set s then is_insertVersion s else is_insertVersion s + 1)"
proof -
  have inv: "items_inv (is_items s)" using assms(1) by (simp add: is_inv_def)
  obtain as bs cs where sp:
    "is_items s = as @ bs @ cs" "\<forall>a \<in> set as. iv_hi a + 1 < iv_lo iv"
    "\<forall>b \<in> set bs. iv_lo iv \<le> iv_hi b + 1 \<and> iv_lo b \<le> iv_hi iv + 1"
    "\<forall>c \<in> set cs. iv_hi iv + 1 < iv_lo c"
    "is_items (is_insert s iv) = as @ (if bs = [] then iv else iv_merge iv bs) # cs"
    "is_insertVersion (is_insert s iv) =
       (if bs = [] \<or> iv_size (iv_merge iv bs) > iv_size (hd bs)
        then is_insertVersion s + 1 else is_insertVersion s)"
    by (rule is_insert_split [OF inv assms(2)])
  have bs: "items_inv bs" using inv sp(1) by simp
  have outside: "x \<notin> items_set as" "x \<notin> items_set cs" if "x \<in> iv_set iv" for x
    using that sp(2,4) by (fastforce simp: items_set_def iv_set_def)+
  have sub: "iv_set iv \<subseteq> is_set s \<longleftrightarrow> iv_set iv \<subseteq> items_set bs"
    using outside by (auto simp: is_set_def sp(1))
  show ?thesis
  proof (cases bs)
    case Nil
    then show ?thesis using sub sp(6) assms(2) by (auto simp: iv_set_def iv_valid_def)
  next
    case (Cons b bt)
    have v: "iv_valid b" "iv_valid (iv_merge iv bs)"
      using bs Cons iv_merge_valid [OF _ bs assms(2)] by auto
    have "iv_size (iv_merge iv bs) > iv_size b \<longleftrightarrow>
        iv_hi (iv_merge iv bs) - iv_lo (iv_merge iv bs) > iv_hi b - iv_lo b"
      by (simp add: word_less_nat_alt unat_iv_size v)
    also have "\<dots> \<longleftrightarrow> \<not> iv_set (iv_merge iv bs) \<subseteq> iv_set b"
    proof -
      have "iv_lo (iv_merge iv bs) \<le> iv_lo b" "iv_hi b \<le> iv_hi (iv_merge iv bs)"
        using merge_bounds [OF bs, of b] Cons by (auto simp: iv_lo_merge iv_hi_merge)
      with v show ?thesis by (auto simp: iv_set_def iv_valid_def)
    qed
    also have "iv_set (iv_merge iv bs) \<subseteq> iv_set b \<longleftrightarrow> iv_set iv \<subseteq> items_set bs"
    proof
      assume "iv_set (iv_merge iv bs) \<subseteq> iv_set b"
      then show "iv_set iv \<subseteq> items_set bs"
        using iv_merge_set [OF _ bs assms(2) sp(3)] Cons by auto
    next
      assume "iv_set iv \<subseteq> items_set bs"
      then obtain d where d: "d \<in> set bs" "iv_lo d \<le> iv_lo iv" "iv_hi iv \<le> iv_hi d"
        using covered_by_one [OF bs, of "iv_lo iv" "iv_hi iv"] assms(2)
        by (auto simp: iv_set_def iv_valid_def)
      have "c = d" if "c \<in> set bs" for c
        using items_apart [OF bs that d(1)] sp(3) that d by fastforce
      then have "set bs = {b}" using Cons d(1) by auto
      then show "iv_set (iv_merge iv bs) \<subseteq> iv_set b"
        using iv_merge_set [OF _ bs assms(2) sp(3)] d Cons by (auto simp: items_set_def iv_set_def)
    qed
    finally show ?thesis using sp(6) sub Cons by simp
  qed
qed

section \<open>Withdrawal\<close>

text \<open>What is left of the intervals that touch \<open>iv\<close>: a piece below and a piece above.\<close>

definition iv_below :: "Interval \<Rightarrow> Interval \<Rightarrow> Interval list" where
  "iv_below iv b = (if iv_lo b + 1 \<le> iv_lo iv then [b\<lparr>iv_end := iv_start iv - 1\<rparr>] else [])"

definition iv_above :: "Interval \<Rightarrow> Interval \<Rightarrow> Interval list" where
  "iv_above iv b = (if iv_hi iv + 1 \<le> iv_hi b then [b\<lparr>iv_start := iv_end iv + 1\<rparr>] else [])"

lemma iv_below_bounds:
  assumes "x \<in> set (iv_below iv b)"
  shows "iv_lo x = iv_lo b" and "iv_hi x + 1 = iv_lo iv" and "iv_lo b < iv_lo iv"
  using assms by (auto simp: iv_below_def iv_lo_def iv_hi_def unat_sub_no_wrap split: if_splits)

lemma iv_above_bounds:
  assumes "x \<in> set (iv_above iv b)" and "iv_valid iv"
  shows "iv_hi x = iv_hi b" and "iv_lo x = iv_hi iv + 1" and "iv_hi iv < iv_hi b"
  using assms unat_succ_end [OF assms(2)]
  by (auto simp: iv_above_def iv_lo_def iv_hi_def split: if_splits)

lemma iv_below_set:
  "items_set (iv_below iv b) = (if iv_lo b < iv_lo iv then {iv_lo b ..< iv_lo iv} else {})"
  by (auto simp: iv_below_def iv_set_def iv_lo_def iv_hi_def unat_sub_no_wrap)

lemma iv_above_set:
  "iv_valid iv \<Longrightarrow> items_set (iv_above iv b) = (if iv_hi iv < iv_hi b then {iv_hi iv <.. iv_hi b} else {})"
  using unat_succ_end [of iv] by (auto simp: iv_above_def iv_set_def iv_lo_def iv_hi_def)

lemma is_withdraw_one:
  assumes "is_items s = as @ b # cs" and "intersectingRange (is_items s) iv = (length as, length as + 1)"
    and "iv_valid iv" and "iv_valid b"
  shows "is_withdraw s iv = Inr (s\<lparr>is_items := as @ iv_below iv b @ iv_above iv b @ cs\<rparr>)"
proof -
  have kf: "iv_start b + 1 \<le> iv_start iv \<longleftrightarrow> iv_lo b + 1 \<le> iv_lo iv"
    by (simp add: word_le_nat_alt unat_succ_start [OF assms(4)] iv_lo_def)
  have kl: "iv_end iv + 1 \<le> w \<longleftrightarrow> iv_hi iv + 1 \<le> unat w" for w
    by (simp add: word_le_nat_alt unat_succ_end [OF assms(3)])
  have mk: "Interval_make (iv_start b) (iv_start iv - 1) = Inr (b\<lparr>iv_end := iv_start iv - 1\<rparr>)"
    if "iv_lo b + 1 \<le> iv_lo iv"
  proof -
    have "unat (iv_start iv - 1) = iv_lo iv - 1" using that by (simp add: iv_lo_def unat_sub_no_wrap)
    then show ?thesis
      using that assms(3) by (auto simp: Interval_make_def word_less_nat_alt iv_valid_def iv_lo_def iv_hi_def)
  qed
  have low: "iv_lo b + 1 \<le> iv_lo iv \<Longrightarrow> \<not> iv_hi iv + 1 \<le> unat (iv_start iv - 1)"
    using assms(3) by (auto simp: iv_lo_def iv_hi_def iv_valid_def unat_sub_no_wrap)
  show ?thesis
    unfolding is_withdraw_def Let_def assms(2)
    using low kf
    by (auto simp: assms(1) kl mk iv_below_def iv_above_def iv_hi_def insert_at_def erase_range_def
        list_update_append)
qed

lemma is_withdraw_many:
  assumes "is_items s = as @ b # bt @ d # cs"
    and "intersectingRange (is_items s) iv = (length as, length as + length bt + 2)"
    and "iv_valid iv" and "iv_valid b"
  shows "is_withdraw s iv = Inr (s\<lparr>is_items := as @ iv_below iv b @ iv_above iv d @ cs\<rparr>)"
proof -
  have kf: "iv_start b + 1 \<le> iv_start iv \<longleftrightarrow> iv_lo b + 1 \<le> iv_lo iv"
    by (simp add: word_le_nat_alt unat_succ_start [OF assms(4)] iv_lo_def)
  have kl: "iv_end iv + 1 \<le> w \<longleftrightarrow> iv_hi iv + 1 \<le> unat w" for w
    by (simp add: word_le_nat_alt unat_succ_end [OF assms(3)])
  have nths: "(as @ x # bt @ d # cs) ! Suc (length as + length bt) = d" for x
    by (simp add: nth_append)
  have upds: "(as @ x # bt @ d # cs)[Suc (length as + length bt) := y] = as @ x # bt @ y # cs"
     "(as @ x # bt @ d # cs)[length as := y] = as @ y # bt @ d # cs" for x y
    by (simp_all add: list_update_append)
  show ?thesis
    unfolding is_withdraw_def Let_def assms(2)
    by (auto simp: assms(1) kl kf nths upds iv_below_def iv_above_def iv_hi_def erase_range_def)
qed

lemma is_withdraw_split:
  assumes "items_inv (is_items s)" and "iv_valid iv"
  obtains as bs cs where "is_items s = as @ bs @ cs"
    and "\<forall>a \<in> set as. iv_hi a + 1 < iv_lo iv"
    and "\<forall>b \<in> set bs. iv_lo iv \<le> iv_hi b + 1 \<and> iv_lo b \<le> iv_hi iv + 1"
    and "\<forall>c \<in> set cs. iv_hi iv + 1 < iv_lo c"
    and "is_withdraw s iv = Inr (s\<lparr>is_items :=
           as @ (if bs = [] then [] else iv_below iv (hd bs) @ iv_above iv (last bs)) @ cs\<rparr>)"
proof -
  obtain as bs cs where sp: "is_items s = as @ bs @ cs"
    "intersectingRange (is_items s) iv = (length as, length as + length bs)"
    "\<forall>a \<in> set as. iv_hi a + 1 < iv_lo iv"
    "\<forall>b \<in> set bs. iv_lo iv \<le> iv_hi b + 1 \<and> iv_lo b \<le> iv_hi iv + 1"
    "\<forall>c \<in> set cs. iv_hi iv + 1 < iv_lo c"
    by (rule range_split [OF assms])
  show thesis
  proof (rule that [OF sp(1,3-5)])
    consider "bs = []" | b where "bs = [b]" | b bt d where "bs = b # bt @ [d]"
      by (metis append_butlast_last_id list.exhaust)
    then show "is_withdraw s iv = Inr (s\<lparr>is_items :=
        as @ (if bs = [] then [] else iv_below iv (hd bs) @ iv_above iv (last bs)) @ cs\<rparr>)"
    proof cases
      case 1
      then have "s\<lparr>is_items := as @ cs\<rparr> = s" using sp(1) by simp
      then show ?thesis using 1 sp(2) by (simp add: is_withdraw_def)
    next
      case (2 b)
      then show ?thesis
        using is_withdraw_one [of s as b cs iv] sp(1,2) assms by simp
    next
      case (3 b bt d)
      then show ?thesis
        using is_withdraw_many [of s as b bt d cs iv] sp(1,2) assms by simp
    qed
  qed
qed

lemma withdraw_middle:
  assumes "bs \<noteq> []" and "items_inv bs" and "iv_valid iv"
    and touch: "\<forall>b \<in> set bs. iv_lo iv \<le> iv_hi b + 1 \<and> iv_lo b \<le> iv_hi iv + 1"
  shows "items_inv (iv_below iv (hd bs) @ iv_above iv (last bs))"
    and "items_set (iv_below iv (hd bs) @ iv_above iv (last bs)) = items_set bs - iv_set iv"
    and "\<forall>x \<in> set (iv_below iv (hd bs) @ iv_above iv (last bs)).
           iv_lo (hd bs) \<le> iv_lo x \<and> iv_hi x \<le> iv_hi (last bs)"
proof -
  have h: "hd bs \<in> set bs" "last bs \<in> set bs" using assms(1) by auto
  have v: "iv_valid (hd bs)" "iv_valid (last bs)" using assms(2) h by (auto simp: items_inv_def)
  have t: "iv_lo iv \<le> iv_hi (hd bs) + 1" "iv_lo (last bs) \<le> iv_hi iv + 1" using touch h by auto
  have le: "iv_lo (hd bs) \<le> iv_lo (last bs)" "iv_hi (hd bs) \<le> iv_hi (last bs)"
    using merge_bounds [OF assms(2)] h by auto
  note below = iv_below_bounds [of _ iv "hd bs"] and above = iv_above_bounds [OF _ assms(3), of _ "last bs"]
  have single: "items_inv (iv_below iv b) \<longleftrightarrow> (\<forall>x \<in> set (iv_below iv b). iv_valid x)"
    "items_inv (iv_above iv b) \<longleftrightarrow> (\<forall>x \<in> set (iv_above iv b). iv_valid x)" for b
    by (simp_all add: iv_below_def iv_above_def)
  have "iv_valid x" if "x \<in> set (iv_below iv (hd bs))" for x
    using below [OF that] assms(3) by (simp add: iv_valid_def)
  then have "items_inv (iv_below iv (hd bs))" by (simp add: single)
  moreover have "iv_valid x" if "x \<in> set (iv_above iv (last bs))" for x
    using above [OF that] v(2) by (simp add: iv_valid_def)
  then have "items_inv (iv_above iv (last bs))" by (simp add: single)
  moreover have "iv_hi x + 1 < iv_lo y"
    if "x \<in> set (iv_below iv (hd bs))" "y \<in> set (iv_above iv (last bs))" for x y
    using below [OF that(1)] above [OF that(2)] assms(3) by (auto simp: iv_valid_def)
  ultimately show "items_inv (iv_below iv (hd bs) @ iv_above iv (last bs))" by simp
  show "items_set (iv_below iv (hd bs) @ iv_above iv (last bs)) = items_set bs - iv_set iv"
  proof
    show "items_set (iv_below iv (hd bs) @ iv_above iv (last bs)) \<subseteq> items_set bs - iv_set iv"
    proof
      fix x assume "x \<in> items_set (iv_below iv (hd bs) @ iv_above iv (last bs))"
      then have "x \<in> iv_set (hd bs) - iv_set iv \<or> x \<in> iv_set (last bs) - iv_set iv"
        using t by (auto simp: iv_below_set iv_above_set [OF assms(3)] iv_set_def split: if_splits)
      then show "x \<in> items_set bs - iv_set iv" using h by (auto simp: items_set_def)
    qed
    show "items_set bs - iv_set iv \<subseteq> items_set (iv_below iv (hd bs) @ iv_above iv (last bs))"
    proof
      fix x assume "x \<in> items_set bs - iv_set iv"
      then obtain b where b: "b \<in> set bs" "iv_lo b \<le> x" "x \<le> iv_hi b" "x < iv_lo iv \<or> iv_hi iv < x"
        by (auto simp: items_set_def iv_set_def not_le)
      then show "x \<in> items_set (iv_below iv (hd bs) @ iv_above iv (last bs))"
        using merge_bounds [OF assms(2) b(1)] by (auto simp: iv_below_set iv_above_set [OF assms(3)])
    qed
  qed
  show "\<forall>x \<in> set (iv_below iv (hd bs) @ iv_above iv (last bs)).
      iv_lo (hd bs) \<le> iv_lo x \<and> iv_hi x \<le> iv_hi (last bs)"
  proof
    fix x assume "x \<in> set (iv_below iv (hd bs) @ iv_above iv (last bs))"
    then consider "x \<in> set (iv_below iv (hd bs))" | "x \<in> set (iv_above iv (last bs))" by auto
    then show "iv_lo (hd bs) \<le> iv_lo x \<and> iv_hi x \<le> iv_hi (last bs)"
    proof cases
      case 1
      from below [OF this] t(1) le show ?thesis by linarith
    next
      case 2
      from above [OF this] t(2) le show ?thesis by linarith
    qed
  qed
qed

lemma is_withdraw_correct:
  assumes "is_inv s" and "iv_valid iv"
  shows "\<exists>s'. is_withdraw s iv = Inr s' \<and> is_inv s' \<and> is_set s' = is_set s - iv_set iv
           \<and> is_insertVersion s' = is_insertVersion s"
proof -
  have inv: "items_inv (is_items s)" using assms(1) by (simp add: is_inv_def)
  obtain as bs cs where sp: "is_items s = as @ bs @ cs"
    "\<forall>a \<in> set as. iv_hi a + 1 < iv_lo iv"
    "\<forall>b \<in> set bs. iv_lo iv \<le> iv_hi b + 1 \<and> iv_lo b \<le> iv_hi iv + 1"
    "\<forall>c \<in> set cs. iv_hi iv + 1 < iv_lo c"
    "is_withdraw s iv = Inr (s\<lparr>is_items :=
       as @ (if bs = [] then [] else iv_below iv (hd bs) @ iv_above iv (last bs)) @ cs\<rparr>)"
    by (rule is_withdraw_split [OF inv assms(2)])
  let ?mid = "if bs = [] then [] else iv_below iv (hd bs) @ iv_above iv (last bs)"
  have parts: "items_inv as" "items_inv bs" "items_inv cs"
    "\<forall>a \<in> set as. \<forall>b \<in> set bs. iv_hi a + 1 < iv_lo b" "\<forall>b \<in> set bs. \<forall>c \<in> set cs. iv_hi b + 1 < iv_lo c"
    "\<forall>a \<in> set as. \<forall>c \<in> set cs. iv_hi a + 1 < iv_lo c"
    using inv sp(1) by auto
  have outside: "items_set as \<inter> iv_set iv = {}" "items_set cs \<inter> iv_set iv = {}"
    using sp(2,4) by (fastforce simp: items_set_def iv_set_def)+
  have mid: "items_inv ?mid \<and> items_set ?mid = items_set bs - iv_set iv
      \<and> (\<forall>x \<in> set ?mid. (\<forall>a \<in> set as. iv_hi a + 1 < iv_lo x) \<and> (\<forall>c \<in> set cs. iv_hi x + 1 < iv_lo c))"
  proof (cases "bs = []")
    case False
    have h: "hd bs \<in> set bs" "last bs \<in> set bs" using False by auto
    note m = withdraw_middle [OF False parts(2) assms(2) sp(3)]
    have "(\<forall>a \<in> set as. iv_hi a + 1 < iv_lo x) \<and> (\<forall>c \<in> set cs. iv_hi x + 1 < iv_lo c)"
      if "x \<in> set (iv_below iv (hd bs) @ iv_above iv (last bs))" for x
    proof -
      have x: "iv_lo (hd bs) \<le> iv_lo x" "iv_hi x \<le> iv_hi (last bs)" using m(3) that by blast+
      have "iv_hi a + 1 < iv_lo x" if "a \<in> set as" for a
        using parts(4) that h(1) x(1) less_le_trans by blast
      moreover have "iv_hi x + 1 < iv_lo c" if "c \<in> set cs" for c
        using parts(5) h(2) that x(2) by (meson add_le_mono1 le_less_trans)
      ultimately show ?thesis by blast
    qed
    then show ?thesis using m(1,2) False by (simp only: if_False)  simp
  qed simp
  have "items_inv (as @ ?mid @ cs)" using mid parts by auto
  moreover have "items_set (as @ ?mid @ cs) = is_set s - iv_set iv"
    using mid outside by (auto simp: is_set_def sp(1))
  ultimately show ?thesis using sp(5) by (simp add: is_inv_def is_set_def)
qed

section \<open>Membership and equality\<close>

lemma contains_walk_iff:
  assumes "items_inv items" and "a \<le> b"
  shows "contains_walk items a b \<longleftrightarrow> (\<exists>iv \<in> set items. iv_lo iv \<le> unat a \<and> unat b \<le> iv_hi iv)"
  using assms
proof (induction items)
  case (Cons x xs)
  have "\<not> (\<exists>iv \<in> set xs. iv_lo iv \<le> unat a \<and> unat b \<le> iv_hi iv)" if "a < iv_end x"
  proof
    assume "\<exists>iv \<in> set xs. iv_lo iv \<le> unat a \<and> unat b \<le> iv_hi iv"
    then obtain iv where "iv \<in> set xs" "iv_lo iv \<le> unat a" by blast
    moreover from this(1) have "iv_hi x + 1 < iv_lo iv" using Cons.prems(1) by simp
    ultimately show False using that by (simp add: iv_hi_def word_less_nat_alt)
  qed
  then show ?case using Cons by (simp add: word_le_nat_alt iv_lo_def iv_hi_def) blast
qed simp

lemma is_contains_iff:
  assumes "is_inv s" and "a \<le> b"
  shows "is_contains s a b \<longleftrightarrow> {unat a..unat b} \<subseteq> is_set s"
proof -
  have inv: "items_inv (is_items s)" using assms(1) by (simp add: is_inv_def)
  have ab: "unat a \<le> unat b" using assms(2) by (simp add: word_le_nat_alt)
  have "{unat a..unat b} \<subseteq> is_set s \<longleftrightarrow>
      (\<exists>iv \<in> set (is_items s). iv_lo iv \<le> unat a \<and> unat b \<le> iv_hi iv)"
  proof
    assume "{unat a..unat b} \<subseteq> is_set s"
    then show "\<exists>iv \<in> set (is_items s). iv_lo iv \<le> unat a \<and> unat b \<le> iv_hi iv"
      using covered_by_one [OF inv ab] unfolding is_set_def by blast
  next
    assume "\<exists>iv \<in> set (is_items s). iv_lo iv \<le> unat a \<and> unat b \<le> iv_hi iv"
    then show "{unat a..unat b} \<subseteq> is_set s"
      by (auto simp: is_set_def items_set_def iv_set_def)
  qed
  then show ?thesis using contains_walk_iff [OF inv assms(2)] by (simp add: is_contains_def)
qed

lemma interval_eqI: "iv_lo x = iv_lo y \<Longrightarrow> iv_hi x = iv_hi y \<Longrightarrow> x = y"
  by (cases x; cases y) (simp add: iv_lo_def iv_hi_def word_unat_eq_iff)

lemma first_interval_le:
  assumes "items_inv (x # xs)" and "items_inv (y # ys)" and "items_set (x # xs) = items_set (y # ys)"
  shows "iv_lo y \<le> iv_lo x" and "iv_lo x = iv_lo y \<Longrightarrow> iv_hi x \<le> iv_hi y"
proof -
  have v: "iv_lo x \<le> iv_hi x" "iv_lo y \<le> iv_hi y" using assms by (auto simp: iv_valid_def)
  have "{iv_lo x..iv_hi x} \<subseteq> items_set (y # ys)"
    unfolding assms(3) [symmetric] by (simp add: iv_set_def)
  then obtain d where d: "d \<in> set (y # ys)" "iv_lo d \<le> iv_lo x" "iv_hi x \<le> iv_hi d"
    using covered_by_one [OF assms(2) v(1)] by blast
  have "d = y \<or> iv_hi y + 1 < iv_lo d" using d(1) assms(2) by auto
  with d(2,3) v(2) show "iv_lo y \<le> iv_lo x" "iv_lo x = iv_lo y \<Longrightarrow> iv_hi x \<le> iv_hi y" by auto
qed

lemma items_canonical:
  assumes "items_inv xs" and "items_inv ys" and "items_set xs = items_set ys"
  shows "xs = ys"
  using assms
proof (induction xs arbitrary: ys)
  case Nil
  then show ?case by (cases ys) (auto simp: iv_set_def iv_valid_def)
next
  case (Cons x xs)
  then obtain y yt where ys: "ys = y # yt"
    by (cases ys) (auto simp: iv_set_def iv_valid_def)
  note le = first_interval_le [OF Cons.prems(1,2) [unfolded ys] Cons.prems(3) [unfolded ys]]
    first_interval_le [OF Cons.prems(2) [unfolded ys] Cons.prems(1) Cons.prems(3) [unfolded ys, symmetric]]
  then have xy: "x = y" by (intro interval_eqI) auto
  have "items_set zs = items_set (z # zs) - iv_set z" if "items_inv (z # zs)" for z zs
  proof -
    have "iv_set z \<inter> iv_set u = {}" if "u \<in> set zs" for u
      using \<open>items_inv (z # zs)\<close> that by (auto simp: iv_set_def)
    then show ?thesis by (auto simp: items_set_def)
  qed
  then have "items_set xs = items_set yt" using Cons.prems ys xy by metis
  with Cons ys xy show ?case by simp
qed

section \<open>The interface\<close>

text \<open>What a client that records packet numbers relies on.\<close>

primrec insert_all :: "('s \<Rightarrow> u64 \<Rightarrow> 's result) \<Rightarrow> 's \<Rightarrow> u64 list \<Rightarrow> 's result" where
  "insert_all ins s [] = Inr s"
| "insert_all ins s (p # ps) = and_then (ins s p) (\<lambda>s'. insert_all ins s' ps)"

locale number_set =
  fixes empty :: "'s" and ins :: "'s \<Rightarrow> u64 \<Rightarrow> 's result" and has :: "'s \<Rightarrow> u64 \<Rightarrow> u64 \<Rightarrow> bool"
    and repr :: "'s \<Rightarrow> 'r" and inv :: "'s \<Rightarrow> bool" and num :: "'s \<Rightarrow> nat set"
  assumes empty_laws: "inv empty" "num empty = {}"
    and ins_law: "inv s \<Longrightarrow> p < u64_max \<Longrightarrow>
      \<exists>s'. ins s p = Inr s' \<and> inv s' \<and> num s' = insert (unat p) (num s)"
    and ins_error: "ins s u64_max = Inl invalid_argument"
    and has_law: "inv s \<Longrightarrow> a \<le> b \<Longrightarrow> has s a b \<longleftrightarrow> {unat a..unat b} \<subseteq> num s"
    and canonical: "inv s \<Longrightarrow> inv t \<Longrightarrow> num s = num t \<Longrightarrow> repr s = repr t"
begin

lemma insert_all_law:
  assumes "inv s" and "\<forall>p \<in> set ps. p < u64_max"
  shows "\<exists>s'. insert_all ins s ps = Inr s' \<and> inv s' \<and> num s' = num s \<union> unat ` set ps"
  using assms
proof (induction ps arbitrary: s)
  case (Cons p ps)
  obtain s1 where s1: "ins s p = Inr s1" "inv s1" "num s1 = insert (unat p) (num s)"
    using ins_law [OF Cons.prems(1)] Cons.prems(2) by fastforce
  from Cons.IH [OF s1(2)] Cons.prems(2) s1 show ?case by auto
qed simp

lemma insert_all_error:
  assumes "inv s" and "u64_max \<in> set ps"
  shows "insert_all ins s ps = Inl invalid_argument"
  using assms
proof (induction ps arbitrary: s)
  case (Cons p ps)
  show ?case
  proof (cases "p = u64_max")
    case False
    then have "p < u64_max" by (simp add: word_less_nat_alt word_unat_eq_iff)
      (metis False linorder_neqE_nat not_less unat_u64_le_max unat_u64_max word_unat_eq_iff)
    with ins_law [OF Cons.prems(1)] obtain s1 where "ins s p = Inr s1" "inv s1" by blast
    with Cons False show ?thesis by auto
  qed (simp add: ins_error)
qed simp

lemma recorded:
  assumes "\<forall>p \<in> set ps. p < u64_max" and "set qs = set ps"
  shows "\<exists>s t. insert_all ins empty ps = Inr s \<and> insert_all ins empty qs = Inr t
           \<and> repr s = repr t \<and> (\<forall>p. has s p p \<longleftrightarrow> p \<in> set ps)"
proof -
  obtain s where s: "insert_all ins empty ps = Inr s" "inv s" "num s = unat ` set ps"
    using insert_all_law [OF empty_laws(1) assms(1)] by (auto simp: empty_laws(2))
  obtain t where t: "insert_all ins empty qs = Inr t" "inv t" "num t = unat ` set ps"
    using insert_all_law [OF empty_laws(1), of qs] assms by (auto simp: empty_laws(2))
  have "has s p p \<longleftrightarrow> p \<in> set ps" for p
    using has_law [OF s(2), of p p] s(3) by (simp add: image_iff flip: word_unat_eq_iff)
  with s t canonical [OF s(2) t(2)] show ?thesis by simp
qed

end

lemma Interval_make_point: "p < u64_max \<Longrightarrow> Interval_make p p = Inr \<lparr>iv_start = p, iv_end = p\<rparr>"
  by (simp add: Interval_make_def word_less_nat_alt)

interpretation ivs: number_set IntervalSet_empty is_insert_point is_contains is_items is_inv is_set
proof unfold_locales
  show "is_inv IntervalSet_empty" "is_set IntervalSet_empty = {}"
    by (simp_all add: is_inv_def is_set_def IntervalSet_empty_def)
next
  fix s p assume s: "is_inv s" and p: "p < u64_max"
  have v: "iv_valid \<lparr>iv_start = p, iv_end = p\<rparr>"
    using p by (simp add: iv_valid_def iv_lo_def iv_hi_def word_less_nat_alt)
  have "iv_set \<lparr>iv_start = p, iv_end = p\<rparr> = {unat p}" by (simp add: iv_set_def iv_lo_def iv_hi_def)
  with is_insert_correct [OF s v] show
    "\<exists>s'. is_insert_point s p = Inr s' \<and> is_inv s' \<and> is_set s' = insert (unat p) (is_set s)"
    by (simp add: is_insert_point_def Interval_make_point [OF p])
next
  fix s show "is_insert_point s u64_max = Inl invalid_argument"
    by (simp add: is_insert_point_def Interval_make_def)
next
  fix s and a b :: u64 assume "is_inv s" and "a \<le> b"
  then show "is_contains s a b \<longleftrightarrow> {unat a..unat b} \<subseteq> is_set s" by (rule is_contains_iff)
next
  fix s t assume "is_inv s" and "is_inv t" and "is_set s = is_set t"
  then show "is_items s = is_items t"
    by (intro items_canonical) (simp_all add: is_inv_def is_set_def)
qed

section \<open>Properties\<close>

text \<open>C3: Inserting a valid interval is set union: the result is again a sorted list of
  valid, disjoint and non-adjacent intervals, it holds exactly the old numbers and those of
  the interval, and the insert version changes exactly when a number is new.\<close>

theorem interval_insert_refines_union:
  assumes "is_inv s" and "iv_valid iv"
  shows "is_inv (is_insert s iv) \<and> is_set (is_insert s iv) = is_set s \<union> iv_set iv
    \<and> is_insertVersion (is_insert s iv) =
        (if iv_set iv \<subseteq> is_set s then is_insertVersion s else is_insertVersion s + 1)"
  using is_insert_correct [OF assms] is_insert_version [OF assms] by blast

theorem interval_insert_refines_union_witness:
  "is_set (is_insert \<lparr>is_items = [\<lparr>iv_start = 1, iv_end = 3\<rparr>, \<lparr>iv_start = 7, iv_end = 9\<rparr>],
     is_insertVersion = 2\<rparr> \<lparr>iv_start = 4, iv_end = 6\<rparr>) = {1..9}"
proof -
  let ?s = "\<lparr>is_items = [\<lparr>iv_start = 1, iv_end = 3\<rparr>, \<lparr>iv_start = 7, iv_end = 9\<rparr>],
     is_insertVersion = 2\<rparr>"
  have "is_inv ?s" "iv_valid \<lparr>iv_start = 4, iv_end = 6\<rparr>"
    by (simp_all add: is_inv_def iv_valid_def iv_lo_def iv_hi_def)
  then have "is_set (is_insert ?s \<lparr>iv_start = 4, iv_end = 6\<rparr>) = is_set ?s \<union> iv_set \<lparr>iv_start = 4, iv_end = 6\<rparr>"
    using interval_insert_refines_union by blast
  also have "\<dots> = {1..9}" by (auto simp: is_set_def iv_set_def iv_lo_def iv_hi_def)
  finally show ?thesis .
qed

text \<open>C14: Withdrawing a valid interval is set difference, never throws, keeps the
  representation invariant and leaves the insert version alone, whether the interval
  splits an element, cuts off its ends, or removes elements entirely.\<close>

theorem interval_withdraw_refines_difference:
  assumes "is_inv s" and "iv_valid iv"
  shows "\<exists>s'. is_withdraw s iv = Inr s' \<and> is_inv s' \<and> is_set s' = is_set s - iv_set iv
           \<and> is_insertVersion s' = is_insertVersion s"
  using assms by (rule is_withdraw_correct)

theorem interval_withdraw_refines_difference_witness:
  "\<exists>s'. is_withdraw \<lparr>is_items = [\<lparr>iv_start = 1, iv_end = 9\<rparr>], is_insertVersion = 1\<rparr>
          \<lparr>iv_start = 4, iv_end = 6\<rparr> = Inr s'
      \<and> is_set s' = {1..9} - {4..6}"
proof -
  let ?s = "\<lparr>is_items = [\<lparr>iv_start = 1, iv_end = 9\<rparr>], is_insertVersion = 1\<rparr>"
    and ?iv = "\<lparr>iv_start = 4, iv_end = 6\<rparr>"
  have "is_inv ?s" "iv_valid ?iv" "is_set ?s = {1..9}" "iv_set ?iv = {4..6}"
    by (simp_all add: is_inv_def is_set_def iv_set_def iv_valid_def iv_lo_def iv_hi_def)
  with interval_withdraw_refines_difference [of ?s ?iv] show ?thesis by metis
qed

text \<open>C23: A set of recorded packet numbers depends only on which numbers were recorded:
  inserting them one by one in any order and with any repetition gives the same intervals
  and answers membership exactly.\<close>

theorem recorded_packets_order_independent:
  assumes "\<forall>p \<in> set ps. p < u64_max" and "set qs = set ps"
  shows "\<exists>s t. insert_all is_insert_point IntervalSet_empty ps = Inr s
           \<and> insert_all is_insert_point IntervalSet_empty qs = Inr t
           \<and> is_items s = is_items t \<and> (\<forall>p. is_contains s p p \<longleftrightarrow> p \<in> set ps)"
  using assms by (rule ivs.recorded)

theorem recorded_packets_order_independent_witness:
  "\<exists>s t. insert_all is_insert_point IntervalSet_empty [5, 3, 4, 9] = Inr s
      \<and> insert_all is_insert_point IntervalSet_empty [9, 3, 3, 4, 5] = Inr t
      \<and> is_items s = is_items t"
  using recorded_packets_order_independent [of "[5, 3, 4, 9]" "[9, 3, 3, 4, 5]"] by auto

text \<open>C24: Membership of a range: \<^verbatim>\<open>contains\<close> answers whether every number of the
  range is in the set, although it only ever looks at single elements.\<close>

theorem interval_contains_exact:
  assumes "is_inv s" and "a \<le> b"
  shows "is_contains s a b \<longleftrightarrow> {unat a..unat b} \<subseteq> is_set s"
  using assms by (rule is_contains_iff)

theorem interval_contains_exact_witness:
  "\<not> is_contains \<lparr>is_items = [\<lparr>iv_start = 1, iv_end = 3\<rparr>, \<lparr>iv_start = 7, iv_end = 9\<rparr>],
     is_insertVersion = 2\<rparr> 3 7"
proof -
  let ?s = "\<lparr>is_items = [\<lparr>iv_start = 1, iv_end = 3\<rparr>, \<lparr>iv_start = 7, iv_end = 9\<rparr>],
     is_insertVersion = 2\<rparr>"
  have "is_inv ?s" "(3 :: u64) \<le> 7" "5 \<notin> is_set ?s" "5 \<in> {unat (3 :: u64)..unat (7 :: u64)}"
    by (simp_all add: is_inv_def is_set_def iv_set_def iv_valid_def iv_lo_def iv_hi_def)
  with interval_contains_exact [of ?s 3 7] show ?thesis by blast
qed

end
