(* ===== verification/Priority_Queue.thy ===== *)
theory Priority_Queue
  imports Quic_Types
begin

text \<open>
  The queue that decides which stream writes next: \<^verbatim>\<open>state/quic_priority_queue.h\<close>.
  Streams live in sixteen buckets, two per urgency level (sequential and incremental). A
  bucket is a \<^verbatim>\<open>std::set\<close> ordered by order id and stream id, here the strictly
  sorted list of its elements; an iterator into it is the element it points to, with
  \<open>None\<close> for \<^verbatim>\<open>end()\<close>.
\<close>

section \<open>Ordered sets of streams\<close>

record OrderedStream =
  os_streamId :: StreamId
  os_orderId :: u64

definition ordered_stream_cmp :: "OrderedStream \<Rightarrow> OrderedStream \<Rightarrow> bool" where
  "ordered_stream_cmp lhs rhs =
     (if os_orderId lhs = os_orderId rhs then os_streamId lhs < os_streamId rhs
      else os_orderId lhs < os_orderId rhs)"

fun oss_insert :: "OrderedStream \<Rightarrow> OrderedStream list \<Rightarrow> OrderedStream list" where
  "oss_insert x [] = [x]"
| "oss_insert x (y # ys) =
     (if ordered_stream_cmp x y then x # y # ys
      else if ordered_stream_cmp y x then y # oss_insert x ys
      else y # ys)"

text \<open>\<^verbatim>\<open>begin()\<close>, the successor of an iterator, and erasure, which returns the
  iterator behind the erased element.\<close>

definition oss_begin :: "OrderedStream list \<Rightarrow> OrderedStream option" where
  "oss_begin s = (case s of [] \<Rightarrow> None | x # _ \<Rightarrow> Some x)"

fun oss_next :: "OrderedStream list \<Rightarrow> OrderedStream \<Rightarrow> OrderedStream option" where
  "oss_next [] x = None"
| "oss_next (y # ys) x = (if y = x then oss_begin ys else oss_next ys x)"

definition oss_erase :: "OrderedStream list \<Rightarrow> OrderedStream \<Rightarrow> OrderedStream list \<times> OrderedStream option" where
  "oss_erase s x = (removeAll x s, oss_next s x)"

section \<open>Priorities\<close>

record Priority =
  pri_level :: u8
  pri_incremental :: bool
  pri_orderId :: u64

text \<open>The constructor stores the level in 3 bits and the order id in 58.\<close>

definition Priority_make :: "u8 \<Rightarrow> bool \<Rightarrow> u64 \<Rightarrow> Priority" where
  "Priority_make l i o' =
     \<lparr>pri_level = take_bit 3 l, pri_incremental = i, pri_orderId = take_bit 58 o'\<rparr>"

definition kDefaultPriority :: Priority where
  "kDefaultPriority = Priority_make 3 True 0"

definition priority2index :: "Priority \<Rightarrow> u8" where
  "priority2index pri = pri_level pri * 2 + (if pri_incremental pri then 1 else 0)"

section \<open>Levels\<close>

record Level =
  lv_streams :: "OrderedStream list"
  lv_incremental :: bool
  lv_streamToOrderId :: "StreamId \<rightharpoonup> u64"
  lv_nextsSoFar :: u64
  lv_maxNextsPerStream :: u64
  lv_nextStreamIt :: "OrderedStream option"
  lv_startStreamIt :: "OrderedStream option"

definition Level_make :: "bool \<Rightarrow> Level" where
  "Level_make inc = \<lparr>lv_streams = [], lv_incremental = inc, lv_streamToOrderId = Map.empty,
     lv_nextsSoFar = 0, lv_maxNextsPerStream = 1, lv_nextStreamIt = None, lv_startStreamIt = None\<rparr>"

definition Iterator_begin :: "Level \<Rightarrow> Level" where
  "Iterator_begin l =
     (if lv_incremental l
      then let nextIt = (if lv_nextStreamIt l = None then oss_begin (lv_streams l) else lv_nextStreamIt l)
           in l\<lparr>lv_nextStreamIt := nextIt, lv_startStreamIt := nextIt\<rparr>
      else l\<lparr>lv_nextStreamIt := oss_begin (lv_streams l)\<rparr>)"

definition Iterator_end :: "Level \<Rightarrow> bool" where
  "Iterator_end l =
     (if lv_incremental l then lv_nextStreamIt l = lv_startStreamIt l else lv_nextStreamIt l = None)"

text \<open>Dereferencing or incrementing \<^verbatim>\<open>end()\<close> is undefined behaviour: \<open>None\<close>.\<close>

definition Iterator_current :: "Level \<Rightarrow> StreamId option" where
  "Iterator_current l = map_option os_streamId (lv_nextStreamIt l)"

definition Iterator_next :: "bool \<Rightarrow> Level \<Rightarrow> Level option" where
  "Iterator_next force l =
     (if lv_incremental l
      then let l1 = (if force then l else l\<lparr>lv_nextsSoFar := lv_nextsSoFar l + 1\<rparr>)
           in if \<not> force \<and> lv_nextsSoFar l1 < lv_maxNextsPerStream l1 then Some l1
              else (case lv_nextStreamIt l1 of
                 None \<Rightarrow> None
               | Some x \<Rightarrow>
                   let n = oss_next (lv_streams l1) x;
                       n' = (if n = None then oss_begin (lv_streams l1) else n)
                   in Some (l1\<lparr>lv_nextStreamIt := n', lv_nextsSoFar := 0\<rparr>))
      else (case lv_nextStreamIt l of
         None \<Rightarrow> None
       | Some x \<Rightarrow> Some (l\<lparr>lv_nextStreamIt := oss_next (lv_streams l) x\<rparr>)))"

definition Iterator_override :: "OrderedStream option \<Rightarrow> Level \<Rightarrow> Level" where
  "Iterator_override it l = l\<lparr>lv_nextStreamIt := it\<rparr>"

definition Level_empty :: "Level \<Rightarrow> bool" where
  "Level_empty l \<longleftrightarrow> lv_streams l = []"

definition getOrderedStream :: "Level \<Rightarrow> StreamId \<Rightarrow> OrderedStream" where
  "getOrderedStream l sid =
     (case lv_streamToOrderId l sid of
        None \<Rightarrow> \<lparr>os_streamId = sid, os_orderId = 0\<rparr>
      | Some ord \<Rightarrow> \<lparr>os_streamId = sid, os_orderId = ord\<rparr>)"

definition Level_insert :: "StreamId \<Rightarrow> u64 \<Rightarrow> Level \<Rightarrow> Level" where
  "Level_insert streamId orderId l =
     (let l1 = (if orderId > 0
                then l\<lparr>lv_streamToOrderId := (lv_streamToOrderId l)(streamId \<mapsto> orderId)\<rparr> else l)
      in l1\<lparr>lv_streams := oss_insert \<lparr>os_streamId = streamId, os_orderId = orderId\<rparr> (lv_streams l1)\<rparr>)"

definition Level_erase :: "OrderedStream \<Rightarrow> Level \<Rightarrow> Level \<times> OrderedStream option" where
  "Level_erase it l =
     (let (s', nextIt) = oss_erase (lv_streams l) it
      in (l\<lparr>lv_streamToOrderId := (lv_streamToOrderId l)(os_streamId it := None),
            lv_streams := s'\<rparr>, nextIt))"

text \<open>The body of \<^verbatim>\<open>eraseFromLevel\<close> on the level it selects.\<close>

definition eraseFromLevel :: "StreamId \<Rightarrow> Level \<Rightarrow> Level" where
  "eraseFromLevel sid l =
     (let stream = getOrderedStream l sid
      in if stream \<notin> set (lv_streams l) then l
         else let (s', nextIt) = oss_erase (lv_streams l) stream
              in if lv_nextStreamIt l = Some stream
                 then l\<lparr>lv_streams := s', lv_nextStreamIt := nextIt, lv_nextsSoFar := 0\<rparr>
                 else l\<lparr>lv_streams := s'\<rparr>)"

section \<open>The queue\<close>

record PriorityQueue =
  pq_levels :: "Level list"
  pq_maxNextsPerStream :: u64
  pq_writableStreamsToLevel :: "StreamId \<rightharpoonup> u8"

abbreviation (input) kDefaultPriorityLevelsSize :: nat where "kDefaultPriorityLevelsSize \<equiv> 16"

definition PriorityQueue_init :: PriorityQueue where
  "PriorityQueue_init =
     \<lparr>pq_levels = map (\<lambda>index. Level_make (index mod 2 = 1)) [0..<kDefaultPriorityLevelsSize],
      pq_maxNextsPerStream = 1, pq_writableStreamsToLevel = Map.empty\<rparr>"

definition setMaxNextsPerStream :: "u64 \<Rightarrow> PriorityQueue \<Rightarrow> PriorityQueue" where
  "setMaxNextsPerStream maxNexts q =
     q\<lparr>pq_maxNextsPerStream := maxNexts,
       pq_levels := map (\<lambda>l. l\<lparr>lv_maxNextsPerStream := maxNexts\<rparr>) (pq_levels q)\<rparr>"

definition on_level :: "u8 \<Rightarrow> (Level \<Rightarrow> Level) \<Rightarrow> PriorityQueue \<Rightarrow> PriorityQueue" where
  "on_level index f q =
     q\<lparr>pq_levels := (pq_levels q)[unat index := f (pq_levels q ! unat index)]\<rparr>"

definition updateExistingStreamPriority :: "StreamId \<Rightarrow> u8 \<Rightarrow> Priority \<Rightarrow> PriorityQueue \<Rightarrow> PriorityQueue" where
  "updateExistingStreamPriority sid oldIndex pri q =
     (let index = priority2index pri
      in if oldIndex = index then q
         else let q1 = on_level oldIndex (eraseFromLevel sid) q;
                  q2 = q1\<lparr>pq_writableStreamsToLevel := (pq_writableStreamsToLevel q1)(sid \<mapsto> index)\<rparr>
              in on_level index (Level_insert sid (pri_orderId pri)) q2)"

definition updateIfExist :: "StreamId \<Rightarrow> Priority \<Rightarrow> PriorityQueue \<Rightarrow> PriorityQueue" where
  "updateIfExist sid priority q =
     (case pq_writableStreamsToLevel q sid of
        None \<Rightarrow> q
      | Some oldIndex \<Rightarrow> updateExistingStreamPriority sid oldIndex priority q)"

definition insertOrUpdate :: "StreamId \<Rightarrow> Priority \<Rightarrow> PriorityQueue \<Rightarrow> PriorityQueue" where
  "insertOrUpdate sid pri q =
     (let index = priority2index pri
      in case pq_writableStreamsToLevel q sid of
           Some oldIndex \<Rightarrow> updateExistingStreamPriority sid oldIndex pri q
         | None \<Rightarrow>
             on_level index (Level_insert sid (pri_orderId pri))
               (q\<lparr>pq_writableStreamsToLevel := (pq_writableStreamsToLevel q)(sid \<mapsto> index)\<rparr>))"

definition pq_erase :: "StreamId \<Rightarrow> PriorityQueue \<Rightarrow> PriorityQueue" where
  "pq_erase sid q =
     (case pq_writableStreamsToLevel q sid of
        None \<Rightarrow> q
      | Some index \<Rightarrow>
          let q1 = on_level index (eraseFromLevel sid) q
          in q1\<lparr>pq_writableStreamsToLevel := (pq_writableStreamsToLevel q1)(sid := None)\<rparr>)"

definition pq_clear :: "PriorityQueue \<Rightarrow> PriorityQueue" where
  "pq_clear q =
     q\<lparr>pq_writableStreamsToLevel := Map.empty,
       pq_levels := map (\<lambda>l. l\<lparr>lv_streams := [], lv_nextStreamIt := None\<rparr>) (pq_levels q)\<rparr>"

definition pq_count :: "PriorityQueue \<Rightarrow> StreamId \<Rightarrow> nat" where
  "pq_count q sid = (if pq_writableStreamsToLevel q sid = None then 0 else 1)"

definition pq_empty :: "PriorityQueue \<Rightarrow> bool" where
  "pq_empty q \<longleftrightarrow> pq_writableStreamsToLevel q = Map.empty"

definition setNextScheduledStream :: "StreamId \<Rightarrow> PriorityQueue \<Rightarrow> PriorityQueue option" where
  "setNextScheduledStream sid q =
     (case pq_writableStreamsToLevel q sid of
        None \<Rightarrow> None
      | Some index \<Rightarrow>
          let level = pq_levels q ! unat index; stream = getOrderedStream level sid;
              streamIt = (if stream \<in> set (lv_streams level) then Some stream else None)
          in Some (on_level index (Iterator_override streamIt) q))"

definition prepareIterator :: "Priority \<Rightarrow> PriorityQueue \<Rightarrow> PriorityQueue" where
  "prepareIterator pri q = on_level (priority2index pri) Iterator_begin q"

definition getNextScheduledStream_at :: "Priority \<Rightarrow> PriorityQueue \<Rightarrow> StreamId option" where
  "getNextScheduledStream_at pri q =
     (let level = pq_levels q ! unat (priority2index pri)
      in if \<not> lv_incremental level \<or> lv_nextStreamIt level = None
         then map_option os_streamId (oss_begin (lv_streams level))
         else map_option os_streamId (lv_nextStreamIt level))"

text \<open>The first non-empty level; calling this on an empty queue is undefined.\<close>

fun first_nonempty :: "Level list \<Rightarrow> nat \<Rightarrow> nat option" where
  "first_nonempty [] i = None"
| "first_nonempty (l # ls) i = (if Level_empty l then first_nonempty ls (i + 1) else Some i)"

definition getNextScheduledStream :: "PriorityQueue \<Rightarrow> (StreamId \<times> PriorityQueue) option" where
  "getNextScheduledStream q =
     (case first_nonempty (pq_levels q) 0 of
        None \<Rightarrow> None
      | Some i \<Rightarrow>
          let level = Iterator_begin (pq_levels q ! i)
          in map_option (\<lambda>sid. (sid, q\<lparr>pq_levels := (pq_levels q)[i := level]\<rparr>))
               (Iterator_current level))"

section \<open>Order and sets\<close>

lemma cmp_irrefl [simp]: "\<not> ordered_stream_cmp x x"
  by (simp add: ordered_stream_cmp_def)

lemma cmp_trans: "ordered_stream_cmp x y \<Longrightarrow> ordered_stream_cmp y z \<Longrightarrow> ordered_stream_cmp x z"
  by (auto simp: ordered_stream_cmp_def split: if_splits)

lemma cmp_total: "ordered_stream_cmp x y \<or> x = y \<or> ordered_stream_cmp y x"
  by (cases x; cases y) (auto simp: ordered_stream_cmp_def)

lemma cmp_asym: "ordered_stream_cmp x y \<Longrightarrow> \<not> ordered_stream_cmp y x"
  using cmp_trans [of x y x] by auto

lemma set_oss_insert: "set (oss_insert x s) = insert x (set s)"
proof (induction s)
  case (Cons y ys)
  then show ?case using cmp_total [of x y] by auto
qed simp

lemma sorted_oss_insert:
  "sorted_wrt ordered_stream_cmp s \<Longrightarrow> sorted_wrt ordered_stream_cmp (oss_insert x s)"
  by (induction s) (auto simp: set_oss_insert intro: cmp_trans)

lemma sorted_distinct: "sorted_wrt ordered_stream_cmp s \<Longrightarrow> distinct s"
  by (induction s) auto

lemma sorted_removeAll:
  "sorted_wrt ordered_stream_cmp s \<Longrightarrow> sorted_wrt ordered_stream_cmp (removeAll x s)"
  by (induction s) auto

text \<open>The successor of the element at a position is the element at the next position.\<close>

lemma oss_next_nth:
  assumes "distinct s" and "i < length s"
  shows "oss_next s (s ! i) = (if Suc i < length s then Some (s ! Suc i) else None)"
  using assms
proof (induction s arbitrary: i)
  case (Cons y ys)
  show ?case
  proof (cases i)
    case 0
    then show ?thesis by (cases ys) (auto simp: oss_begin_def)
  next
    case (Suc j)
    with Cons.prems have "y \<noteq> ys ! j" by auto
    with Cons Suc show ?thesis by simp
  qed
qed simp

lemma oss_next_in:
  assumes "distinct s" and "oss_next s x = Some y"
  shows "y \<in> set s - {x}"
proof -
  have "x \<in> set s"
    using assms(2) by (induction s) (auto split: if_splits)
  then obtain i where i: "i < length s" "s ! i = x" by (auto simp: in_set_conv_nth)
  from oss_next_nth [OF assms(1) i(1)] assms(2) i have "Suc i < length s" "s ! Suc i = y"
    by (auto split: if_splits)
  with assms(1) i show ?thesis by (auto simp: nth_eq_iff_index_eq)
qed

lemma oss_begin_in: "oss_begin s = Some x \<Longrightarrow> x \<in> set s"
  by (cases s) (auto simp: oss_begin_def)

lemma oss_begin_None: "oss_begin s = None \<longleftrightarrow> s = []"
  by (cases s) (auto simp: oss_begin_def)

section \<open>Invariant\<close>

definition level_ids :: "Level \<Rightarrow> StreamId set" where
  "level_ids l = os_streamId ` set (lv_streams l)"

definition level_inv :: "Level \<Rightarrow> bool" where
  "level_inv l \<longleftrightarrow>
     sorted_wrt ordered_stream_cmp (lv_streams l)
   \<and> (\<forall>x \<in> set (lv_streams l). x = getOrderedStream l (os_streamId x))
   \<and> (\<forall>x. lv_nextStreamIt l = Some x \<longrightarrow> x \<in> set (lv_streams l))"

text \<open>The buckets and the index agree: a stream is in the bucket the index says, once, and
  nowhere else.\<close>

definition pq_inv :: "PriorityQueue \<Rightarrow> bool" where
  "pq_inv q \<longleftrightarrow>
     length (pq_levels q) = kDefaultPriorityLevelsSize
   \<and> (\<forall>i < kDefaultPriorityLevelsSize. level_inv (pq_levels q ! i)
         \<and> lv_incremental (pq_levels q ! i) = odd i
         \<and> level_ids (pq_levels q ! i) = {sid. pq_writableStreamsToLevel q sid = Some (of_nat i)})
   \<and> (\<forall>sid index. pq_writableStreamsToLevel q sid = Some index
         \<longrightarrow> unat index < kDefaultPriorityLevelsSize)
   \<and> finite (dom (pq_writableStreamsToLevel q))"

lemma getOrderedStream_id [simp]: "os_streamId (getOrderedStream l sid) = sid"
  by (simp add: getOrderedStream_def split: option.split)

lemma mem_level_ids:
  "level_inv l \<Longrightarrow> sid \<in> level_ids l \<longleftrightarrow> getOrderedStream l sid \<in> set (lv_streams l)"
  unfolding level_inv_def level_ids_def image_iff by (metis getOrderedStream_id)

lemma Level_insert_inv:
  assumes "level_inv l" and "sid \<notin> level_ids l"
    and "ord > 0 \<or> lv_streamToOrderId l sid = None"
  shows "level_inv (Level_insert sid ord l) \<and> level_ids (Level_insert sid ord l) = insert sid (level_ids l)
           \<and> lv_incremental (Level_insert sid ord l) = lv_incremental l"
proof -
  let ?l = "Level_insert sid ord l" and ?x = "\<lparr>os_streamId = sid, os_orderId = ord\<rparr>"
  have streams: "lv_streams ?l = oss_insert ?x (lv_streams l)"
    by (simp add: Level_insert_def Let_def)
  have other: "getOrderedStream ?l i = getOrderedStream l i" if "i \<noteq> sid" for i
    using that by (simp add: Level_insert_def Let_def getOrderedStream_def)
  have new: "getOrderedStream ?l sid = ?x"
    using assms(3) by (auto simp: Level_insert_def Let_def getOrderedStream_def word_gt_0)
  have "y = getOrderedStream ?l (os_streamId y)" if "y \<in> set (lv_streams ?l)" for y
  proof (cases "y = ?x")
    case False
    then have "y \<in> set (lv_streams l)" using that streams by (auto simp: set_oss_insert)
    moreover from this have "os_streamId y \<noteq> sid" using assms(2) by (auto simp: level_ids_def)
    ultimately show ?thesis using assms(1) other by (simp add: level_inv_def)
  qed (simp add: new)
  moreover have "x \<in> set (lv_streams ?l)" if "lv_nextStreamIt ?l = Some x" for x
    using that assms(1) streams by (auto simp: set_oss_insert level_inv_def Level_insert_def Let_def split: if_splits)
  ultimately have "level_inv ?l"
    using assms(1) streams sorted_oss_insert by (auto simp: level_inv_def)
  then show ?thesis
    using streams by (simp add: level_ids_def set_oss_insert Level_insert_def Let_def)
qed

lemma eraseFromLevel_inv:
  assumes "level_inv l"
  shows "level_inv (eraseFromLevel sid l) \<and> level_ids (eraseFromLevel sid l) = level_ids l - {sid}
           \<and> lv_incremental (eraseFromLevel sid l) = lv_incremental l"
proof (cases "getOrderedStream l sid \<in> set (lv_streams l)")
  case False
  then have "sid \<notin> level_ids l" using mem_level_ids [OF assms] by simp
  with False assms show ?thesis by (simp add: eraseFromLevel_def Let_def)
next
  case True
  let ?x = "getOrderedStream l sid" and ?l = "eraseFromLevel sid l"
  have l: "?l = (if lv_nextStreamIt l = Some ?x
      then l\<lparr>lv_streams := removeAll ?x (lv_streams l), lv_nextStreamIt := oss_next (lv_streams l) ?x,
             lv_nextsSoFar := 0\<rparr>
      else l\<lparr>lv_streams := removeAll ?x (lv_streams l)\<rparr>)"
    using True by (simp add: eraseFromLevel_def Let_def oss_erase_def)
  have same: "getOrderedStream ?l i = getOrderedStream l i" for i
    by (simp add: l getOrderedStream_def)
  have sorted: "sorted_wrt ordered_stream_cmp (lv_streams l)" using assms by (simp add: level_inv_def)
  have set: "set (lv_streams ?l) = set (lv_streams l) - {?x}" by (simp add: l)
  have next_in: "x \<in> set (lv_streams ?l)" if "lv_nextStreamIt ?l = Some x" for x
  proof (cases "lv_nextStreamIt l = Some ?x")
    case True
    then have "oss_next (lv_streams l) ?x = Some x" using that by (simp add: l)
    from oss_next_in [OF sorted_distinct [OF sorted] this] show ?thesis unfolding set .
  next
    case False
    then have "lv_nextStreamIt l = Some x" using that by (simp add: l)
    then show ?thesis using False assms unfolding set level_inv_def by blast
  qed
  have "sorted_wrt ordered_stream_cmp (lv_streams ?l)"
    using sorted_removeAll [OF sorted] by (simp add: l)
  moreover have "\<forall>x \<in> set (lv_streams ?l). x = getOrderedStream ?l (os_streamId x)"
    using assms unfolding set same level_inv_def by blast
  ultimately have "level_inv ?l" using next_in unfolding level_inv_def by blast
  moreover have "level_ids ?l = level_ids l - {sid}"
  proof -
    have "os_streamId x = sid \<longleftrightarrow> x = ?x" if "x \<in> set (lv_streams l)" for x
      using assms that unfolding level_inv_def by (metis getOrderedStream_id)
    then show ?thesis unfolding level_ids_def set by auto
  qed
  ultimately show ?thesis by (simp add: l)
qed

lemma unat_of_nat_level: "i < 16 \<Longrightarrow> unat (of_nat i :: u8) = i"
  by (simp add: unsigned_of_nat take_bit_nat_eq_self)

lemma pq_inv_level:
  assumes "pq_inv q" and "unat index < 16"
  shows "level_inv (pq_levels q ! unat index)"
    and "lv_incremental (pq_levels q ! unat index) = odd (unat index)"
    and "level_ids (pq_levels q ! unat index) = {sid. pq_writableStreamsToLevel q sid = Some index}"
  using assms by (simp_all add: pq_inv_def)

lemma pq_inv_index:
  "pq_inv q \<Longrightarrow> pq_writableStreamsToLevel q sid = Some index \<Longrightarrow> unat index < 16"
  by (simp add: pq_inv_def)

lemma pq_inv_change:
  assumes "pq_inv q" and "unat index < 16" and "level_inv l"
    and "lv_incremental l = lv_incremental (pq_levels q ! unat index)"
    and "level_ids l = {sid. m sid = Some index}"
    and "\<And>j sid. j \<noteq> index \<Longrightarrow> m sid = Some j \<longleftrightarrow> pq_writableStreamsToLevel q sid = Some j"
    and "finite (dom m)"
  shows "pq_inv (q\<lparr>pq_levels := (pq_levels q)[unat index := l], pq_writableStreamsToLevel := m\<rparr>)"
proof -
  have "length (pq_levels q) = 16" using assms(1) by (simp add: pq_inv_def)
  moreover have "level_inv ((pq_levels q)[unat index := l] ! i)
      \<and> lv_incremental ((pq_levels q)[unat index := l] ! i) = odd i
      \<and> level_ids ((pq_levels q)[unat index := l] ! i) = {sid. m sid = Some (of_nat i)}"
    if "i < 16" for i
  proof (cases "i = unat index")
    case True
    then show ?thesis
      using assms(2-5) pq_inv_level(2) [OF assms(1,2)] calculation by simp
  next
    case False
    then have "of_nat i \<noteq> index" using unat_of_nat_level [OF that] by auto
    with False that assms(1,6) show ?thesis by (simp add: pq_inv_def)
  qed
  moreover have "unat j < 16" if "m sid = Some j" for sid j
  proof (cases "j = index")
    case True
    then show ?thesis using assms(2) by simp
  next
    case False
    from assms(6) [OF this] that have "pq_writableStreamsToLevel q sid = Some j" by blast
    with assms(1) show ?thesis by (rule pq_inv_index)
  qed
  ultimately show ?thesis using assms(7) by (simp add: pq_inv_def)
qed

text \<open>An order id is remembered per bucket and never forgotten; a stream comes back to a
  bucket safely only with a positive order id, or if none is remembered there.\<close>

definition order_ok :: "PriorityQueue \<Rightarrow> StreamId \<Rightarrow> Priority \<Rightarrow> bool" where
  "order_ok q sid pri \<longleftrightarrow> unat (priority2index pri) < kDefaultPriorityLevelsSize
     \<and> (pri_orderId pri > 0
        \<or> lv_streamToOrderId (pq_levels q ! unat (priority2index pri)) sid = None)"

lemma eraseFromLevel_orders [simp]:
  "lv_streamToOrderId (eraseFromLevel sid l) = lv_streamToOrderId l"
  by (simp add: eraseFromLevel_def Let_def oss_erase_def)

lemma priority2index_make: "unat (priority2index (Priority_make l i o')) < 16"
proof -
  have "unat (take_bit 3 l) < 8"
    by (simp add: unsigned_take_bit_eq take_bit_eq_mod) (simp add: take_bit_eq_mod unat_mod)
  then show ?thesis
    by (simp add: priority2index_def Priority_make_def unat_word_ariths)
qed

lemma pq_inv_init: "pq_inv PriorityQueue_init"
  by (simp add: pq_inv_def PriorityQueue_init_def Level_make_def level_inv_def level_ids_def
      odd_iff_mod_2_eq_one)

lemma pq_erase_inv:
  assumes "pq_inv q"
  shows "pq_inv (pq_erase sid q)
    \<and> pq_writableStreamsToLevel (pq_erase sid q) = (pq_writableStreamsToLevel q)(sid := None)"
proof (cases "pq_writableStreamsToLevel q sid")
  case None
  then have "(pq_writableStreamsToLevel q)(sid := None) = pq_writableStreamsToLevel q" by auto
  with None assms show ?thesis by (simp add: pq_erase_def)
next
  case (Some index)
  have i: "unat index < 16" using assms Some by (rule pq_inv_index)
  note lv = pq_inv_level [OF assms i]
  note er = eraseFromLevel_inv [OF lv(1), of sid]
  have "pq_inv (q\<lparr>pq_levels := (pq_levels q)[unat index := eraseFromLevel sid (pq_levels q ! unat index)],
      pq_writableStreamsToLevel := (pq_writableStreamsToLevel q)(sid := None)\<rparr>)"
  proof (rule pq_inv_change [OF assms i])
    show "finite (dom ((pq_writableStreamsToLevel q)(sid := None)))"
      using assms by (simp add: pq_inv_def)
  qed (use er lv Some in auto)
  with Some show ?thesis by (simp add: pq_erase_def on_level_def Let_def)
qed

lemma pq_update_commute:
  "q\<lparr>pq_writableStreamsToLevel := m, pq_levels := ls\<rparr> = q\<lparr>pq_levels := ls, pq_writableStreamsToLevel := m\<rparr>"
  by (cases q) simp

lemma insert_new_inv:
  assumes "pq_inv q" and "pq_writableStreamsToLevel q sid = None" and "order_ok q sid pri"
  shows "pq_inv (insertOrUpdate sid pri q)
    \<and> pq_writableStreamsToLevel (insertOrUpdate sid pri q) =
        (pq_writableStreamsToLevel q)(sid \<mapsto> priority2index pri)"
proof -
  let ?index = "priority2index pri"
  let ?l = "pq_levels q ! unat ?index"
  have i: "unat ?index < 16" using assms(3) by (simp add: order_ok_def)
  note lv = pq_inv_level [OF assms(1) i]
  have "sid \<notin> level_ids ?l" using lv(3) assms(2) by simp
  with lv(1) assms(3) have ins: "level_inv (Level_insert sid (pri_orderId pri) ?l)
      \<and> level_ids (Level_insert sid (pri_orderId pri) ?l) = insert sid (level_ids ?l)
      \<and> lv_incremental (Level_insert sid (pri_orderId pri) ?l) = lv_incremental ?l"
    by (intro Level_insert_inv) (auto simp: order_ok_def)
  have "pq_inv (q\<lparr>pq_levels := (pq_levels q)[unat ?index := Level_insert sid (pri_orderId pri) ?l],
      pq_writableStreamsToLevel := (pq_writableStreamsToLevel q)(sid \<mapsto> ?index)\<rparr>)"
  proof (rule pq_inv_change [OF assms(1) i])
    show "finite (dom ((pq_writableStreamsToLevel q)(sid \<mapsto> ?index)))"
      using assms(1) by (simp add: pq_inv_def)
  qed (use ins lv assms(2) in auto)
  with assms(2) show ?thesis
    by (simp add: insertOrUpdate_def on_level_def Let_def pq_update_commute)
qed

text \<open>Moving a stream to another bucket is erasing it and inserting it anew.\<close>

lemma update_as_reinsert:
  assumes "pq_writableStreamsToLevel q sid = Some oldIndex" and "oldIndex \<noteq> priority2index pri"
  shows "updateExistingStreamPriority sid oldIndex pri q = insertOrUpdate sid pri (pq_erase sid q)"
  using assms
  by (simp add: updateExistingStreamPriority_def insertOrUpdate_def pq_erase_def on_level_def Let_def)

lemma erase_orders:
  "lv_streamToOrderId (ls[j := eraseFromLevel sid (ls ! j)] ! i) = lv_streamToOrderId (ls ! i)"
  by (cases "i = j"; cases "j < length ls") (simp_all add: list_update_beyond)

lemma order_ok_erase: "order_ok (pq_erase sid q) sid pri \<longleftrightarrow> order_ok q sid pri"
proof -
  have "lv_streamToOrderId (pq_levels (pq_erase sid q) ! i) = lv_streamToOrderId (pq_levels q ! i)" for i
    using erase_orders [of "pq_levels q"] by (auto simp: pq_erase_def on_level_def Let_def split: option.split)
  then show ?thesis by (simp add: order_ok_def)
qed

lemma update_inv:
  assumes "pq_inv q" and "pq_writableStreamsToLevel q sid = Some oldIndex" and "order_ok q sid pri"
  shows "pq_inv (updateExistingStreamPriority sid oldIndex pri q)
    \<and> pq_writableStreamsToLevel (updateExistingStreamPriority sid oldIndex pri q) =
        (pq_writableStreamsToLevel q)(sid \<mapsto> priority2index pri)"
proof (cases "oldIndex = priority2index pri")
  case True
  with assms(2) have "(pq_writableStreamsToLevel q)(sid \<mapsto> priority2index pri) = pq_writableStreamsToLevel q"
    by auto
  with True assms(1) show ?thesis by (simp add: updateExistingStreamPriority_def)
next
  case False
  note er = pq_erase_inv [OF assms(1), of sid]
  then have "pq_writableStreamsToLevel (pq_erase sid q) sid = None" by simp
  from insert_new_inv [OF _ this, of pri] er assms(3) order_ok_erase
  show ?thesis unfolding update_as_reinsert [OF assms(2) False] by auto
qed

lemma insertOrUpdate_inv:
  assumes "pq_inv q" and "order_ok q sid pri"
  shows "pq_inv (insertOrUpdate sid pri q)
    \<and> pq_writableStreamsToLevel (insertOrUpdate sid pri q) =
        (pq_writableStreamsToLevel q)(sid \<mapsto> priority2index pri)"
proof (cases "pq_writableStreamsToLevel q sid")
  case None
  with insert_new_inv [OF assms(1) None assms(2)] show ?thesis by blast
next
  case (Some oldIndex)
  then have "insertOrUpdate sid pri q = updateExistingStreamPriority sid oldIndex pri q"
    by (simp add: insertOrUpdate_def)
  with update_inv [OF assms(1) Some assms(2)] show ?thesis by simp
qed

section \<open>Scheduling\<close>

lemma first_nonempty_Some:
  assumes "first_nonempty ls k = Some i"
  shows "k \<le> i \<and> i - k < length ls \<and> \<not> Level_empty (ls ! (i - k)) \<and> (\<forall>j < i - k. Level_empty (ls ! j))"
  using assms
proof (induction ls arbitrary: k)
  case (Cons l ls)
  show ?case
  proof (cases "Level_empty l")
    case True
    with Cons have ih: "Suc k \<le> i" "i - Suc k < length ls" "\<not> Level_empty (ls ! (i - Suc k))"
      "\<forall>j < i - Suc k. Level_empty (ls ! j)" by fastforce+
    then have "i - k = Suc (i - Suc k)" by simp
    with ih True show ?thesis by (auto simp: less_Suc_eq_0_disj)
  qed (use Cons in auto)
qed simp

lemma first_nonempty_None: "first_nonempty ls k = None \<longleftrightarrow> (\<forall>l \<in> set ls. Level_empty l)"
  by (induction ls arbitrary: k) auto

lemma Iterator_begin_inv:
  assumes "level_inv l"
  shows "level_inv (Iterator_begin l) \<and> lv_streams (Iterator_begin l) = lv_streams l
    \<and> lv_incremental (Iterator_begin l) = lv_incremental l"
  using assms oss_begin_in
  by (auto simp: Iterator_begin_def level_inv_def Let_def getOrderedStream_def)

lemma Iterator_begin_current:
  assumes "level_inv l" and "\<not> Level_empty l"
  obtains x where "x \<in> set (lv_streams l)" and "Iterator_current (Iterator_begin l) = Some (os_streamId x)"
proof -
  have "lv_nextStreamIt (Iterator_begin l) \<noteq> None"
    using assms(2) by (cases "lv_streams l") (auto simp: Iterator_begin_def Let_def oss_begin_def Level_empty_def)
  then obtain x where x: "lv_nextStreamIt (Iterator_begin l) = Some x" by blast
  then have "x \<in> set (lv_streams l)"
    using Iterator_begin_inv [OF assms(1)] unfolding level_inv_def by metis
  with x that show thesis by (simp add: Iterator_current_def)
qed

lemma getNextScheduledStream_spec:
  assumes "pq_inv q" and "\<not> pq_empty q"
  shows "\<exists>sid q' i. getNextScheduledStream q = Some (sid, q')
     \<and> pq_writableStreamsToLevel q sid = Some i
     \<and> (\<forall>sid' j. pq_writableStreamsToLevel q sid' = Some j \<longrightarrow> i \<le> j)
     \<and> pq_inv q' \<and> pq_writableStreamsToLevel q' = pq_writableStreamsToLevel q"
proof -
  have len: "length (pq_levels q) = 16" using assms(1) by (simp add: pq_inv_def)
  have empty: "Level_empty (pq_levels q ! unat j) \<longleftrightarrow> (\<forall>sid. pq_writableStreamsToLevel q sid \<noteq> Some j)"
    if "unat j < 16" for j
    using pq_inv_level(3) [OF assms(1) that] by (auto simp: Level_empty_def level_ids_def)
  obtain s0 j0 where s0: "pq_writableStreamsToLevel q s0 = Some j0"
    using assms(2) by (auto simp: pq_empty_def fun_eq_iff)
  have "\<not> Level_empty (pq_levels q ! unat j0)" "unat j0 < 16"
    using empty pq_inv_index [OF assms(1) s0] s0 by auto
  then obtain i where i: "first_nonempty (pq_levels q) 0 = Some i"
    using first_nonempty_None [of "pq_levels q" 0] len by (metis nth_mem option.exhaust)
  from first_nonempty_Some [OF i] have i16: "i < 16" and ne: "\<not> Level_empty (pq_levels q ! i)"
    and below: "\<forall>j < i. Level_empty (pq_levels q ! j)" using len by auto
  let ?w = "of_nat i :: u8" and ?l = "pq_levels q ! i"
  have w: "unat ?w = i" using i16 by (rule unat_of_nat_level)
  note lv = pq_inv_level [OF assms(1), of ?w, unfolded w, OF i16]
  obtain x where x: "x \<in> set (lv_streams ?l)" "Iterator_current (Iterator_begin ?l) = Some (os_streamId x)"
    using Iterator_begin_current [OF lv(1) ne] by blast
  have member: "pq_writableStreamsToLevel q (os_streamId x) = Some ?w"
    using x(1) lv(3) by (auto simp: level_ids_def)
  have least: "?w \<le> j" if "pq_writableStreamsToLevel q sid' = Some j" for sid' j
  proof (rule ccontr)
    assume "\<not> ?w \<le> j"
    then have "unat j < i" using w by (simp add: word_le_nat_alt)
    then have "Level_empty (pq_levels q ! unat j)" using below by blast
    with empty [of j] that pq_inv_index [OF assms(1) that] show False by blast
  qed
  have "pq_inv (q\<lparr>pq_levels := (pq_levels q)[unat ?w := Iterator_begin ?l],
      pq_writableStreamsToLevel := pq_writableStreamsToLevel q\<rparr>)"
    using Iterator_begin_inv [OF lv(1)] lv(3) assms(1)
    by (intro pq_inv_change) (auto simp: w i16 level_ids_def pq_inv_def)
  then have "pq_inv (q\<lparr>pq_levels := (pq_levels q)[i := Iterator_begin ?l]\<rparr>)" by (simp add: w)
  with i x member least show ?thesis by (auto simp: getNextScheduledStream_def Let_def)
qed

text \<open>Round robin: forced steps of the incremental iterator walk through the bucket in order
  and wrap around.\<close>

primrec iterate_next :: "nat \<Rightarrow> Level \<Rightarrow> Level option" where
  "iterate_next 0 l = Some l"
| "iterate_next (Suc n) l = Option.bind (iterate_next n l) (Iterator_next True)"

lemma iterate_next_nth:
  assumes "level_inv l" and "lv_incremental l" and "i < length (lv_streams l)"
    and "lv_nextStreamIt l = Some (lv_streams l ! i)"
  shows "\<exists>l'. iterate_next n l = Some l' \<and> lv_streams l' = lv_streams l \<and> lv_incremental l'
     \<and> lv_nextStreamIt l' = Some (lv_streams l ! ((i + n) mod length (lv_streams l)))"
proof (induction n)
  case 0
  then show ?case using assms by simp
next
  case (Suc n)
  let ?s = "lv_streams l" and ?k = "(i + n) mod length (lv_streams l)"
  from Suc obtain l' where l': "iterate_next n l = Some l'" "lv_streams l' = ?s" "lv_incremental l'"
    "lv_nextStreamIt l' = Some (?s ! ?k)" by blast
  have k: "?k < length ?s" using assms(3) by (intro mod_less_divisor) auto
  have d: "distinct ?s" using assms(1) by (auto simp: level_inv_def intro: sorted_distinct)
  have step: "(i + Suc n) mod length ?s = (if Suc ?k < length ?s then Suc ?k else 0)"
    by (simp add: mod_Suc) (metis k Suc_lessI)
  have b: "oss_begin ?s = Some (?s ! 0)" using assms(3) by (cases ?s) (auto simp: oss_begin_def)
  show ?case
    using l' oss_next_nth [OF d k] step b by (auto simp: Iterator_next_def Let_def)
qed

section \<open>The interface\<close>

text \<open>What the stream manager and the packet scheduler rely on.\<close>

primrec drain :: "('q \<Rightarrow> (StreamId \<times> 'q) option) \<Rightarrow> (StreamId \<Rightarrow> 'q \<Rightarrow> 'q) \<Rightarrow> nat \<Rightarrow> 'q
    \<Rightarrow> (StreamId list \<times> 'q) option" where
  "drain next del 0 q = Some ([], q)"
| "drain next del (Suc n) q =
     (case next q of
        None \<Rightarrow> None
      | Some (sid, q1) \<Rightarrow>
          map_option (\<lambda>(sids, q2). (sid # sids, q2)) (drain next del n (del sid q1)))"

locale stream_scheduler =
  fixes inv :: "'q \<Rightarrow> bool" and members :: "'q \<Rightarrow> StreamId set"
    and ok :: "'q \<Rightarrow> StreamId \<Rightarrow> Priority \<Rightarrow> bool" and ins :: "StreamId \<Rightarrow> Priority \<Rightarrow> 'q \<Rightarrow> 'q"
    and del :: "StreamId \<Rightarrow> 'q \<Rightarrow> 'q" and is_empty :: "'q \<Rightarrow> bool"
    and next_stream :: "'q \<Rightarrow> (StreamId \<times> 'q) option"
  assumes ins_law: "inv q \<Longrightarrow> ok q sid pri \<Longrightarrow> inv (ins sid pri q) \<and> members (ins sid pri q) = insert sid (members q)"
    and del_law: "inv q \<Longrightarrow> inv (del sid q) \<and> members (del sid q) = members q - {sid}"
    and empty_law: "is_empty q \<longleftrightarrow> members q = {}"
    and next_law: "inv q \<Longrightarrow> members q \<noteq> {} \<Longrightarrow>
      \<exists>sid q'. next_stream q = Some (sid, q') \<and> sid \<in> members q \<and> inv q' \<and> members q' = members q"
    and finite_law: "inv q \<Longrightarrow> finite (members q)"
begin

text \<open>Serving a stream and taking it out, as often as there are streams, serves every
  stream exactly once.\<close>

lemma drain_all:
  assumes "inv q" and "card (members q) = n"
  shows "\<exists>sids q'. drain next_stream del n q = Some (sids, q') \<and> set sids = members q \<and> distinct sids
           \<and> inv q' \<and> is_empty q'"
  using assms
proof (induction n arbitrary: q)
  case 0
  then have "members q = {}" using finite_law by simp
  with 0 show ?case by (simp add: empty_law)
next
  case (Suc n)
  then have "members q \<noteq> {}" by auto
  then obtain sid q1 where q1: "next_stream q = Some (sid, q1)" "sid \<in> members q" "inv q1"
    "members q1 = members q"
    using next_law [OF Suc.prems(1)] by blast
  have d: "inv (del sid q1)" "members (del sid q1) = members q - {sid}"
    using del_law [OF q1(3), of sid] q1(4) by auto
  have "card (members (del sid q1)) = n" using d(2) q1(2) Suc.prems by simp
  from Suc.IH [OF d(1) this] obtain sids q2 where
    "drain next_stream del n (del sid q1) = Some (sids, q2)" "set sids = members (del sid q1)"
    "distinct sids" "inv q2" "is_empty q2" by blast
  with q1 d show ?case by auto
qed

end

interpretation pq: stream_scheduler pq_inv "\<lambda>q. dom (pq_writableStreamsToLevel q)" order_ok
  insertOrUpdate pq_erase pq_empty getNextScheduledStream
proof unfold_locales
  fix q sid pri assume "pq_inv q" and "order_ok q sid pri"
  then show "pq_inv (insertOrUpdate sid pri q) \<and>
      dom (pq_writableStreamsToLevel (insertOrUpdate sid pri q)) =
        insert sid (dom (pq_writableStreamsToLevel q))"
    using insertOrUpdate_inv by auto
next
  fix q sid assume "pq_inv q"
  then show "pq_inv (pq_erase sid q) \<and>
      dom (pq_writableStreamsToLevel (pq_erase sid q)) = dom (pq_writableStreamsToLevel q) - {sid}"
    using pq_erase_inv by auto
next
  fix q show "pq_empty q \<longleftrightarrow> dom (pq_writableStreamsToLevel q) = {}" by (simp add: pq_empty_def)
next
  fix q assume q: "pq_inv q" "dom (pq_writableStreamsToLevel q) \<noteq> {}"
  then have "\<not> pq_empty q" by (simp add: pq_empty_def)
  from getNextScheduledStream_spec [OF q(1) this] show
    "\<exists>sid q'. getNextScheduledStream q = Some (sid, q') \<and> sid \<in> dom (pq_writableStreamsToLevel q)
       \<and> pq_inv q' \<and> dom (pq_writableStreamsToLevel q') = dom (pq_writableStreamsToLevel q)"
    by fastforce
next
  fix q assume "pq_inv q"
  then show "finite (dom (pq_writableStreamsToLevel q))" by (simp add: pq_inv_def)
qed

section \<open>Properties\<close>

text \<open>C10: The buckets and the stream index stay consistent: inserting or moving a stream
  keeps every stream in exactly the bucket its priority selects, and erasing removes it
  and nothing else. Erasing keeps the consistency without a condition. Inserting keeps it
  under \<open>order_ok\<close>: the bucket of the priority exists, and the stream does not come with order
  id 0 to a bucket that still remembers a positive order id of it, the case in which the code
  loses the consistency.\<close>

theorem priority_queue_consistent:
  assumes "pq_inv q" and "order_ok q sid pri"
  shows "pq_inv (insertOrUpdate sid pri q)
    \<and> pq_writableStreamsToLevel (insertOrUpdate sid pri q) =
        (pq_writableStreamsToLevel q)(sid \<mapsto> priority2index pri)
    \<and> pq_inv (pq_erase sid' q)
    \<and> pq_writableStreamsToLevel (pq_erase sid' q) = (pq_writableStreamsToLevel q)(sid' := None)"
  using insertOrUpdate_inv [OF assms] pq_erase_inv [OF assms(1)] by blast

theorem priority_queue_consistent_witness:
  "pq_inv (insertOrUpdate 4 kDefaultPriority PriorityQueue_init)"
proof -
  have "order_ok PriorityQueue_init 4 kDefaultPriority"
    using priority2index_make [of 3 True 0]
    by (simp add: order_ok_def kDefaultPriority_def PriorityQueue_init_def Level_make_def)
  with pq_inv_init show ?thesis using priority_queue_consistent by blast
qed

text \<open>C20: Strict priority: on a non-empty queue \<^verbatim>\<open>getNextScheduledStream\<close> always
  returns a queued stream, and no queued stream has a smaller bucket.\<close>

theorem scheduler_strict_priority:
  assumes "pq_inv q" and "\<not> pq_empty q"
  shows "\<exists>sid q' i. getNextScheduledStream q = Some (sid, q')
     \<and> pq_writableStreamsToLevel q sid = Some i
     \<and> (\<forall>sid' j. pq_writableStreamsToLevel q sid' = Some j \<longrightarrow> i \<le> j)
     \<and> pq_inv q' \<and> pq_writableStreamsToLevel q' = pq_writableStreamsToLevel q"
  using assms by (rule getNextScheduledStream_spec)

theorem scheduler_strict_priority_witness:
  "\<exists>sid q' i. getNextScheduledStream (insertOrUpdate 4 kDefaultPriority PriorityQueue_init) = Some (sid, q')
     \<and> pq_writableStreamsToLevel (insertOrUpdate 4 kDefaultPriority PriorityQueue_init) sid = Some i"
proof -
  let ?q = "insertOrUpdate 4 kDefaultPriority PriorityQueue_init"
  have "order_ok PriorityQueue_init 4 kDefaultPriority"
    using priority2index_make [of 3 True 0]
    by (simp add: order_ok_def kDefaultPriority_def PriorityQueue_init_def Level_make_def)
  from insertOrUpdate_inv [OF pq_inv_init this] have "pq_inv ?q" "\<not> pq_empty ?q"
    by (auto simp: pq_empty_def fun_eq_iff)
  with scheduler_strict_priority [of ?q] show ?thesis by blast
qed

text \<open>C21: Round robin: in an incremental bucket of \<open>n\<close> streams, \<open>k\<close> steps from the stream
  at position \<open>i\<close> lead to the one at position \<open>(i + k) mod n\<close>, so every stream is visited
  once before any is visited again.\<close>

theorem incremental_round_robin:
  assumes "level_inv l" and "lv_incremental l" and "i < length (lv_streams l)"
    and "lv_nextStreamIt l = Some (lv_streams l ! i)"
  shows "\<exists>l'. iterate_next k l = Some l' \<and> lv_streams l' = lv_streams l \<and> lv_incremental l'
     \<and> lv_nextStreamIt l' = Some (lv_streams l ! ((i + k) mod length (lv_streams l)))"
  using assms by (rule iterate_next_nth)

theorem incremental_round_robin_witness:
  "\<exists>l'. iterate_next 3 \<lparr>lv_streams = [\<lparr>os_streamId = 0, os_orderId = 0\<rparr>, \<lparr>os_streamId = 4, os_orderId = 0\<rparr>],
       lv_incremental = True, lv_streamToOrderId = Map.empty, lv_nextsSoFar = 0, lv_maxNextsPerStream = 1,
       lv_nextStreamIt = Some \<lparr>os_streamId = 0, os_orderId = 0\<rparr>, lv_startStreamIt = None\<rparr> = Some l'
     \<and> lv_nextStreamIt l' = Some \<lparr>os_streamId = 4, os_orderId = 0\<rparr>"
proof -
  have three: "3 mod Suc (Suc 0) = Suc 0" by (simp flip: numeral_2_eq_2)
  show ?thesis
    using three incremental_round_robin
      [of "\<lparr>lv_streams = [\<lparr>os_streamId = 0, os_orderId = 0\<rparr>, \<lparr>os_streamId = 4, os_orderId = 0\<rparr>],
         lv_incremental = True, lv_streamToOrderId = Map.empty, lv_nextsSoFar = 0, lv_maxNextsPerStream = 1,
         lv_nextStreamIt = Some \<lparr>os_streamId = 0, os_orderId = 0\<rparr>, lv_startStreamIt = None\<rparr>" 0 3]
    by (auto simp: level_inv_def getOrderedStream_def ordered_stream_cmp_def)
qed

text \<open>C22: Serving the scheduled stream and removing it, as many times as there are queued
  streams, serves every queued stream exactly once and empties the queue.\<close>

theorem scheduler_drains:
  assumes "pq_inv q" and "card (dom (pq_writableStreamsToLevel q)) = n"
  shows "\<exists>sids q'. drain getNextScheduledStream pq_erase n q = Some (sids, q')
     \<and> set sids = dom (pq_writableStreamsToLevel q) \<and> distinct sids \<and> pq_inv q' \<and> pq_empty q'"
  using assms by (rule pq.drain_all)

theorem scheduler_drains_witness:
  "\<exists>sids q'. drain getNextScheduledStream pq_erase 1
       (insertOrUpdate 4 kDefaultPriority PriorityQueue_init) = Some (sids, q')
     \<and> set sids = {4} \<and> pq_empty q'"
proof -
  let ?q = "insertOrUpdate 4 kDefaultPriority PriorityQueue_init"
  have "order_ok PriorityQueue_init 4 kDefaultPriority"
    using priority2index_make [of 3 True 0]
    by (simp add: order_ok_def kDefaultPriority_def PriorityQueue_init_def Level_make_def)
  from insertOrUpdate_inv [OF pq_inv_init this] have "pq_inv ?q" "dom (pq_writableStreamsToLevel ?q) = {4}"
    by (auto simp: PriorityQueue_init_def)
  with scheduler_drains [of ?q 1] show ?thesis by auto
qed

text \<open>A queue that remembers a positive order id of a stream that is not queued: queued again with
  order id 0, the stream is looked up under the remembered id and is not found.\<close>

lemma stale_erase:
  assumes "pq_inv q" and "pq_writableStreamsToLevel q sid = None"
    and "unat (priority2index pri) < kDefaultPriorityLevelsSize" and "pri_orderId pri = 0"
    and "lv_streamToOrderId (pq_levels q ! unat (priority2index pri)) sid = Some order" and "order \<noteq> 0"
  shows "pq_erase sid (insertOrUpdate sid pri q) =
    on_level (priority2index pri) (Level_insert sid 0) q"
proof -
  let ?i = "priority2index pri"
  let ?l = "pq_levels q ! unat ?i"
  have len: "length (pq_levels q) = 16" using assms(1) by (simp add: pq_inv_def)
  have "sid \<notin> level_ids ?l" using pq_inv_level(3) [OF assms(1,3)] assms(2) by simp
  then have "\<lparr>os_streamId = sid, os_orderId = order\<rparr> \<notin> set (lv_streams (Level_insert sid 0 ?l))"
    using assms(6) by (auto simp: level_ids_def Level_insert_def Let_def set_oss_insert image_iff)
  then have e: "eraseFromLevel sid (Level_insert sid 0 ?l) = Level_insert sid 0 ?l"
    using assms(5) by (simp add: eraseFromLevel_def Let_def getOrderedStream_def Level_insert_def)
  have "(pq_writableStreamsToLevel q)(sid := None) = pq_writableStreamsToLevel q" using assms(2) by auto
  then show ?thesis using assms(2-4) len e
    by (simp add: insertOrUpdate_def pq_erase_def on_level_def Let_def)
qed

text \<open>C29: A stream that was queued with a positive order id and erased leaves its order id
  behind, from any consistent queue that does not hold it. Queued again in the same bucket with
  order id 0, it can no longer be erased: the index forgets it while its bucket keeps it, and the
  queue is no longer consistent.\<close>

theorem stale_order_id_keeps_stream:
  assumes "pq_inv q" and "pq_writableStreamsToLevel q sid = None"
    and "unat (priority2index pri) < kDefaultPriorityLevelsSize" and "0 < pri_orderId pri"
    and "priority2index pri' = priority2index pri" and "pri_orderId pri' = 0"
    and "q' = pq_erase sid (insertOrUpdate sid pri' (pq_erase sid (insertOrUpdate sid pri q)))"
  shows "pq_writableStreamsToLevel q' = pq_writableStreamsToLevel q
    \<and> \<lparr>os_streamId = sid, os_orderId = 0\<rparr> \<in> set (lv_streams (pq_levels q' ! unat (priority2index pri)))
    \<and> \<not> pq_inv q'"
proof -
  let ?i = "priority2index pri" and ?q1 = "insertOrUpdate sid pri q"
  let ?q2 = "pq_erase sid ?q1"
  have q1: "pq_inv ?q1" "pq_writableStreamsToLevel ?q1 = (pq_writableStreamsToLevel q)(sid \<mapsto> ?i)"
    using insert_new_inv [OF assms(1,2), of pri] assms(3,4) by (auto simp: order_ok_def)
  have q2: "pq_inv ?q2" "pq_writableStreamsToLevel ?q2 = pq_writableStreamsToLevel q"
    using pq_erase_inv [OF q1(1), of sid] q1(2) assms(2) by auto
  have len: "length (pq_levels q) = 16" "length (pq_levels ?q2) = 16"
    using assms(1) q2(1) by (simp_all add: pq_inv_def)
  have "lv_streamToOrderId (pq_levels ?q2 ! unat ?i) sid = Some (pri_orderId pri)"
    using assms(2-4) len(1) by (simp add: insertOrUpdate_def pq_erase_def on_level_def Let_def Level_insert_def)
  then have q': "q' = on_level ?i (Level_insert sid 0) ?q2"
    using stale_erase [OF q2(1), of sid pri'] q2(2) assms(2-7) by simp
  then have kept: "\<lparr>os_streamId = sid, os_orderId = 0\<rparr> \<in> set (lv_streams (pq_levels q' ! unat ?i))"
    and same: "pq_writableStreamsToLevel q' = pq_writableStreamsToLevel q"
    using len(2) assms(3) q2(2) by (simp_all add: on_level_def Level_insert_def Let_def set_oss_insert)
  have "\<not> pq_inv q'"
  proof
    assume "pq_inv q'"
    from pq_inv_level(3) [OF this assms(3)] kept have "pq_writableStreamsToLevel q' sid = Some ?i"
      by (force simp: level_ids_def)
    then show False using same assms(2) by simp
  qed
  with kept same show ?thesis by blast
qed

theorem stale_order_id_keeps_stream_witness:
  "\<not> pq_inv (pq_erase 4 (insertOrUpdate 4 (Priority_make 3 True 0)
       (pq_erase 4 (insertOrUpdate 4 (Priority_make 3 True 7) PriorityQueue_init))))"
proof -
  have "priority2index (Priority_make 3 True 0) = 7" "priority2index (Priority_make 3 True 7) = 7"
    "pri_orderId (Priority_make 3 True 7) = 7" "pri_orderId (Priority_make 3 True 0) = 0"
    "pq_writableStreamsToLevel PriorityQueue_init 4 = None"
    by (simp_all add: priority2index_def Priority_make_def PriorityQueue_init_def)
  then show ?thesis
    using stale_order_id_keeps_stream [OF pq_inv_init, of 4 "Priority_make 3 True 7" "Priority_make 3 True 0"] by simp
qed

end
