(* ===== verification/Stream_Data.thy ===== *)
theory Stream_Data
  imports Buf_Queue Interval_Set Priority_Queue
begin

text \<open>
  The state of a stream, \<^verbatim>\<open>state/stream_data.h\<close>: what an application stream and a
  crypto stream share (\<^verbatim>\<open>QuicStreamLike\<close>, here a record that is extended), the
  stream proper, its predicates, and the bookkeeping of acknowledged and lost data.
  Members of type \<^verbatim>\<open>size_t\<close> that hold stream offsets are 64-bit words, as on the
  platforms the server runs on.
\<close>

section \<open>Data\<close>

record WriteBufferMeta =
  wbm_length :: u64
  wbm_offset :: u64
  wbm_eof :: bool

definition WriteBufferMeta_init :: WriteBufferMeta where
  "WriteBufferMeta_init = \<lparr>wbm_length = 0, wbm_offset = 0, wbm_eof = False\<rparr>"

text \<open>The split-off part and what remains.\<close>

definition wbm_split :: "WriteBufferMeta \<Rightarrow> u64 \<Rightarrow> WriteBufferMeta \<times> WriteBufferMeta" where
  "wbm_split m splitLen =
     (let splitEof = (splitLen = wbm_length m \<and> wbm_eof m)
      in (\<lparr>wbm_length = splitLen, wbm_offset = wbm_offset m, wbm_eof = splitEof\<rparr>,
          m\<lparr>wbm_offset := wbm_offset m + splitLen, wbm_length := wbm_length m - splitLen\<rparr>))"

record StreamBuffer =
  sb_data :: BufQueue
  sb_offset :: u64
  sb_eof :: bool

definition StreamBuffer_make :: "Buf \<Rightarrow> u64 \<Rightarrow> bool \<Rightarrow> StreamBuffer" where
  "StreamBuffer_make dataIn offsetIn eofIn =
     \<lparr>sb_data = bq_of_chain dataIn, sb_offset = offsetIn, sb_eof = eofIn\<rparr>"

text \<open>The offset behind the last byte, as the code computes it.\<close>

definition sb_end :: "StreamBuffer \<Rightarrow> u64" where
  "sb_end b = sb_offset b + of_nat (chainLength (sb_data b))"

record QuicStreamLike =
  readBuffer :: "StreamBuffer list"
  writeBuffer :: BufQueue
  retransmissionBuffer :: "u64 \<rightharpoonup> StreamBuffer"
  ackedIntervals :: IntervalSet
  lossBuffer :: "StreamBuffer list"
  currentWriteOffset :: u64
  minimumRetransmittableOffset :: u64
  currentReadOffset :: u64
  currentReceiveOffset :: u64
  maxOffsetObserved :: u64
  finalReadOffset :: "u64 option"
  numPacketsTxWithNewData :: u64

definition QuicStreamLike_init :: QuicStreamLike where
  "QuicStreamLike_init =
     \<lparr>readBuffer = [], writeBuffer = bq_empty_queue, retransmissionBuffer = Map.empty,
      ackedIntervals = IntervalSet_empty, lossBuffer = [], currentWriteOffset = 0,
      minimumRetransmittableOffset = 0, currentReadOffset = 0, currentReceiveOffset = 0,
      maxOffsetObserved = 0, finalReadOffset = None, numPacketsTxWithNewData = 0\<rparr>"

datatype StreamSendState = Send_Open | Send_ResetSent | Send_Closed | Send_Invalid

datatype StreamRecvState = Recv_Open | Recv_Closed | Recv_Invalid

record StreamFlowControlState =
  fcs_windowSize :: u64
  fcs_advertisedMaxOffset :: u64
  fcs_peerAdvertisedMaxOffset :: u64
  fcs_timeOfLastFlowControlUpdate :: "TimePoint option"

text \<open>The stream. \<open>dsrSender\<close> says whether the owned sender is present; its packets are not
  built here.\<close>

record QuicStreamState = QuicStreamLike +
  stream_id :: StreamId
  groupId :: "StreamGroupId option"
  finalWriteOffset :: "u64 option"
  flowControlState :: StreamFlowControlState
  streamReadError :: "QuicErrorCode option"
  streamWriteError :: "QuicErrorCode option"
  sendState :: StreamSendState
  recvState :: StreamRecvState
  isControl :: bool
  lastHolbTime :: "TimePoint option"
  totalHolbTime :: int
  holbCount :: u32
  priority :: Priority
  streamPacketIdx :: u64
  dsrSender :: bool
  writeBufMeta :: WriteBufferMeta
  retransmissionBufMetas :: "u64 \<rightharpoonup> WriteBufferMeta"
  lossBufMetas :: "WriteBufferMeta list"
  streamLossCount :: u64

section \<open>Predicates of a stream\<close>

definition inTerminalStates :: "QuicStreamState \<Rightarrow> bool" where
  "inTerminalStates s =
     (let sendInTerminalState = (sendState s = Send_Closed \<or> sendState s = Send_Invalid);
          recvInTerminalState = (recvState s = Recv_Closed \<or> recvState s = Recv_Invalid)
      in sendInTerminalState \<and> recvInTerminalState)"

definition writable :: "QuicStreamState \<Rightarrow> bool" where
  "writable s \<longleftrightarrow> sendState s = Send_Open \<and> finalWriteOffset s = None"

definition shouldSendFlowControl :: "QuicStreamState \<Rightarrow> bool" where
  "shouldSendFlowControl s \<longleftrightarrow> recvState s = Recv_Open"

definition hasWritableData :: "QuicStreamState \<Rightarrow> bool" where
  "hasWritableData s =
     (if \<not> bq_empty (writeBuffer s)
      then fcs_peerAdvertisedMaxOffset (flowControlState s) - currentWriteOffset s > 0
      else case finalWriteOffset s of
             Some fin \<Rightarrow> wbm_offset (writeBufMeta s) = 0 \<and> currentWriteOffset s \<le> fin
           | None \<Rightarrow> False)"

definition hasSchedulableData :: "QuicStreamState \<Rightarrow> bool" where
  "hasSchedulableData s \<longleftrightarrow> hasWritableData s \<or> lossBuffer s \<noteq> []"

definition hasWritableBufMeta :: "QuicStreamState \<Rightarrow> bool" where
  "hasWritableBufMeta s =
     (if wbm_offset (writeBufMeta s) = 0 then False
      else if wbm_length (writeBufMeta s) > 0
      then fcs_peerAdvertisedMaxOffset (flowControlState s) - wbm_offset (writeBufMeta s) > 0
      else case finalWriteOffset s of
             Some fin \<Rightarrow> wbm_offset (writeBufMeta s) \<le> fin
           | None \<Rightarrow> False)"

definition hasSchedulableDsr :: "QuicStreamState \<Rightarrow> bool" where
  "hasSchedulableDsr s \<longleftrightarrow> hasWritableBufMeta s \<or> lossBufMetas s \<noteq> []"

definition hasSentFIN :: "QuicStreamState \<Rightarrow> bool" where
  "hasSentFIN s =
     (case finalWriteOffset s of
        None \<Rightarrow> False
      | Some fin \<Rightarrow> currentWriteOffset s > fin \<or> wbm_offset (writeBufMeta s) > fin)"

definition hasLoss :: "QuicStreamState \<Rightarrow> bool" where
  "hasLoss s \<longleftrightarrow> lossBuffer s \<noteq> [] \<or> lossBufMetas s \<noteq> []"

definition nextOffsetToWrite :: "QuicStreamState \<Rightarrow> u64" where
  "nextOffsetToWrite s =
     (if wbm_offset (writeBufMeta s) = 0 then currentWriteOffset s
      else if \<not> bq_empty (writeBuffer s) then currentWriteOffset s
      else wbm_offset (writeBufMeta s))"

definition hasReadableData :: "QuicStreamState \<Rightarrow> bool" where
  "hasReadableData s \<longleftrightarrow>
     (readBuffer s \<noteq> [] \<and> currentReadOffset s = sb_offset (hd (readBuffer s)))
   \<or> finalReadOffset s = Some (currentReadOffset s)"

definition hasPeekableData :: "QuicStreamState \<Rightarrow> bool" where
  "hasPeekableData s \<longleftrightarrow> readBuffer s \<noteq> []"

section \<open>Acknowledged and lost data\<close>

definition updateAckedIntervals ::
    "u64 \<Rightarrow> u64 \<Rightarrow> bool \<Rightarrow> 'a QuicStreamLike_scheme \<Rightarrow> 'a QuicStreamLike_scheme result" where
  "updateAckedIntervals offset len eof s =
     (let lenAdjustment = (if eof then 0 else 1)
      in and_then (is_insert_range (ackedIntervals s) offset (offset + len - lenAdjustment))
           (\<lambda>iv. Inr (s\<lparr>ackedIntervals := iv\<rparr>)))"

text \<open>\<^verbatim>\<open>std::upper_bound\<close> by offset.\<close>

definition upper_bound_by :: "('a \<Rightarrow> u64) \<Rightarrow> u64 \<Rightarrow> 'a list \<Rightarrow> nat" where
  "upper_bound_by key offset xs = lower_bound (\<lambda>x. \<not> offset < key x) xs"

definition insert_loss :: "StreamBuffer \<Rightarrow> StreamBuffer list \<Rightarrow> StreamBuffer list" where
  "insert_loss buf losses =
     (let lossItr = upper_bound_by sb_offset (sb_offset buf) losses
      in if losses \<noteq> [] \<and> lossItr \<noteq> 0 \<and> sb_end (losses ! (lossItr - 1)) = sb_offset buf
         then losses[lossItr - 1 := (losses ! (lossItr - 1))
                \<lparr>sb_data := bq_append (sb_data (losses ! (lossItr - 1))) (fst (bq_move (sb_data buf))),
                 sb_eof := sb_eof buf\<rparr>]
         else insert_at lossItr buf losses)"

definition insertIntoLossBuffer ::
    "StreamBuffer \<Rightarrow> 'a QuicStreamLike_scheme \<Rightarrow> 'a QuicStreamLike_scheme" where
  "insertIntoLossBuffer buf s = s\<lparr>lossBuffer := insert_loss buf (lossBuffer s)\<rparr>"

text \<open>
  One loss buffer that contains the removed range or lies inside it: the part before the
  range is split off, the range is trimmed, and what is left stays unless it is empty with
  the same end marker. The split-off part is inserted again.
\<close>

definition remove_loss_at ::
    "u64 \<Rightarrow> nat \<Rightarrow> bool \<Rightarrow> nat \<Rightarrow> StreamBuffer list \<Rightarrow> StreamBuffer list" where
  "remove_loss_at offset len eof i losses =
     (let b = losses ! i;
          lossStartOffset = sb_offset b;
          amountToSplit = (if offset > lossStartOffset then offset - lossStartOffset else 0);
          (splitBuf, b1) =
            (if amountToSplit > 0
             then let (buf, rest) = splitAtMost (sb_data b) (unat amountToSplit)
                  in (Some buf, b\<lparr>sb_data := rest, sb_offset := sb_offset b + amountToSplit\<rparr>)
             else (None, b));
          (trimmed, rest) = trimStartAtMost (sb_data b1) len;
          b2 = b1\<lparr>sb_data := rest, sb_offset := sb_offset b1 + of_nat trimmed\<rparr>;
          losses1 = (if bq_empty (sb_data b2) \<and> sb_eof b2 = eof
                     then erase_range i (i + 1) losses else losses[i := b2])
      in case splitBuf of
           None \<Rightarrow> losses1
         | Some buf \<Rightarrow> insert_loss (StreamBuffer_make buf lossStartOffset False) losses1)"

text \<open>The search for that buffer, from position \<open>i\<close> on.\<close>

fun remove_loss_walk ::
    "u64 \<Rightarrow> nat \<Rightarrow> bool \<Rightarrow> nat \<Rightarrow> StreamBuffer list \<Rightarrow> StreamBuffer list \<Rightarrow> StreamBuffer list" where
  "remove_loss_walk offset len eof i [] losses = losses"
| "remove_loss_walk offset len eof i (b # bs) losses =
     (let lossStartOffset = sb_offset b;
          lossEndOffset = sb_end b;
          removedStartOffset = offset;
          removedEndOffset = offset + of_nat len
      in if lossStartOffset > removedEndOffset then losses
         else if (removedStartOffset \<ge> lossStartOffset \<and> removedEndOffset \<le> lossEndOffset)
               \<or> (lossStartOffset \<ge> removedStartOffset \<and> lossEndOffset \<le> removedEndOffset)
         then remove_loss_at offset len eof i losses
         else remove_loss_walk offset len eof (i + 1) bs losses)"

definition removeFromLossBuffer ::
    "u64 \<Rightarrow> nat \<Rightarrow> bool \<Rightarrow> 'a QuicStreamLike_scheme \<Rightarrow> 'a QuicStreamLike_scheme" where
  "removeFromLossBuffer offset len eof s =
     (if lossBuffer s = [] \<or> len = 0 then s
      else s\<lparr>lossBuffer := remove_loss_walk offset len eof 0 (lossBuffer s) (lossBuffer s)\<rparr>)"

definition insert_loss_meta :: "WriteBufferMeta \<Rightarrow> WriteBufferMeta list \<Rightarrow> WriteBufferMeta list" where
  "insert_loss_meta bufMeta metas =
     (let lossItr = upper_bound_by wbm_offset (wbm_offset bufMeta) metas; p = metas ! (lossItr - 1)
      in if metas \<noteq> [] \<and> lossItr \<noteq> 0 \<and> wbm_offset p + wbm_length p = wbm_offset bufMeta
         then metas[lossItr - 1 := p\<lparr>wbm_length := wbm_length p + wbm_length bufMeta,
                                     wbm_eof := wbm_eof bufMeta\<rparr>]
         else insert_at lossItr bufMeta metas)"

definition insertIntoLossBufMeta :: "WriteBufferMeta \<Rightarrow> QuicStreamState \<Rightarrow> QuicStreamState" where
  "insertIntoLossBufMeta bufMeta s = s\<lparr>lossBufMetas := insert_loss_meta bufMeta (lossBufMetas s)\<rparr>"

section \<open>Buffers as ranges of a byte stream\<close>

text \<open>
  The first and the past-the-end offset of a buffer as numbers, and when a buffer holds the
  bytes that a given stream of bytes \<open>T\<close> has there.
\<close>

definition sb_lo :: "StreamBuffer \<Rightarrow> nat" where "sb_lo b = unat (sb_offset b)"

definition sb_hi :: "StreamBuffer \<Rightarrow> nat" where "sb_hi b = sb_lo b + length (bq_bytes (sb_data b))"

definition sb_range :: "StreamBuffer \<Rightarrow> nat set" where "sb_range b = {sb_lo b ..< sb_hi b}"

definition bufs_range :: "StreamBuffer list \<Rightarrow> nat set" where
  "bufs_range bs = (\<Union>b \<in> set bs. sb_range b)"

definition sb_holds :: "(nat \<Rightarrow> u8) \<Rightarrow> StreamBuffer \<Rightarrow> bool" where
  "sb_holds T b \<longleftrightarrow> bq_inv (sb_data b) \<and> sb_hi b < 2 ^ 64
     \<and> bq_bytes (sb_data b) = map T [sb_lo b ..< sb_hi b]"

lemma bufs_range_simps [simp]:
  "bufs_range [] = {}"
  "bufs_range (b # bs) = sb_range b \<union> bufs_range bs"
  "bufs_range (bs @ cs) = bufs_range bs \<union> bufs_range cs"
  by (auto simp: bufs_range_def)

lemma sb_lo_le_hi: "sb_lo b \<le> sb_hi b"
  by (simp add: sb_hi_def)

lemma length_holds: "sb_holds T b \<Longrightarrow> length (bq_bytes (sb_data b)) = sb_hi b - sb_lo b"
  by (simp add: sb_hi_def)

lemma chainLength_holds: "sb_holds T b \<Longrightarrow> chainLength (sb_data b) = sb_hi b - sb_lo b"
  by (simp add: sb_holds_def bq.len_contents sb_hi_def)

lemma unat_sb_end: "sb_holds T b \<Longrightarrow> unat (sb_end b) = sb_hi b"
proof -
  assume b: "sb_holds T b"
  then have "sb_lo b + (sb_hi b - sb_lo b) < 2 ^ 64"
    using sb_lo_le_hi [of b] by (simp add: sb_holds_def)
  then show ?thesis
    using unat_offset_no_wrap [of "sb_offset b" "sb_hi b - sb_lo b"] sb_lo_le_hi [of b]
    by (simp add: sb_end_def chainLength_holds [OF b] flip: sb_lo_def)
qed

text \<open>What the queue operations do to a range.\<close>

lemma holds_trim:
  assumes "sb_holds T b" and "n \<le> sb_hi b - sb_lo b" and "off = sb_offset b + of_nat n"
  shows "sb_holds T (b\<lparr>sb_data := snd (trimStartAtMost (sb_data b) n), sb_offset := off\<rparr>)
    \<and> sb_lo (b\<lparr>sb_data := snd (trimStartAtMost (sb_data b) n), sb_offset := off\<rparr>) = sb_lo b + n
    \<and> sb_hi (b\<lparr>sb_data := snd (trimStartAtMost (sb_data b) n), sb_offset := off\<rparr>) = sb_hi b"
proof -
  let ?b = "b\<lparr>sb_data := snd (trimStartAtMost (sb_data b) n), sb_offset := off\<rparr>"
  have lo: "sb_lo ?b = sb_lo b + n"
  proof -
    have "sb_lo b + n < 2 ^ 64"
      using assms(1,2) sb_lo_le_hi [of b] unfolding sb_holds_def by linarith
    then show ?thesis using assms(3) unat_offset_no_wrap [of "sb_offset b" n] by (simp add: sb_lo_def)
  qed
  moreover have hi: "sb_hi ?b = sb_hi b"
    unfolding sb_hi_def [of ?b] lo using assms sb_lo_le_hi [of b]
    by (simp add: bq.contents_trim length_holds)
  moreover have "bq_bytes (sb_data ?b) = map T [sb_lo b + n ..< sb_hi b]"
    using assms by (simp add: bq.contents_trim sb_holds_def drop_map)
  ultimately show ?thesis using assms(1) by (simp add: sb_holds_def bq.invar_trim)
qed

lemma upt_append: "i \<le> j \<Longrightarrow> j \<le> k \<Longrightarrow> [i..<k] = [i..<j] @ [j..<k]"
  by (metis le_add_diff_inverse upt_add_eq_append)

lemma holds_append:
  assumes "sb_holds T b" and "bq_bytes q = map T [sb_hi b ..< k]" and "sb_hi b \<le> k" and "k < 2 ^ 64"
  shows "sb_holds T (b\<lparr>sb_data := bq_append (sb_data b) (fst (bq_move q)), sb_eof := e\<rparr>)
    \<and> sb_lo (b\<lparr>sb_data := bq_append (sb_data b) (fst (bq_move q)), sb_eof := e\<rparr>) = sb_lo b
    \<and> sb_hi (b\<lparr>sb_data := bq_append (sb_data b) (fst (bq_move q)), sb_eof := e\<rparr>) = k"
proof -
  let ?b = "b\<lparr>sb_data := bq_append (sb_data b) (fst (bq_move q)), sb_eof := e\<rparr>"
  have lo: "sb_lo ?b = sb_lo b" by (simp add: sb_lo_def)
  have bytes: "bq_bytes (sb_data ?b) = map T [sb_lo b ..< k]"
    using assms upt_append [of "sb_lo b" "sb_hi b" k] sb_lo_le_hi [of b]
    by (simp add: bq.move_append sb_holds_def)
  then have "sb_hi ?b = k" unfolding sb_hi_def [of ?b] lo using assms(3) sb_lo_le_hi [of b] by simp
  with lo bytes assms(1,4) show ?thesis by (simp add: sb_holds_def bq.invar_append)
qed

lemma holds_split:
  assumes "sb_holds T b" and "n \<le> sb_hi b - sb_lo b" and "off = sb_offset b + of_nat n"
  shows "sb_holds T (b\<lparr>sb_data := snd (splitAtMost (sb_data b) n), sb_offset := off\<rparr>)"
    and "sb_lo (b\<lparr>sb_data := snd (splitAtMost (sb_data b) n), sb_offset := off\<rparr>) = sb_lo b + n"
    and "sb_hi (b\<lparr>sb_data := snd (splitAtMost (sb_data b) n), sb_offset := off\<rparr>) = sb_hi b"
    and "sb_holds T (StreamBuffer_make (fst (splitAtMost (sb_data b) n)) (sb_offset b) e)"
    and "sb_lo (StreamBuffer_make (fst (splitAtMost (sb_data b) n)) (sb_offset b) e) = sb_lo b"
    and "sb_hi (StreamBuffer_make (fst (splitAtMost (sb_data b) n)) (sb_offset b) e) = sb_lo b + n"
proof -
  let ?r = "b\<lparr>sb_data := snd (splitAtMost (sb_data b) n), sb_offset := off\<rparr>"
    and ?l = "StreamBuffer_make (fst (splitAtMost (sb_data b) n)) (sb_offset b) e"
  have inv: "bq_inv (sb_data b)" and bytes: "bq_bytes (sb_data b) = map T [sb_lo b ..< sb_hi b]"
    and top: "sb_hi b < 2 ^ 64" using assms(1) by (auto simp: sb_holds_def)
  have le: "sb_lo b + n \<le> sb_hi b" using assms(2) sb_lo_le_hi [of b] by linarith
  show lo: "sb_lo ?r = sb_lo b + n"
    using assms(3) le top unat_offset_no_wrap [of "sb_offset b" n] by (simp add: sb_lo_def)
  have rb: "bq_bytes (sb_data ?r) = map T [sb_lo b + n ..< sb_hi b]"
    using inv bytes by (simp add: bq.contents_split drop_map)
  show hi: "sb_hi ?r = sb_hi b" unfolding sb_hi_def [of ?r] lo using le rb by simp
  show "sb_holds T ?r" using inv rb lo hi top by (simp add: sb_holds_def bq.invar_split)
  show llo: "sb_lo ?l = sb_lo b" by (simp add: sb_lo_def StreamBuffer_make_def)
  have lb: "bq_bytes (sb_data ?l) = map T [sb_lo b ..< sb_lo b + n]"
    using inv bytes le by (simp add: StreamBuffer_make_def bq.contents_of_buf bq.buf_split take_map take_upt)
  show lhi: "sb_hi ?l = sb_lo b + n" unfolding sb_hi_def [of ?l] llo using lb by simp
  show "sb_holds T ?l"
    using lb llo lhi le top by (simp add: sb_holds_def) (simp add: StreamBuffer_make_def bq.invar_of_buf)
qed

end
