(* ===== verification/Loss_Buffer.thy ===== *)
theory Loss_Buffer
  imports Stream_Data
begin

text \<open>
  The loss buffer of a stream (\<^verbatim>\<open>insertIntoLossBuffer\<close> and
  \<^verbatim>\<open>removeFromLossBuffer\<close> of \<^verbatim>\<open>state/stream_data.h\<close>): lost stream data
  waiting to be sent again, kept as sorted disjoint buffers. Inserting adds a range, removing
  an acknowledged range takes exactly that range out, and the bytes that stay are the bytes
  that were written.
\<close>

section \<open>Invariant\<close>

definition sb_before :: "StreamBuffer \<Rightarrow> StreamBuffer \<Rightarrow> bool" where
  "sb_before a b \<longleftrightarrow> sb_hi a \<le> sb_lo b \<and> sb_lo a < sb_lo b"

definition loss_inv :: "(nat \<Rightarrow> u8) \<Rightarrow> StreamBuffer list \<Rightarrow> bool" where
  "loss_inv T bs \<longleftrightarrow> sorted_wrt sb_before bs \<and> (\<forall>b \<in> set bs. sb_holds T b)"

lemma loss_inv_append [simp]:
  "loss_inv T (as @ bs) \<longleftrightarrow> loss_inv T as \<and> loss_inv T bs \<and> (\<forall>a \<in> set as. \<forall>b \<in> set bs. sb_before a b)"
  by (auto simp: loss_inv_def sorted_wrt_append)

lemma loss_inv_Cons [simp]:
  "loss_inv T (b # bs) \<longleftrightarrow> sb_holds T b \<and> loss_inv T bs \<and> (\<forall>c \<in> set bs. sb_before b c)"
  by (auto simp: loss_inv_def)

lemma loss_inv_Nil [simp]: "loss_inv T []"
  by (simp add: loss_inv_def)

section \<open>Insertion\<close>

lemma upper_bound_split:
  assumes "sorted_wrt sb_before bs"
  obtains as cs where "bs = as @ cs" and "upper_bound_by sb_offset off bs = length as"
    and "\<forall>a \<in> set as. sb_lo a \<le> unat off" and "\<forall>c \<in> set cs. unat off < sb_lo c"
proof -
  let ?p = "\<lambda>x. \<not> off < sb_offset x"
  define as where "as = takeWhile ?p bs"
  define cs where "cs = dropWhile ?p bs"
  have split: "bs = as @ cs" by (simp add: as_def cs_def)
  have as: "\<forall>a \<in> set as. ?p a" by (auto simp: as_def dest: set_takeWhileD)
  have cs: "\<forall>c \<in> set cs. \<not> ?p c"
  proof (cases cs)
    case (Cons c ct)
    then have "off < sb_offset c" unfolding cs_def by (metis hd_dropWhile list.distinct(1) list.sel(1))
    moreover have "\<forall>d \<in> set ct. sb_offset c < sb_offset d"
      using assms split Cons by (simp add: sorted_wrt_append sb_before_def sb_lo_def word_less_nat_alt)
    ultimately show ?thesis using Cons by auto
  qed simp
  have "upper_bound_by sb_offset off bs = length as"
    unfolding upper_bound_by_def using lower_bound_partition [OF split] as cs by blast
  then show thesis
    using that [OF split] as cs by (simp add: sb_lo_def word_less_nat_alt not_less not_le)
qed

lemma insert_loss_correct:
  assumes "loss_inv T bs" and "sb_holds T b"
    and "\<forall>a \<in> set bs. sb_before a b \<or> sb_before b a"
  shows "loss_inv T (insert_loss b bs) \<and> bufs_range (insert_loss b bs) = bufs_range bs \<union> sb_range b"
proof -
  obtain as cs where sp: "bs = as @ cs" "upper_bound_by sb_offset (sb_offset b) bs = length as"
    "\<forall>a \<in> set as. sb_lo a \<le> sb_lo b" "\<forall>c \<in> set cs. sb_lo b < sb_lo c"
    using upper_bound_split [of bs "sb_offset b"] assms(1) unfolding loss_inv_def sb_lo_def by blast
  have as: "\<forall>a \<in> set as. sb_before a b" and cs: "\<forall>c \<in> set cs. sb_before b c"
  proof -
    show "\<forall>a \<in> set as. sb_before a b"
    proof
      fix a assume "a \<in> set as"
      then have "sb_before a b \<or> sb_before b a" "sb_lo a \<le> sb_lo b" using assms(3) sp(1,3) by auto
      then show "sb_before a b" by (auto simp: sb_before_def)
    qed
    show "\<forall>c \<in> set cs. sb_before b c"
    proof
      fix c assume "c \<in> set cs"
      then have "sb_before c b \<or> sb_before b c" "sb_lo b < sb_lo c" using assms(3) sp(1,4) by auto
      then show "sb_before b c" by (auto simp: sb_before_def)
    qed
  qed
  show ?thesis
  proof (cases "as \<noteq> [] \<and> sb_end (last as) = sb_offset b")
    case False
    then have guard: "\<not> (bs \<noteq> [] \<and> length as \<noteq> 0 \<and> sb_end (bs ! (length as - 1)) = sb_offset b)"
      unfolding sp(1) by (cases as rule: rev_cases) (simp_all add: nth_append)
    have "insert_loss b bs = insert_at (length as) b bs"
      unfolding insert_loss_def sp(2) Let_def using guard by (simp only: if_False)
    then have "insert_loss b bs = as @ b # cs" unfolding sp(1) by (simp add: insert_at_def)
    moreover have "loss_inv T (as @ b # cs)"
      using assms(1,2) as cs unfolding sp(1) by simp
    ultimately show ?thesis by (simp add: sp(1) Un_ac)
  next
    case True
    then obtain at a where a: "as = at @ [a]" by (metis append_butlast_last_id)
    let ?m = "a\<lparr>sb_data := bq_append (sb_data a) (fst (bq_move (sb_data b))), sb_eof := sb_eof b\<rparr>"
    have ins: "insert_loss b bs = at @ ?m # cs"
      using True unfolding insert_loss_def sp(2) Let_def by (simp add: sp(1) a list_update_append)
    have h: "sb_holds T a" using assms(1) by (simp add: sp(1) a)
    have eq: "sb_hi a = sb_lo b" using True a unat_sb_end [OF h] by (simp add: sb_lo_def)
    have m: "sb_holds T ?m \<and> sb_lo ?m = sb_lo a \<and> sb_hi ?m = sb_hi b"
      using assms(2) eq sb_lo_le_hi [of b] by (intro holds_append [OF h]) (auto simp: sb_holds_def)
    have "sb_range ?m = sb_range a \<union> sb_range b"
      using m eq sb_lo_le_hi [of a] sb_lo_le_hi [of b] by (auto simp: sb_range_def)
    then have range: "bufs_range (insert_loss b bs) = bufs_range bs \<union> sb_range b"
      unfolding ins unfolding sp(1) a by auto
    have "\<forall>c \<in> set cs. sb_before ?m c"
      using m cs assms(1) unfolding sb_before_def sp(1) a by (auto simp: sb_before_def)
    moreover have "\<forall>x \<in> set at. sb_before x ?m"
      using m assms(1) unfolding sp(1) a by (auto simp: sb_before_def)
    ultimately have "loss_inv T (at @ ?m # cs)" using assms(1) m unfolding sp(1) a by simp
    with range ins show ?thesis by simp
  qed
qed

section \<open>Removal\<close>

text \<open>The buffer that holds the acknowledged range is cut in two around it.\<close>

lemma remove_loss_at_correct:
  assumes inv: "loss_inv T (as @ b # cs)" and len: "0 < len"
    and range: "sb_lo b \<le> unat off" "unat off + len \<le> sb_hi b"
    and fin: "unat off + len = sb_hi b \<Longrightarrow> sb_eof b = eof \<or> cs = []"
  shows "loss_inv T (remove_loss_at off len eof (length as) (as @ b # cs))
    \<and> bufs_range (remove_loss_at off len eof (length as) (as @ b # cs)) =
        bufs_range (as @ b # cs) - {unat off ..< unat off + len}"
proof -
  define n where "n = unat off - sb_lo b"
  have h: "sb_holds T b" using inv by simp
  define b1 where "b1 = (if 0 < n then b\<lparr>sb_data := snd (splitAtMost (sb_data b) n), sb_offset := sb_offset b + of_nat n\<rparr> else b)"
  define b2 where "b2 = b1\<lparr>sb_data := snd (trimStartAtMost (sb_data b1) len), sb_offset := sb_offset b1 + of_nat len\<rparr>"
  define l where "l = StreamBuffer_make (fst (splitAtMost (sb_data b) n)) (sb_offset b) False"
  define keep where "keep = (if bq_empty (sb_data b2) \<and> sb_eof b2 = eof then [] else [b2])"
  have amount: "off > sb_offset b \<longleftrightarrow> 0 < n" "unat (off - sb_offset b) = n"
    using range(1) by (auto simp: n_def sb_lo_def word_less_nat_alt unat_sub_no_wrap)
  have b1: "sb_holds T b1" "sb_lo b1 = sb_lo b + n" "sb_hi b1 = sb_hi b"
    using holds_split(1-3) [OF h _ refl, of n] h range len by (auto simp: b1_def n_def)
  have b2: "sb_holds T b2" "sb_lo b2 = unat off + len" "sb_hi b2 = sb_hi b"
    using holds_trim [OF b1(1) _ refl, of len] b1 range by (auto simp: b2_def n_def)
  have l: "0 < n \<Longrightarrow> sb_holds T l" "sb_lo l = sb_lo b" "sb_hi l = unat off"
    using holds_split(4-6) [OF h _ refl, of n False] range len by (auto simp: l_def n_def)
  have nth: "(as @ b # cs) ! length as = b" by simp
  have trimmed: "fst (trimStartAtMost (sb_data b1) len) = len"
    using b1 range length_holds [OF b1(1)] by (simp add: bq.count_trim n_def)
  have offn: "off - sb_offset b = of_nat n"
  proof -
    have "of_nat (unat (off - sb_offset b)) = off - sb_offset b" by simp
    then show ?thesis unfolding amount(2) by simp
  qed
  have unf: "remove_loss_at off len eof (length as) (as @ b # cs) =
      (if 0 < n then insert_loss l (as @ keep @ cs) else as @ keep @ cs)"
  proof (cases "0 < n")
    case True
    then have g: "off > sb_offset b" "off - sb_offset b > 0" using amount by (auto simp: word_greater_zero_iff)
    obtain buf rest where sp: "splitAtMost (sb_data b) n = (buf, rest)" by fastforce
    have b1': "b\<lparr>sb_data := rest, sb_offset := sb_offset b + (off - sb_offset b)\<rparr> = b1"
      using True sp offn by (simp add: b1_def)
    show ?thesis
      unfolding remove_loss_at_def Let_def nth
      using g True sp trimmed
      by (simp only: if_True amount(2) prod.case b1' split_def option.case fst_conv snd_conv
          b2_def [symmetric] l_def keep_def)
        (simp add: erase_range_def b2_def [symmetric])
  next
    case False
    then have "\<not> off > sb_offset b" using amount by simp
    moreover have "b1 = b" using False by (simp add: b1_def)
    ultimately show ?thesis
      unfolding remove_loss_at_def Let_def nth
      using False trimmed
      by (simp only: if_False if_True less_irrefl prod.case split_def option.case fst_conv snd_conv
          b2_def [symmetric] keep_def)
        (simp add: erase_range_def b2_def)
  qed
  have empty: "bq_empty (sb_data b2) \<longleftrightarrow> unat off + len = sb_hi b"
    using b2 length_holds [OF b2(1)] range(2) bq_empty_iff [of "sb_data b2"] by (auto simp: sb_holds_def)
  have keep: "bufs_range keep = {unat off + len ..< sb_hi b}"
    using empty b2 by (auto simp: keep_def sb_range_def)
  have after: "sb_before b2 c" if "c \<in> set cs" "b2 \<in> set keep" for c
  proof -
    have "sb_eof b2 = sb_eof b" by (simp add: b2_def b1_def)
    with that fin empty have "unat off + len \<noteq> sb_hi b"
      by (auto simp: keep_def split: if_splits)
    moreover have "sb_before b c" using inv that(1) by simp
    ultimately show ?thesis using b2 range by (simp add: sb_before_def)
  qed
  have invk: "loss_inv T (as @ keep @ cs)"
    using inv b2 len range after by (auto simp: keep_def sb_before_def)
  have l_apart: "\<forall>a \<in> set (as @ keep @ cs). sb_before a l \<or> sb_before l a" if "0 < n"
    using inv l b2 len range that by (auto simp: keep_def sb_before_def n_def)
  have l_range: "sb_range l = {sb_lo b ..< unat off}" using l by (simp add: sb_range_def)
  have removed: "bufs_range (as @ b # cs) - {unat off ..< unat off + len} =
      bufs_range as \<union> {sb_lo b ..< unat off} \<union> {unat off + len ..< sb_hi b} \<union> bufs_range cs"
  proof -
    have "x < sb_lo b" if "x \<in> bufs_range as" for x
      using that inv by (fastforce simp: bufs_range_def sb_range_def sb_before_def)
    moreover have "sb_hi b \<le> x" if "x \<in> bufs_range cs" for x
      using that inv by (fastforce simp: bufs_range_def sb_range_def sb_before_def)
    ultimately show ?thesis using range by (fastforce simp: sb_range_def)
  qed
  show ?thesis
  proof (cases "0 < n")
    case True
    from insert_loss_correct [OF invk l(1) [OF True] l_apart [OF True]] True keep l_range
    show ?thesis unfolding unf removed by auto
  next
    case False
    then have "{sb_lo b ..< unat off} = {}" by (simp add: n_def)
    with False invk keep show ?thesis unfolding unf removed by auto
  qed
qed

text \<open>The buffer that lies inside the acknowledged range is emptied.\<close>

lemma remove_loss_at_covered:
  assumes inv: "loss_inv T (as @ b # cs)" and top: "unat off + len < 2 ^ 64"
    and range: "unat off \<le> sb_lo b" "sb_hi b \<le> unat off + len"
    and fin: "sb_eof b = eof \<or> cs = []"
  shows "loss_inv T (remove_loss_at off len eof (length as) (as @ b # cs))
    \<and> bufs_range (remove_loss_at off len eof (length as) (as @ b # cs)) = bufs_range as \<union> bufs_range cs"
proof -
  let ?n = "sb_hi b - sb_lo b"
  define b2 where "b2 = b\<lparr>sb_data := snd (trimStartAtMost (sb_data b) len), sb_offset := sb_offset b + of_nat ?n\<rparr>"
  define keep where "keep = (if bq_empty (sb_data b2) \<and> sb_eof b2 = eof then [] else [b2])"
  have h: "sb_holds T b" using inv by simp
  have n: "length (bq_bytes (sb_data b)) = ?n" "?n \<le> len" using length_holds [OF h] range by auto
  have bytes: "bq_bytes (sb_data b2) = []" using n by (simp add: b2_def bq.contents_trim)
  have lo: "sb_lo b2 = sb_hi b" "sb_hi b2 = sb_hi b"
    using unat_offset_no_wrap [of "sb_offset b" ?n] h sb_lo_le_hi [of b] bytes
    by (auto simp: b2_def sb_lo_def sb_holds_def sb_hi_def)
  have holds: "sb_holds T b2" using h lo bytes by (simp add: sb_holds_def) (simp add: b2_def bq.invar_trim)
  have "fst (trimStartAtMost (sb_data b) len) = ?n" using n by (simp add: bq.count_trim)
  moreover have "\<not> off > sb_offset b" using range(1) by (simp add: sb_lo_def word_less_nat_alt)
  moreover have "(as @ b # cs) ! length as = b" by simp
  ultimately have unf: "remove_loss_at off len eof (length as) (as @ b # cs) = as @ keep @ cs"
    unfolding remove_loss_at_def Let_def keep_def b2_def
    by (simp only: if_False less_irrefl prod.case split_def option.case fst_conv snd_conv) (simp add: erase_range_def)
  have "cs = []" if "keep \<noteq> []"
    using that fin bytes holds bq_empty_iff [of "sb_data b2"] by (auto simp: keep_def b2_def sb_holds_def)
  then have "loss_inv T (as @ keep @ cs)"
    using inv holds lo sb_lo_le_hi [of b] by (cases "keep = []") (auto simp: keep_def sb_before_def split: if_splits)
  then show ?thesis unfolding unf using lo by (auto simp: keep_def sb_range_def)
qed

text \<open>The buffers that the walk stops at: the removed range lies inside the buffer, or the buffer
  inside the removed range.\<close>

definition touched :: "nat \<Rightarrow> nat \<Rightarrow> StreamBuffer \<Rightarrow> bool" where
  "touched off len b \<longleftrightarrow> sb_lo b \<le> off \<and> off + len \<le> sb_hi b \<or> off \<le> sb_lo b \<and> sb_hi b \<le> off + len"

lemma untouched_behind:
  assumes "sb_before a b" and "off + len < sb_lo a"
  shows "\<not> touched off len b"
  using assms sb_lo_le_hi [of b] by (auto simp: touched_def sb_before_def)

lemma remove_loss_walk_find:
  assumes "loss_inv T bs" and "unat off + len < 2 ^ 64" and "i = length pre" and "losses = pre @ bs"
  shows "case find (touched (unat off) len) bs of
      None \<Rightarrow> remove_loss_walk off len eof i bs losses = losses
    | Some b \<Rightarrow> \<exists>as cs. losses = as @ b # cs \<and> touched (unat off) len b
        \<and> remove_loss_walk off len eof i bs losses = remove_loss_at off len eof (length as) losses"
  using assms
proof (induction bs arbitrary: i pre)
  case (Cons b bs)
  have e: "unat (off + of_nat len) = unat off + len" using Cons.prems(2) by (intro unat_offset_no_wrap) simp
  have eb: "unat (sb_end b) = sb_hi b" using Cons.prems(1) unat_sb_end [of T b] by simp
  have past: "sb_offset b > off + of_nat len \<longleftrightarrow> unat off + len < sb_lo b"
    using e by (simp add: word_less_nat_alt sb_lo_def)
  have hit: "(off \<ge> sb_offset b \<and> off + of_nat len \<le> sb_end b) \<or> (sb_offset b \<ge> off \<and> sb_end b \<le> off + of_nat len)
      \<longleftrightarrow> touched (unat off) len b"
    using e eb by (simp add: word_le_nat_alt sb_lo_def touched_def)
  have turn: "remove_loss_walk off len eof i (b # bs) losses =
      (if unat off + len < sb_lo b then losses
       else if touched (unat off) len b then remove_loss_at off len eof i losses
       else remove_loss_walk off len eof (i + 1) bs losses)"
    by (simp only: remove_loss_walk.simps Let_def past hit)
  have ih: "case find (touched (unat off) len) bs of
      None \<Rightarrow> remove_loss_walk off len eof (i + 1) bs losses = losses
    | Some b \<Rightarrow> \<exists>as cs. losses = as @ b # cs \<and> touched (unat off) len b
        \<and> remove_loss_walk off len eof (i + 1) bs losses = remove_loss_at off len eof (length as) losses"
    using Cons.prems by (intro Cons.IH [of _ "pre @ [b]"]) auto
  show ?case
  proof (cases "unat off + len < sb_lo b")
    case True
    have "\<not> touched (unat off) len b" using True sb_lo_le_hi [of b] by (auto simp: touched_def)
    moreover have "find (touched (unat off) len) bs = None"
      using True Cons.prems(1) untouched_behind by (auto simp: find_None_iff)
    ultimately show ?thesis using True unfolding turn by simp
  next
    case False
    then show ?thesis using ih Cons.prems(3,4) unfolding turn
      by (cases "touched (unat off) len b") auto
  qed
qed simp

section \<open>Properties\<close>

text \<open>C19: Lost data is kept exactly: adding a lost range that does not overlap the loss
  buffer keeps the buffers sorted and disjoint, adds exactly that range, and every buffer
  still holds the bytes of the stream at its offsets.\<close>

theorem loss_buffer_insert:
  assumes "loss_inv T (lossBuffer s)" and "sb_holds T b"
    and "\<forall>a \<in> set (lossBuffer s). sb_before a b \<or> sb_before b a"
  shows "loss_inv T (lossBuffer (insertIntoLossBuffer b s))
    \<and> bufs_range (lossBuffer (insertIntoLossBuffer b s)) = bufs_range (lossBuffer s) \<union> sb_range b"
  using insert_loss_correct [OF assms] by (simp add: insertIntoLossBuffer_def)

theorem loss_buffer_insert_witness:
  "bufs_range (lossBuffer (insertIntoLossBuffer (StreamBuffer_make [[7, 8]] 4 False) QuicStreamLike_init)) = {4, 5}"
proof -
  let ?b = "StreamBuffer_make [[7, 8]] 4 False" and ?T = "\<lambda>n. if n = 4 then 7 else (8 :: u8)"
  have lo: "sb_lo ?b = 4" "sb_hi ?b = 6"
    by (simp_all add: sb_lo_def sb_hi_def StreamBuffer_make_def bq.contents_of_buf)
  have "sb_holds ?T ?b"
    by (simp add: sb_holds_def lo) (simp add: StreamBuffer_make_def bq.contents_of_buf bq.invar_of_buf upt_rec)
  then have r: "bufs_range (lossBuffer (insertIntoLossBuffer ?b QuicStreamLike_init)) =
      bufs_range (lossBuffer QuicStreamLike_init) \<union> sb_range ?b"
    by (intro loss_buffer_insert [of ?T, THEN conjunct2]) (auto simp: QuicStreamLike_init_def)
  have "bufs_range (lossBuffer QuicStreamLike_init) = {}" by (simp add: QuicStreamLike_init_def)
  moreover have "{4..<6} = {4, 5 :: nat}" by auto
  ultimately show ?thesis unfolding r by (simp add: sb_range_def lo)
qed

text \<open>C13: An acknowledgement of data that was already declared lost. The first buffer that
  holds the acknowledged range, or lies inside it, loses exactly the acknowledged bytes: a
  buffer around the range is split, a buffer inside the range goes, and the rest stays sorted,
  disjoint and byte for byte what the stream has there. Without such a buffer nothing changes.
  Only the first such buffer is worked on: removing the bytes 0 to 10 from buffers of the bytes
  2 to 5 and 7 to 9 leaves the second one. The range does not wrap, and where it reaches the end
  of the buffer the end-of-stream flags agree or the buffer is the last one, since otherwise the
  code leaves an empty buffer in front of the next one.\<close>

theorem loss_buffer_remove:
  assumes "loss_inv T (lossBuffer s)" and "0 < len" and "unat off + len < 2 ^ 64"
    and "\<And>b. find (touched (unat off) len) (lossBuffer s) = Some b \<Longrightarrow> sb_hi b \<le> unat off + len
      \<Longrightarrow> sb_eof b = eof \<or> b = last (lossBuffer s)"
  shows "loss_inv T (lossBuffer (removeFromLossBuffer off len eof s))
    \<and> (case find (touched (unat off) len) (lossBuffer s) of
         None \<Rightarrow> removeFromLossBuffer off len eof s = s
       | Some b \<Rightarrow> bufs_range (lossBuffer (removeFromLossBuffer off len eof s)) =
           bufs_range (lossBuffer s) - {unat off ..< unat off + len} \<inter> sb_range b)"
proof (cases "find (touched (unat off) len) (lossBuffer s)")
  case None
  have "removeFromLossBuffer off len eof s = s"
    using remove_loss_walk_find [OF assms(1,3), of 0 "[]" _ eof] None by (simp add: removeFromLossBuffer_def)
  then show ?thesis using None assms(1) by simp
next
  case (Some b)
  obtain as cs where sp: "lossBuffer s = as @ b # cs" and hit: "touched (unat off) len b"
    and walk: "remove_loss_walk off len eof 0 (lossBuffer s) (lossBuffer s) =
      remove_loss_at off len eof (length as) (lossBuffer s)"
    using remove_loss_walk_find [OF assms(1,3), of 0 "[]" _ eof] Some by auto
  have inv: "loss_inv T (as @ b # cs)" using assms(1) sp by simp
  have "cs = []" if "b = last (lossBuffer s)"
    using that inv sp by (cases cs rule: rev_cases) (auto simp: sb_before_def)
  then have fin: "sb_hi b \<le> unat off + len \<Longrightarrow> sb_eof b = eof \<or> cs = []" using assms(4) Some by blast
  have res: "lossBuffer (removeFromLossBuffer off len eof s) = remove_loss_at off len eof (length as) (as @ b # cs)"
    using walk assms(2) by (simp add: removeFromLossBuffer_def sp)
  have apart: "x \<notin> sb_range b" if "x \<in> bufs_range as \<union> bufs_range cs" for x
    using that inv by (fastforce simp: bufs_range_def sb_range_def sb_before_def)
  have "loss_inv T (remove_loss_at off len eof (length as) (as @ b # cs))
    \<and> bufs_range (remove_loss_at off len eof (length as) (as @ b # cs)) =
        bufs_range (as @ b # cs) - {unat off ..< unat off + len} \<inter> sb_range b"
  proof (cases "sb_lo b \<le> unat off \<and> unat off + len \<le> sb_hi b")
    case True
    then have "{unat off ..< unat off + len} \<inter> sb_range b = {unat off ..< unat off + len}" by (auto simp: sb_range_def)
    then show ?thesis using remove_loss_at_correct [OF inv assms(2)] True fin by simp
  next
    case False
    then have c: "unat off \<le> sb_lo b" "sb_hi b \<le> unat off + len" using hit by (auto simp: touched_def)
    then have "{unat off ..< unat off + len} \<inter> sb_range b = sb_range b" by (auto simp: sb_range_def)
    moreover have "bufs_range (as @ b # cs) - sb_range b = bufs_range as \<union> bufs_range cs" using apart by auto
    ultimately show ?thesis using remove_loss_at_covered [OF inv assms(3) c fin [OF c(2)]] by simp
  qed
  then show ?thesis using Some res by (simp only: sp option.case)
qed

theorem loss_buffer_remove_witness:
  "bufs_range (lossBuffer (removeFromLossBuffer 5 1 False
     (QuicStreamLike_init\<lparr>lossBuffer := [StreamBuffer_make [[7, 8, 8]] 4 False]\<rparr>))) = {4, 6}"
proof -
  let ?b = "StreamBuffer_make [[7, 8, 8]] 4 False" and ?T = "\<lambda>n. if n = 4 then 7 else (8 :: u8)"
  let ?s = "QuicStreamLike_init\<lparr>lossBuffer := [?b]\<rparr>"
  have lo: "sb_lo ?b = 4" "sb_hi ?b = 7"
    by (simp_all add: sb_lo_def sb_hi_def StreamBuffer_make_def bq.contents_of_buf)
  have "sb_holds ?T ?b"
    by (simp add: sb_holds_def lo) (simp add: StreamBuffer_make_def bq.contents_of_buf bq.invar_of_buf upt_rec)
  moreover have f: "find (touched (unat (5 :: u64)) 1) (lossBuffer ?s) = Some ?b" by (simp add: touched_def lo)
  ultimately have r: "bufs_range (lossBuffer (removeFromLossBuffer 5 1 False ?s)) =
      bufs_range (lossBuffer ?s) - {unat (5 :: u64) ..< unat (5 :: u64) + 1} \<inter> sb_range ?b"
    using loss_buffer_remove [of ?T ?s 1 5 False] by (auto simp: lo)
  have "{4..<7} - {5..<6} \<inter> {4..<7} = {4, 6 :: nat}" by auto
  then show ?thesis unfolding r by (simp add: sb_range_def lo)
qed

end
