(* ===== verification/Read_Buffer.thy ===== *)
theory Read_Buffer
  imports Stream_Data
begin

text \<open>
  Reassembly of received stream data: \<^verbatim>\<open>appendDataToReadBufferCommon\<close> and
  \<^verbatim>\<open>readDataInOrderFromReadBuffer\<close> of \<^verbatim>\<open>state/quic_stream_function.cpp\<close>.
  The read buffer is a sorted list of non-contiguous buffers. A received frame is merged into
  it by a loop that walks over the buffers it may touch; \<^verbatim>\<open>current\<close> is a pointer
  that first points to the new buffer and, once that has been merged into a list element, to
  this element. It is modelled by the position of the element (\<open>None\<close> for the new buffer).
\<close>

section \<open>Appending\<close>

record AppendState =
  ap_readBuffer :: "StreamBuffer list"
  ap_buffer :: StreamBuffer
  ap_current :: "nat option"
  ap_startOverlap :: "nat option"
  ap_endOverlap :: "nat option"
  ap_currentAlreadyInserted :: bool
  ap_done :: bool

definition current_buffer :: "AppendState \<Rightarrow> StreamBuffer" where
  "current_buffer st =
     (case ap_current st of None \<Rightarrow> ap_buffer st | Some j \<Rightarrow> ap_readBuffer st ! j)"

definition set_current :: "StreamBuffer \<Rightarrow> AppendState \<Rightarrow> AppendState" where
  "set_current b st =
     (case ap_current st of
        None \<Rightarrow> st\<lparr>ap_buffer := b\<rparr>
      | Some j \<Rightarrow> st\<lparr>ap_readBuffer := (ap_readBuffer st)[j := b]\<rparr>)"

definition set_elem :: "nat \<Rightarrow> StreamBuffer \<Rightarrow> AppendState \<Rightarrow> AppendState" where
  "set_elem it b st = st\<lparr>ap_readBuffer := (ap_readBuffer st)[it := b]\<rparr>"

text \<open>The body of the loop at position \<open>it\<close>.\<close>

definition append_step :: "nat \<Rightarrow> AppendState \<Rightarrow> AppendState" where
  "append_step it st =
     (let current = current_buffer st;
          elem = ap_readBuffer st ! it;
          currentEnd = sb_end current;
          itEnd = sb_end elem
      in if sb_offset current = sb_offset elem \<and> currentEnd = itEnd
         then st\<lparr>ap_done := True\<rparr>
         else if sb_offset current \<ge> sb_offset elem \<and> currentEnd \<le> itEnd
         then st\<lparr>ap_done := True\<rparr>
         else if sb_offset current \<le> sb_offset elem \<and> currentEnd \<ge> sb_offset elem
              \<and> currentEnd \<le> itEnd
         then let elem1 = elem\<lparr>sb_data := snd (trimStartAtMost (sb_data elem)
                                  (unat (currentEnd - sb_offset elem)))\<rparr>;
                  st1 = set_elem it elem1 st;
                  st2 = (if chainLength (sb_data elem1) > 0
                         then let (chain, rest) = bq_move (sb_data elem1)
                              in set_current (current\<lparr>sb_data := bq_append (sb_data current) chain\<rparr>)
                                   (set_elem it (elem1\<lparr>sb_data := rest\<rparr>) st1)
                         else st1);
                  st3 = (if ap_startOverlap st2 = None then st2\<lparr>ap_startOverlap := Some it\<rparr> else st2)
              in st3\<lparr>ap_endOverlap := Some (it + 1), ap_done := True\<rparr>
         else if sb_offset current < sb_offset elem \<and> currentEnd < sb_offset elem
         then (if ap_startOverlap st = None
               then st\<lparr>ap_startOverlap := Some it, ap_endOverlap := Some it, ap_done := True\<rparr>
               else st\<lparr>ap_done := True\<rparr>)
         else if sb_offset current \<le> sb_offset elem \<and> currentEnd > sb_offset elem
         then (let st1 = (if ap_startOverlap st = None then st\<lparr>ap_startOverlap := Some it\<rparr> else st)
               in st1\<lparr>ap_endOverlap := Some (it + 1)\<rparr>)
         else if sb_offset current \<ge> sb_offset elem \<and> sb_offset current \<le> itEnd \<and> currentEnd > itEnd
         then let current1 = current\<lparr>sb_data := snd (trimStartAtMost (sb_data current)
                                        (unat (itEnd - sb_offset current)))\<rparr>;
                  (chain, rest) = bq_move (sb_data current1);
                  st1 = set_current (current1\<lparr>sb_data := rest\<rparr>) st;
                  st2 = set_elem it (elem\<lparr>sb_data := bq_append (sb_data elem) chain\<rparr>) st1
              in st2\<lparr>ap_current := Some it, ap_currentAlreadyInserted := True,
                     ap_startOverlap := Some (it + 1), ap_endOverlap := Some (it + 1)\<rparr>
         else st)"

lemma length_set_current [simp]: "length (ap_readBuffer (set_current b st)) = length (ap_readBuffer st)"
  by (simp add: set_current_def split: option.split)

lemma length_set_elem [simp]: "length (ap_readBuffer (set_elem it b st)) = length (ap_readBuffer st)"
  by (simp add: set_elem_def)

lemma length_append_step [simp]:
  "length (ap_readBuffer (append_step it st)) = length (ap_readBuffer st)"
  by (simp add: append_step_def Let_def split_def)

function append_loop :: "nat \<Rightarrow> AppendState \<Rightarrow> AppendState" where
  "append_loop it st =
     (if it < length (ap_readBuffer st) \<and> \<not> ap_done st
      then append_loop (it + 1) (append_step it st) else st)"
  by auto

termination append_loop
  by (relation "measure (\<lambda>(it, st). length (ap_readBuffer st) - it)") auto

declare append_loop.simps [simp del]

text \<open>Merging a non-empty buffer into the read buffer. A disengaged iterator is never
  dereferenced: both are set whenever one is.\<close>

definition insert_read_buffer :: "StreamBuffer \<Rightarrow> StreamBuffer list \<Rightarrow> StreamBuffer list" where
  "insert_read_buffer buffer rb =
     (if rb = [] then [buffer]
      else let it = lower_bound (\<lambda>listValue. sb_end listValue < sb_offset buffer) rb;
               st = append_loop it \<lparr>ap_readBuffer = rb, ap_buffer = buffer, ap_current = None,
                      ap_startOverlap = None, ap_endOverlap = None,
                      ap_currentAlreadyInserted = False, ap_done = False\<rparr>;
               current = current_buffer st;
               rb1 = ap_readBuffer st
           in if ap_startOverlap st \<noteq> None \<and> \<not> ap_currentAlreadyInserted st
              then insert_at (the (ap_startOverlap st)) current
                     (erase_range (the (ap_startOverlap st)) (the (ap_endOverlap st)) rb1)
              else if ap_currentAlreadyInserted st
              then erase_range (the (ap_startOverlap st)) (the (ap_endOverlap st)) rb1
              else if sb_offset current > sb_end (last rb1) then rb1 @ [current] else rb1)"

text \<open>The final size checks; the offset behind the end marker is remembered.\<close>

definition check_final_size ::
    "'a QuicStreamLike_scheme \<Rightarrow> StreamBuffer \<Rightarrow> 'a QuicStreamLike_scheme result" where
  "check_final_size stream buffer =
     (let bufferEndOffset = sb_end buffer;
          bufferEofOffset = (if sb_eof buffer then Some bufferEndOffset else None)
      in if finalReadOffset stream \<noteq> None \<and> bufferEofOffset \<noteq> None
            \<and> finalReadOffset stream \<noteq> bufferEofOffset
         then Inl (QuicTransportException FINAL_SIZE_ERROR)
         else case bufferEofOffset of
                Some eofOffset \<Rightarrow>
                  if maxOffsetObserved stream > eofOffset
                  then Inl (QuicTransportException FINAL_SIZE_ERROR)
                  else Inr (stream\<lparr>finalReadOffset := Some eofOffset\<rparr>)
              | None \<Rightarrow>
                  (case finalReadOffset stream of
                     Some fin \<Rightarrow>
                       if bufferEndOffset > fin then Inl (QuicTransportException FINAL_SIZE_ERROR)
                       else Inr stream
                   | None \<Rightarrow> Inr stream))"

text \<open>The part of the buffer that has not been read yet.\<close>

definition trim_to_read_offset :: "u64 \<Rightarrow> StreamBuffer \<Rightarrow> StreamBuffer" where
  "trim_to_read_offset readOffset buffer =
     (if sb_offset buffer < readOffset
      then buffer\<lparr>sb_data := snd (trimStartAtMost (sb_data buffer) (unat (readOffset - sb_offset buffer))),
                  sb_offset := readOffset\<rparr>
      else buffer)"

text \<open>The visitor is the flow control update of the caller; it may throw.\<close>

definition appendDataToReadBufferCommon ::
    "'a QuicStreamLike_scheme \<Rightarrow> StreamBuffer
     \<Rightarrow> (u64 \<Rightarrow> u64 \<Rightarrow> 'a QuicStreamLike_scheme \<Rightarrow> 'c \<Rightarrow> 'c result) \<Rightarrow> 'c
     \<Rightarrow> ('a QuicStreamLike_scheme \<times> 'c) result" where
  "appendDataToReadBufferCommon stream buffer connFlowControlVisitor conn =
     (if \<not> sb_eof buffer \<and> chainLength (sb_data buffer) = 0 then Inr (stream, conn)
      else and_then (check_final_size stream buffer) (\<lambda>stream1.
           and_then (connFlowControlVisitor (maxOffsetObserved stream1) (sb_end buffer) stream1 conn) (\<lambda>conn1.
             let stream2 = stream1\<lparr>maxOffsetObserved := max (maxOffsetObserved stream1) (sb_end buffer)\<rparr>
             in if chainLength (sb_data buffer) = 0 then Inr (stream2, conn1)
                else let buffer1 = trim_to_read_offset (currentReadOffset stream2) buffer
                     in if chainLength (sb_data buffer1) = 0 then Inr (stream2, conn1)
                        else Inr (stream2\<lparr>readBuffer := insert_read_buffer buffer1 (readBuffer stream2)\<rparr>,
                                  conn1))))"

section \<open>Reading\<close>

text \<open>
  The reading loop. \<^verbatim>\<open>data\<close> is the chain read so far; each turn removes bytes from
  the first buffer or the buffer itself, so the loop ends after as many turns as there are
  buffers, and one more when the last one is read in part. Reading no bytes from an empty
  first buffer also removes it.
\<close>

fun read_loop ::
    "nat \<Rightarrow> u64 \<Rightarrow> u64 \<Rightarrow> bool \<Rightarrow> 'a QuicStreamLike_scheme \<Rightarrow> Buf \<Rightarrow> bool
     \<Rightarrow> (('a QuicStreamLike_scheme \<times> Buf \<times> bool) result) option" where
  "read_loop 0 amount remaining sinkData stream data eof = None"
| "read_loop (Suc fuel) amount remaining sinkData stream data eof =
     (case readBuffer stream of
        [] \<Rightarrow> Some (Inr (stream, data, eof))
      | front # rest \<Rightarrow>
          if \<not> (amount = 0 \<or> remaining \<noteq> 0) then Some (Inr (stream, data, eof))
          else if sb_offset front > currentReadOffset stream then Some (Inr (stream, data, eof))
          else let currSize = chainLength (sb_data front);
                   toRead = min (of_nat currSize) (if amount = 0 then of_nat currSize else remaining);
                   step = (if sinkData
                           then and_then (trimStart (sb_data front) (unat toRead)) (\<lambda>q. Inr ([], q))
                           else Inr (splitAtMost (sb_data front) (unat toRead)))
               in (case step of
                    Inl e \<Rightarrow> Some (Inl e)
                  | Inr (spliced, q) \<Rightarrow>
                      let curr1 = front\<lparr>sb_data := q, sb_offset := sb_offset front + toRead\<rparr>;
                          (eof1, buffers) = (if chainLength q = 0 then (sb_eof front, rest)
                                             else (eof, curr1 # rest));
                          data1 = (if sinkData then data else data @ spliced);
                          remaining1 = (if amount \<noteq> 0 then remaining - toRead else remaining)
                      in read_loop fuel amount remaining1 sinkData
                           (stream\<lparr>readBuffer := buffers,
                                   currentReadOffset := currentReadOffset stream + toRead\<rparr>)
                           data1 eof1))"

definition readDataInOrderFromReadBuffer ::
    "'a QuicStreamLike_scheme \<Rightarrow> u64 \<Rightarrow> bool \<Rightarrow> (('a QuicStreamLike_scheme \<times> Buf \<times> bool) result) option" where
  "readDataInOrderFromReadBuffer stream amount sinkData =
     read_loop (length (readBuffer stream) + 2) amount amount sinkData stream [] False"

text \<open>The crypto stream has no flow control, so its visitor does nothing.\<close>

definition appendDataToReadBuffer_crypto ::
    "'a QuicStreamLike_scheme \<Rightarrow> StreamBuffer \<Rightarrow> 'a QuicStreamLike_scheme result" where
  "appendDataToReadBuffer_crypto stream buffer =
     and_then (appendDataToReadBufferCommon stream buffer (\<lambda>_ _ _ c. Inr c) ()) (\<lambda>(s, _). Inr s)"

definition readDataFromCryptoStream ::
    "'a QuicStreamLike_scheme \<Rightarrow> u64 \<Rightarrow> (('a QuicStreamLike_scheme \<times> Buf) result) option" where
  "readDataFromCryptoStream stream amount =
     (case readDataInOrderFromReadBuffer stream amount False of
        None \<Rightarrow> None
      | Some r \<Rightarrow> Some (and_then r (\<lambda>(s, data, eof). Inr (s, data))))"

section \<open>Invariant\<close>

text \<open>Neighbouring buffers leave a gap, and every buffer holds bytes of the stream \<open>T\<close>.\<close>

definition sb_gap :: "StreamBuffer \<Rightarrow> StreamBuffer \<Rightarrow> bool" where
  "sb_gap a b \<longleftrightarrow> sb_hi a < sb_lo b"

definition sb_ok :: "(nat \<Rightarrow> u8) \<Rightarrow> StreamBuffer \<Rightarrow> bool" where
  "sb_ok T b \<longleftrightarrow> sb_holds T b \<and> sb_lo b < sb_hi b"

definition rb_inv :: "(nat \<Rightarrow> u8) \<Rightarrow> StreamBuffer list \<Rightarrow> bool" where
  "rb_inv T rb \<longleftrightarrow> sorted_wrt sb_gap rb \<and> (\<forall>b \<in> set rb. sb_ok T b)"

lemma rb_inv_Nil [simp]: "rb_inv T []"
  by (simp add: rb_inv_def)

lemma rb_inv_Cons [simp]:
  "rb_inv T (b # bs) \<longleftrightarrow> sb_ok T b \<and> rb_inv T bs \<and> (\<forall>c \<in> set bs. sb_gap b c)"
  by (auto simp: rb_inv_def)

lemma rb_inv_append [simp]:
  "rb_inv T (as @ bs) \<longleftrightarrow> rb_inv T as \<and> rb_inv T bs \<and> (\<forall>a \<in> set as. \<forall>b \<in> set bs. sb_gap a b)"
  by (auto simp: rb_inv_def sorted_wrt_append)

text \<open>Comparisons of offsets are comparisons of numbers.\<close>

lemma offset_cmp:
  assumes "sb_holds T c" and "sb_holds T e"
  shows "sb_offset c = sb_offset e \<longleftrightarrow> sb_lo c = sb_lo e" "sb_end c = sb_end e \<longleftrightarrow> sb_hi c = sb_hi e"
    "sb_offset c \<le> sb_offset e \<longleftrightarrow> sb_lo c \<le> sb_lo e" "sb_end c \<le> sb_end e \<longleftrightarrow> sb_hi c \<le> sb_hi e"
    "sb_offset c < sb_offset e \<longleftrightarrow> sb_lo c < sb_lo e" "sb_end c < sb_end e \<longleftrightarrow> sb_hi c < sb_hi e"
    "sb_offset e \<le> sb_end c \<longleftrightarrow> sb_lo e \<le> sb_hi c" "sb_end c < sb_offset e \<longleftrightarrow> sb_hi c < sb_lo e"
    "sb_offset e < sb_end c \<longleftrightarrow> sb_lo e < sb_hi c" "sb_offset c \<le> sb_end e \<longleftrightarrow> sb_lo c \<le> sb_hi e"
  using unat_sb_end [OF assms(1)] unat_sb_end [OF assms(2)]
  by (simp_all add: sb_lo_def word_le_nat_alt word_less_nat_alt word_unat_eq_iff)

lemma unat_overlap:
  assumes "sb_holds T c" and "sb_lo e \<le> sb_hi c"
  shows "unat (sb_end c - sb_offset e) = sb_hi c - sb_lo e"
  using assms unat_sb_end [OF assms(1)] by (simp add: unat_sub_no_wrap sb_lo_def)

lemma holds_extend:
  assumes "sb_holds T c" and "bq_bytes q = map T [sb_hi c ..< k]" and "sb_hi c \<le> k" and "k < 2 ^ 64"
  shows "sb_holds T (c\<lparr>sb_data := bq_append (sb_data c) (fst (bq_move q))\<rparr>)"
    and "sb_lo (c\<lparr>sb_data := bq_append (sb_data c) (fst (bq_move q))\<rparr>) = sb_lo c"
    and "sb_hi (c\<lparr>sb_data := bq_append (sb_data c) (fst (bq_move q))\<rparr>) = k"
proof -
  have "c\<lparr>sb_data := bq_append (sb_data c) (fst (bq_move q)), sb_eof := sb_eof c\<rparr> =
      c\<lparr>sb_data := bq_append (sb_data c) (fst (bq_move q))\<rparr>" by simp
  with holds_append [OF assms, of "sb_eof c"]
  show "sb_holds T (c\<lparr>sb_data := bq_append (sb_data c) (fst (bq_move q))\<rparr>)"
    "sb_lo (c\<lparr>sb_data := bq_append (sb_data c) (fst (bq_move q))\<rparr>) = sb_lo c"
    "sb_hi (c\<lparr>sb_data := bq_append (sb_data c) (fst (bq_move q))\<rparr>) = k" by simp_all
qed

section \<open>Steps of the loop\<close>

lemma step_subset:
  assumes "current_buffer st = c" and "ap_readBuffer st ! it = e" and "sb_holds T c" and "sb_holds T e"
    and "sb_lo e \<le> sb_lo c" and "sb_hi c \<le> sb_hi e"
  shows "append_step it st = st\<lparr>ap_done := True\<rparr>"
  unfolding append_step_def Let_def using assms by (simp add: offset_cmp [OF assms(3,4)] offset_cmp [OF assms(4,3)])

lemma step_before:
  assumes "current_buffer st = c" and "ap_readBuffer st ! it = e" and "sb_holds T c" and "sb_holds T e"
    and "sb_lo c < sb_hi c" and "sb_hi c < sb_lo e"
  shows "append_step it st =
    (if ap_startOverlap st = None
     then st\<lparr>ap_startOverlap := Some it, ap_endOverlap := Some it, ap_done := True\<rparr>
     else st\<lparr>ap_done := True\<rparr>)"
proof -
  have "sb_lo c < sb_lo e" "sb_lo e \<le> sb_hi e" using assms(5,6) sb_lo_le_hi [of e] by auto
  then show ?thesis
    unfolding append_step_def Let_def
    using assms by (simp add: offset_cmp [OF assms(3,4)] offset_cmp [OF assms(4,3)])
qed

lemma step_complete:
  assumes "current_buffer st = c" and "ap_readBuffer st ! it = e" and "sb_holds T c" and "sb_holds T e"
    and "sb_lo e < sb_hi e" and "sb_lo c \<le> sb_lo e" and "sb_hi e < sb_hi c"
  shows "append_step it st =
    (if ap_startOverlap st = None then st\<lparr>ap_startOverlap := Some it\<rparr> else st)\<lparr>ap_endOverlap := Some (it + 1)\<rparr>"
  unfolding append_step_def Let_def
  using assms by (simp add: offset_cmp [OF assms(3,4)] offset_cmp [OF assms(4,3)])

lemma trimmed_bytes:
  assumes "sb_holds T e" and "sb_lo e \<le> k" and "k \<le> sb_hi e"
  shows "bq_bytes (snd (trimStartAtMost (sb_data e) (k - sb_lo e))) = map T [k ..< sb_hi e]"
    and "chainLength (snd (trimStartAtMost (sb_data e) (k - sb_lo e))) = sb_hi e - k"
  using assms by (simp_all add: sb_holds_def bq.contents_trim drop_map bq.len_trim bq.len_contents)

text \<open>Left overlap: the current buffer swallows what the element has beyond it.\<close>

lemma step_left:
  assumes "current_buffer st = c" and "ap_readBuffer st ! it = e" and "sb_holds T c" and "sb_holds T e"
    and "sb_lo c < sb_lo e" and "sb_lo e \<le> sb_hi c" and "sb_hi c \<le> sb_hi e"
    and "\<And>j. ap_current st = Some j \<Longrightarrow> j < it" and "it < length (ap_readBuffer st)"
  obtains e' c' where "append_step it st =
      (set_current c' (set_elem it e' st))\<lparr>ap_startOverlap :=
         (if ap_startOverlap st = None then Some it else ap_startOverlap st),
         ap_endOverlap := Some (it + 1), ap_done := True\<rparr>"
    and "sb_holds T c'" and "sb_lo c' = sb_lo c" and "sb_hi c' = sb_hi e"
proof -
  let ?q = "snd (trimStartAtMost (sb_data e) (sb_hi c - sb_lo e))"
  let ?e1 = "e\<lparr>sb_data := ?q\<rparr>" and ?c1 = "c\<lparr>sb_data := bq_append (sb_data c) (fst (bq_move ?q))\<rparr>"
  note trim = trimmed_bytes [OF assms(4,6,7)]
  have guards: "\<not> (sb_offset c = sb_offset e \<and> sb_end c = sb_end e)"
    "\<not> (sb_offset c \<ge> sb_offset e \<and> sb_end c \<le> sb_end e)"
    "sb_offset c \<le> sb_offset e \<and> sb_end c \<ge> sb_offset e \<and> sb_end c \<le> sb_end e"
    using assms(5-7) by (simp_all add: offset_cmp [OF assms(3,4)] offset_cmp [OF assms(4,3)])
  have amount: "unat (sb_end c - sb_offset e) = sb_hi c - sb_lo e"
    using unat_overlap [OF assms(3,6)] .
  show thesis
  proof (cases "sb_hi c < sb_hi e")
    case True
    have c1: "sb_holds T ?c1" "sb_lo ?c1 = sb_lo c" "sb_hi ?c1 = sb_hi e"
      using holds_extend [OF assms(3) trim(1)] True assms(4) by (auto simp: sb_holds_def)
    show thesis
    proof (rule that [OF _ c1, of "?e1\<lparr>sb_data := snd (bq_move ?q)\<rparr>"])
      show "append_step it st = (set_current ?c1 (set_elem it (?e1\<lparr>sb_data := snd (bq_move ?q)\<rparr>) st))
         \<lparr>ap_startOverlap := (if ap_startOverlap st = None then Some it else ap_startOverlap st),
          ap_endOverlap := Some (it + 1), ap_done := True\<rparr>"
        unfolding append_step_def Let_def assms(1,2) amount
          if_not_P [OF guards(1)] if_not_P [OF guards(2)] if_P [OF guards(3)]
        using True trim(2)
        by (cases "ap_startOverlap st"; cases "ap_current st")
          (simp_all add: split_def set_elem_def set_current_def)
    qed
  next
    case False
    then have eq: "sb_hi c = sb_hi e" using assms(7) by simp
    have upd: "xs[it := x, j := xs ! j] = xs[it := x]" if "j < it" for j and x :: StreamBuffer and xs
      using that by (metis list_update_id nat_neq_iff nth_list_update_neq)
    have id: "set_current c (set_elem it e' st) = set_elem it e' st" for e'
      using assms(1,8) by (auto simp: set_current_def set_elem_def current_buffer_def upd split: option.splits)
    show thesis
    proof (rule that [OF _ assms(3) refl eq, of ?e1])
      show "append_step it st = (set_current c (set_elem it ?e1 st))
         \<lparr>ap_startOverlap := (if ap_startOverlap st = None then Some it else ap_startOverlap st),
          ap_endOverlap := Some (it + 1), ap_done := True\<rparr>"
        unfolding id append_step_def Let_def assms(1,2) amount
          if_not_P [OF guards(1)] if_not_P [OF guards(2)] if_P [OF guards(3)]
        using eq trim(2) by (cases "ap_startOverlap st") (simp_all add: set_elem_def)
    qed
  qed
qed

text \<open>Right overlap: the element swallows what the new buffer has beyond it and becomes the
  current buffer.\<close>

lemma step_right:
  assumes "ap_current st = None" and "ap_buffer st = c" and "ap_readBuffer st ! it = e"
    and "sb_holds T c" and "sb_holds T e"
    and "sb_lo e < sb_lo c" and "sb_lo c \<le> sb_hi e" and "sb_hi e < sb_hi c"
  obtains e' c' where "append_step it st =
      (set_elem it e' (st\<lparr>ap_buffer := c'\<rparr>))\<lparr>ap_current := Some it, ap_currentAlreadyInserted := True,
         ap_startOverlap := Some (it + 1), ap_endOverlap := Some (it + 1)\<rparr>"
    and "sb_holds T e'" and "sb_lo e' = sb_lo e" and "sb_hi e' = sb_hi c"
proof -
  let ?q = "snd (trimStartAtMost (sb_data c) (sb_hi e - sb_lo c))"
  let ?e1 = "e\<lparr>sb_data := bq_append (sb_data e) (fst (bq_move ?q))\<rparr>"
  have trim: "bq_bytes ?q = map T [sb_hi e ..< sb_hi c]"
    using trimmed_bytes(1) [OF assms(4,7)] assms(8) by simp
  have e1: "sb_holds T ?e1" "sb_lo ?e1 = sb_lo e" "sb_hi ?e1 = sb_hi c"
    using holds_extend [OF assms(5) trim] assms(4,8) by (auto simp: sb_holds_def)
  have amount: "unat (sb_end e - sb_offset c) = sb_hi e - sb_lo c"
    using unat_overlap [OF assms(5,7)] .
  have cur: "current_buffer st = c" using assms(1,2) by (simp add: current_buffer_def)
  show thesis
  proof (rule that [OF _ e1, of "c\<lparr>sb_data := snd (bq_move ?q)\<rparr>"])
    show "append_step it st = (set_elem it ?e1 (st\<lparr>ap_buffer := c\<lparr>sb_data := snd (bq_move ?q)\<rparr>\<rparr>))
       \<lparr>ap_current := Some it, ap_currentAlreadyInserted := True,
        ap_startOverlap := Some (it + 1), ap_endOverlap := Some (it + 1)\<rparr>"
      unfolding append_step_def Let_def cur assms(3) amount
      using assms(1,6-8)
      by (simp add: offset_cmp [OF assms(4,5)] offset_cmp [OF assms(5,4)] split_def)
        (simp add: set_elem_def set_current_def)
  qed
qed

section \<open>The loop\<close>

lemma loop_end: "length (ap_readBuffer st) \<le> it \<or> ap_done st \<Longrightarrow> append_loop it st = st"
  by (auto simp: append_loop.simps [of it st])

lemma loop_step:
  "it < length (ap_readBuffer st) \<Longrightarrow> \<not> ap_done st \<Longrightarrow>
     append_loop it st = append_loop (it + 1) (append_step it st)"
  by (simp add: append_loop.simps [of it st])

text \<open>The prefix of the list when the current buffer lies at position \<open>cur\<close> of it.\<close>

definition with_current :: "nat option \<Rightarrow> StreamBuffer \<Rightarrow> StreamBuffer list \<Rightarrow> StreamBuffer list" where
  "with_current cur c pre = (case cur of None \<Rightarrow> pre | Some j \<Rightarrow> pre[j := c])"

lemma length_with_current [simp]: "length (with_current cur c pre) = length pre"
  by (simp add: with_current_def split: option.split)

text \<open>
  Once the first overlapping position is known, the loop swallows the buffers \<open>ms\<close> that the
  current buffer touches and stops at the first one behind a gap.
\<close>

lemma current_buffer_updates [simp]:
  "current_buffer (st\<lparr>ap_done := d\<rparr>) = current_buffer st"
  "current_buffer (st\<lparr>ap_startOverlap := x\<rparr>) = current_buffer st"
  "current_buffer (st\<lparr>ap_endOverlap := x\<rparr>) = current_buffer st"
  by (simp_all add: current_buffer_def split: option.split)

definition swallowed ::
    "(nat \<Rightarrow> u8) \<Rightarrow> StreamBuffer list \<Rightarrow> AppendState \<Rightarrow> AppendState \<Rightarrow> StreamBuffer list
     \<Rightarrow> StreamBuffer list \<Rightarrow> bool" where
  "swallowed T pre st st' ms rest \<longleftrightarrow>
     ap_startOverlap st' = ap_startOverlap st \<and> ap_endOverlap st' = Some (length pre + length ms)
   \<and> ap_currentAlreadyInserted st' = ap_currentAlreadyInserted st
   \<and> (\<exists>ms'. length ms' = length ms \<and>
        ap_readBuffer st' = with_current (ap_current st) (current_buffer st') pre @ ms' @ rest)
   \<and> sb_ok T (current_buffer st') \<and> sb_lo (current_buffer st') = sb_lo (current_buffer st)
   \<and> sb_range (current_buffer st') = sb_range (current_buffer st) \<union> bufs_range ms
   \<and> (\<forall>r \<in> set rest. sb_gap (current_buffer st') r)"

lemma with_current_same:
  assumes "ap_readBuffer st = pre @ bs" and "\<And>j. ap_current st = Some j \<Longrightarrow> j < length pre"
  shows "with_current (ap_current st) (current_buffer st) pre = pre"
  using assms by (auto simp: with_current_def current_buffer_def nth_append split: option.splits)

lemma swallow_none:
  assumes "ap_readBuffer st = pre @ bs" and "ap_endOverlap st = Some (length pre)"
    and "\<And>j. ap_current st = Some j \<Longrightarrow> j < length pre"
    and "sb_ok T (current_buffer st)" and "\<forall>r \<in> set bs. sb_gap (current_buffer st) r"
  shows "swallowed T pre st (st\<lparr>ap_done := d\<rparr>) [] bs"
  using assms with_current_same [OF assms(1,3)] by (simp add: swallowed_def)

lemma swallow_part:
  assumes "ap_readBuffer st = pre @ e # bs" and "ap_startOverlap st = Some s"
    and "\<And>j. ap_current st = Some j \<Longrightarrow> j < length pre"
    and "sb_ok T (current_buffer st)" and "rb_inv T (e # bs)"
    and "sb_lo (current_buffer st) < sb_lo e" and "sb_lo e \<le> sb_hi (current_buffer st)"
    and "sb_hi (current_buffer st) \<le> sb_hi e"
  shows "swallowed T pre st (append_step (length pre) st) [e] bs \<and> ap_done (append_step (length pre) st)"
proof -
  let ?c = "current_buffer st" and ?st = "append_step (length pre) st"
  have h: "sb_holds T ?c" "sb_holds T e" using assms(4,5) by (auto simp: sb_ok_def)
  have nth: "ap_readBuffer st ! length pre = e" "length pre < length (ap_readBuffer st)"
    using assms(1) by auto
  obtain e' c' where st0: "?st = (set_current c' (set_elem (length pre) e' st))\<lparr>ap_startOverlap :=
         (if ap_startOverlap st = None then Some (length pre) else ap_startOverlap st),
         ap_endOverlap := Some (length pre + 1), ap_done := True\<rparr>"
    and c': "sb_holds T c'" "sb_lo c' = sb_lo ?c" "sb_hi c' = sb_hi e"
    by (rule step_left [OF refl nth(1) h assms(6-8) assms(3) nth(2)])
  have st: "?st = (set_current c' (set_elem (length pre) e' st))\<lparr>ap_startOverlap := Some s,
         ap_endOverlap := Some (length pre + 1), ap_done := True\<rparr>"
    using st0 assms(2) by simp
  have cur: "current_buffer ?st = c'"
    using assms(1,3) unfolding st by (auto simp: current_buffer_def set_current_def set_elem_def split: option.splits)
  have rb: "ap_readBuffer ?st = with_current (ap_current st) c' pre @ [e'] @ bs"
    using assms(1,3) unfolding st
    by (auto simp: with_current_def set_current_def set_elem_def list_update_append split: option.splits)
  have "sb_range c' = sb_range ?c \<union> sb_range e"
    using c' assms(4-8) by (auto simp: sb_range_def sb_ok_def)
  moreover have "\<forall>r \<in> set bs. sb_gap c' r" using assms(5) c'(3) by (simp add: sb_gap_def)
  moreover have "sb_ok T c'" using c' assms(4-8) by (auto simp: sb_ok_def)
  ultimately show ?thesis
    using rb cur c'(2) assms(2) unfolding swallowed_def
    by (simp add: st set_current_def set_elem_def split: option.split)
qed

lemma loop_tail:
  assumes "ap_readBuffer st = pre @ bs" and "\<not> ap_done st" and "ap_startOverlap st = Some s"
    and "ap_endOverlap st = Some (length pre)" and "\<And>j. ap_current st = Some j \<Longrightarrow> j < length pre"
    and "sb_ok T (current_buffer st)" and "rb_inv T bs"
    and "\<forall>b \<in> set bs. sb_lo (current_buffer st) < sb_lo b"
  shows "\<exists>ms rest. bs = ms @ rest \<and> swallowed T pre st (append_loop (length pre) st) ms rest"
  using assms
proof (induction bs arbitrary: pre st)
  case Nil
  then have "append_loop (length pre) st = st\<lparr>ap_done := ap_done st\<rparr>" by (simp add: loop_end)
  with swallow_none [OF Nil.prems(1,4-6), of "ap_done st"] show ?case by force
next
  case (Cons e bs)
  let ?c = "current_buffer st"
  have nth: "ap_readBuffer st ! length pre = e" "length pre < length (ap_readBuffer st)"
    using Cons.prems(1) by auto
  have h: "sb_holds T ?c" "sb_holds T e" "sb_lo ?c < sb_hi ?c" "sb_lo e < sb_hi e" "sb_lo ?c < sb_lo e"
    using Cons.prems(6-8) by (auto simp: sb_ok_def)
  note step = loop_step [OF nth(2) Cons.prems(2)]
  consider "sb_hi ?c < sb_lo e" | "sb_lo e \<le> sb_hi ?c" "sb_hi ?c \<le> sb_hi e" | "sb_hi e < sb_hi ?c" by linarith
  then show ?case
  proof cases
    case 1
    have "append_loop (length pre) st = st\<lparr>ap_done := True\<rparr>"
      using step step_before [OF refl nth(1) h(1-3) 1] Cons.prems(3) by (simp add: loop_end)
    moreover have "\<forall>r \<in> set (e # bs). sb_gap ?c r"
      using 1 Cons.prems(7) h(4) by (fastforce simp: sb_gap_def)
    ultimately show ?thesis
      using swallow_none [OF Cons.prems(1,4-6), of True] by force
  next
    case 2
    have "swallowed T pre st (append_step (length pre) st) [e] bs" "ap_done (append_step (length pre) st)"
      using swallow_part [OF Cons.prems(1,3,5-7) h(5) 2] by auto
    moreover from this(2) have "append_loop (length pre) st = append_step (length pre) st"
      using step by (simp add: loop_end)
    ultimately show ?thesis by (metis append_Cons append_Nil)
  next
    case 3
    let ?st = "st\<lparr>ap_endOverlap := Some (length pre + 1)\<rparr>"
    have st: "append_step (length pre) st = ?st"
      using step_complete [OF refl nth(1) h(1,2,4) _ 3] h(5) Cons.prems(3) by simp
    have cur: "current_buffer ?st = ?c" by simp
    have "\<exists>ms rest. bs = ms @ rest \<and> swallowed T (pre @ [e]) ?st (append_loop (length (pre @ [e])) ?st) ms rest"
    proof (rule Cons.IH)
      show "ap_readBuffer ?st = (pre @ [e]) @ bs" using Cons.prems(1) by simp
    qed (use Cons.prems cur in auto)
    then obtain ms rest where ms: "bs = ms @ rest"
      "swallowed T (pre @ [e]) ?st (append_loop (length (pre @ [e])) ?st) ms rest" by blast
    have "with_current (ap_current st) x (pre @ [e]) = with_current (ap_current st) x pre @ [e]" for x
      using Cons.prems(5) by (auto simp: with_current_def list_update_append split: option.splits)
    moreover have "sb_range e \<subseteq> sb_range ?c" using h 3 by (auto simp: sb_range_def)
    ultimately have "swallowed T pre st (append_loop (length (pre @ [e])) ?st) (e # ms) rest"
      using ms(2) unfolding swallowed_def cur
      by (auto simp: Un_assoc intro: exI [of _ "e # _"])
    moreover have "append_loop (length pre) st = append_loop (length (pre @ [e])) ?st"
      using step st by simp
    ultimately show ?thesis using ms(1) by (metis append_Cons)
  qed
qed

section \<open>Merging a buffer\<close>

text \<open>The search stops at the first buffer that ends at or behind the start of the new one.\<close>

lemma rb_search:
  assumes "rb_inv T rb" and "sb_ok T b"
  obtains as bs where "rb = as @ bs" and "lower_bound (\<lambda>x. sb_end x < sb_offset b) rb = length as"
    and "\<forall>a \<in> set as. sb_gap a b" and "\<forall>e \<in> set bs. sb_lo b \<le> sb_hi e"
proof -
  let ?p = "\<lambda>x. sb_end x < sb_offset b"
  define as where "as = takeWhile ?p rb"
  define bs where "bs = dropWhile ?p rb"
  have split: "rb = as @ bs" by (simp add: as_def bs_def)
  have p: "?p x \<longleftrightarrow> sb_gap x b" if "x \<in> set rb" for x
    using offset_cmp(8) [of T x b] that assms by (auto simp: rb_inv_def sb_ok_def sb_gap_def)
  have as: "\<forall>a \<in> set as. ?p a" by (auto simp: as_def dest: set_takeWhileD)
  have bs: "\<forall>e \<in> set bs. \<not> ?p e"
  proof (cases bs)
    case (Cons e bt)
    then have "\<not> ?p e" unfolding bs_def by (metis hd_dropWhile list.distinct(1) list.sel(1))
    then have e: "sb_lo b \<le> sb_hi e" using p [of e] split Cons by (simp add: sb_gap_def)
    have "sb_lo b \<le> sb_hi x" if "x \<in> set bt" for x
    proof -
      have "sb_gap e x" "sb_lo x \<le> sb_hi x" using assms(1) split Cons that sb_lo_le_hi by auto
      with e show ?thesis by (simp add: sb_gap_def)
    qed
    with e Cons have "sb_lo b \<le> sb_hi x" if "x \<in> set bs" for x using that by auto
    then have "\<not> sb_gap x b" if "x \<in> set bs" for x using that by (simp add: sb_gap_def not_less)
    then show ?thesis using p split by simp
  qed simp
  show thesis
  proof (rule that [OF split])
    show "lower_bound ?p rb = length as" using lower_bound_partition [OF split] as bs by blast
  qed (use as bs p split in \<open>auto simp: sb_gap_def\<close>)
qed

abbreviation (input) initial_append :: "StreamBuffer list \<Rightarrow> StreamBuffer \<Rightarrow> AppendState" where
  "initial_append rb b \<equiv> \<lparr>ap_readBuffer = rb, ap_buffer = b, ap_current = None,
     ap_startOverlap = None, ap_endOverlap = None, ap_currentAlreadyInserted = False, ap_done = False\<rparr>"

text \<open>What the code does with the state after the loop.\<close>

definition finish_append :: "AppendState \<Rightarrow> StreamBuffer list" where
  "finish_append st =
     (if ap_startOverlap st \<noteq> None \<and> \<not> ap_currentAlreadyInserted st
      then insert_at (the (ap_startOverlap st)) (current_buffer st)
             (erase_range (the (ap_startOverlap st)) (the (ap_endOverlap st)) (ap_readBuffer st))
      else if ap_currentAlreadyInserted st
      then erase_range (the (ap_startOverlap st)) (the (ap_endOverlap st)) (ap_readBuffer st)
      else if sb_offset (current_buffer st) > sb_end (last (ap_readBuffer st))
      then ap_readBuffer st @ [current_buffer st] else ap_readBuffer st)"

lemma insert_read_buffer_finish:
  "rb \<noteq> [] \<Longrightarrow> insert_read_buffer b rb = finish_append
     (append_loop (lower_bound (\<lambda>x. sb_end x < sb_offset b) rb) (initial_append rb b))"
  by (simp add: insert_read_buffer_def finish_append_def Let_def)

text \<open>The buffer is merged with the buffers \<open>ms\<close> it touches into one buffer.\<close>

lemma merged_ok:
  assumes "rb_inv T (as @ ms @ rest)" and "sb_ok T c" and "\<forall>a \<in> set as. sb_gap a c"
    and "\<forall>r \<in> set rest. sb_gap c r" and "sb_range c = sb_range b \<union> bufs_range ms"
  shows "rb_inv T (as @ c # rest) \<and> bufs_range (as @ c # rest) = bufs_range (as @ ms @ rest) \<union> sb_range b"
  using assms by auto

lemma finish_local:
  assumes "swallowed T (as @ es) st st' ms rest" and "ap_startOverlap st = Some (length as)"
    and "\<not> ap_currentAlreadyInserted st" and "ap_current st = None"
  shows "finish_append st' = as @ current_buffer st' # rest"
proof -
  obtain ms' where "length ms' = length ms" "ap_readBuffer st' = as @ es @ ms' @ rest"
    using assms(1,4) by (auto simp: swallowed_def with_current_def)
  with assms show ?thesis
    by (simp add: finish_append_def swallowed_def insert_at_def erase_range_def)
qed

lemma finish_inserted:
  assumes "swallowed T (as @ [e]) st st' ms rest" and "ap_startOverlap st = Some (length as + 1)"
    and "ap_currentAlreadyInserted st" and "ap_current st = Some (length as)"
  shows "finish_append st' = as @ current_buffer st' # rest"
proof -
  obtain ms' where "length ms' = length ms" "ap_readBuffer st' = as @ current_buffer st' # ms' @ rest"
    using assms(1,4) by (auto simp: swallowed_def with_current_def list_update_append)
  with assms show ?thesis
    by (simp add: finish_append_def swallowed_def erase_range_def)
qed

lemma gap_trans: "sb_gap a b \<Longrightarrow> sb_gap b c \<Longrightarrow> sb_lo b \<le> sb_hi b \<Longrightarrow> sb_gap a c"
  by (simp add: sb_gap_def)

text \<open>The first buffer \<open>e\<close> behind the search position decides how the loop goes on; one
  lemma per way.\<close>

definition merge_start :: "(nat \<Rightarrow> u8) \<Rightarrow> StreamBuffer list \<Rightarrow> StreamBuffer \<Rightarrow> StreamBuffer list \<Rightarrow> StreamBuffer \<Rightarrow> bool" where
  "merge_start T as e bs b \<longleftrightarrow> rb_inv T (as @ e # bs) \<and> sb_ok T b
     \<and> (\<forall>a \<in> set as. sb_gap a b) \<and> sb_lo b \<le> sb_hi e"

definition merge_result :: "StreamBuffer list \<Rightarrow> StreamBuffer \<Rightarrow> StreamBuffer list \<Rightarrow> StreamBuffer \<Rightarrow> StreamBuffer list" where
  "merge_result as e bs b = finish_append (append_loop (length as) (initial_append (as @ e # bs) b))"

lemma merge_start_facts:
  assumes "merge_start T as e bs b"
  shows "current_buffer (initial_append (as @ e # bs) b) = b"
    and "ap_readBuffer (initial_append (as @ e # bs) b) ! length as = e"
    and "length as < length (ap_readBuffer (initial_append (as @ e # bs) b))"
    and "sb_holds T b" and "sb_holds T e" and "sb_lo b < sb_hi b" and "sb_lo e < sb_hi e"
    and "append_loop (length as) (initial_append (as @ e # bs) b) =
           append_loop (length as + 1) (append_step (length as) (initial_append (as @ e # bs) b))"
    and "\<forall>x \<in> set bs. sb_lo e < sb_lo x \<and> sb_hi e < sb_lo x"
    and "rb_inv T (as @ e # bs)" and "\<forall>a \<in> set as. sb_gap a b"
proof -
  show inv: "rb_inv T (as @ e # bs)" and "\<forall>a \<in> set as. sb_gap a b"
    and "sb_holds T b" and "sb_holds T e" and "sb_lo b < sb_hi b" and e: "sb_lo e < sb_hi e"
    using assms by (simp_all add: merge_start_def sb_ok_def)
  show "\<forall>x \<in> set bs. sb_lo e < sb_lo x \<and> sb_hi e < sb_lo x"
    using inv e by (auto simp: sb_gap_def intro: less_trans)
  show "append_loop (length as) (initial_append (as @ e # bs) b) =
      append_loop (length as + 1) (append_step (length as) (initial_append (as @ e # bs) b))"
    by (rule loop_step) auto
qed (simp_all add: current_buffer_def)

lemma merge_subset:
  assumes "merge_start T as e bs b" and "sb_lo e \<le> sb_lo b" and "sb_hi b \<le> sb_hi e"
  shows "merge_result as e bs b = as @ e # bs"
proof -
  let ?st = "initial_append (as @ e # bs) b"
  note f = merge_start_facts [OF assms(1)]
  have "append_loop (length as) ?st = ?st\<lparr>ap_done := True\<rparr>"
    using f(8) step_subset [OF f(1,2,4,5) assms(2,3)] by (simp add: loop_end)
  moreover have "sb_offset b \<le> sb_end (last (as @ e # bs))"
  proof -
    have l: "last (as @ e # bs) \<in> set (e # bs)" by simp
    have "sb_ok T x" "sb_hi e \<le> sb_hi x" if "x \<in> set (e # bs)" for x
      using that f(9,10) sb_lo_le_hi [of x] by (auto simp: rb_inv_def)
    with l have "sb_ok T (last (as @ e # bs))" "sb_hi e \<le> sb_hi (last (as @ e # bs))" by blast+
    then show ?thesis
      using offset_cmp(10) [OF f(4), of "last (as @ e # bs)"] assms(1)
      by (simp add: sb_ok_def merge_start_def)
  qed
  ultimately show ?thesis by (simp add: merge_result_def finish_append_def current_buffer_def)
qed

lemma merge_before:
  assumes "merge_start T as e bs b" and "sb_hi b < sb_lo e"
  shows "merge_result as e bs b = as @ b # e # bs"
proof -
  let ?st = "initial_append (as @ e # bs) b"
  note f = merge_start_facts [OF assms(1)]
  have "append_loop (length as) ?st = ?st\<lparr>ap_startOverlap := Some (length as),
      ap_endOverlap := Some (length as), ap_done := True\<rparr>"
    using f(8) step_before [OF f(1,2,4,5,6) assms(2)] by (simp add: loop_end)
  then show ?thesis
    by (simp add: merge_result_def finish_append_def current_buffer_def insert_at_def erase_range_def)
qed

lemma merge_left:
  assumes "merge_start T as e bs b" and "sb_lo b < sb_lo e" and "sb_lo e \<le> sb_hi b" and "sb_hi b \<le> sb_hi e"
  shows "\<exists>c. merge_result as e bs b = as @ c # bs \<and> sb_holds T c \<and> sb_lo c = sb_lo b \<and> sb_hi c = sb_hi e"
proof -
  let ?st = "initial_append (as @ e # bs) b"
  note f = merge_start_facts [OF assms(1)]
  obtain e' c' where st: "append_step (length as) ?st =
      (set_current c' (set_elem (length as) e' ?st))\<lparr>ap_startOverlap :=
         (if ap_startOverlap ?st = None then Some (length as) else ap_startOverlap ?st),
         ap_endOverlap := Some (length as + 1), ap_done := True\<rparr>"
    and c': "sb_holds T c'" "sb_lo c' = sb_lo b" "sb_hi c' = sb_hi e"
    by (rule step_left [OF f(1,2,4,5) assms(2-4) _ f(3)]) auto
  have "append_loop (length as) ?st = append_step (length as) ?st"
    unfolding f(8) by (rule loop_end) (simp add: st)
  then have "merge_result as e bs b = as @ c' # bs"
    unfolding merge_result_def st
    by (simp add: finish_append_def current_buffer_def set_current_def set_elem_def
        insert_at_def erase_range_def)
  with c' show ?thesis by blast
qed

lemma merge_complete:
  assumes "merge_start T as e bs b" and "sb_lo b \<le> sb_lo e" and "sb_hi e < sb_hi b"
  shows "\<exists>c ms rest. merge_result as e bs b = as @ c # rest \<and> bs = ms @ rest \<and> sb_ok T c
    \<and> sb_lo c = sb_lo b \<and> sb_range c = sb_range b \<union> bufs_range ms \<and> (\<forall>r \<in> set rest. sb_gap c r)"
proof -
  let ?st = "initial_append (as @ e # bs) b"
  note f = merge_start_facts [OF assms(1)]
  let ?st1 = "?st\<lparr>ap_startOverlap := Some (length as), ap_endOverlap := Some (length as + 1)\<rparr>"
  have st: "append_step (length as) ?st = ?st1"
    using step_complete [OF f(1,2,4,5,7) assms(2,3)] by simp
  have cur1: "current_buffer ?st1 = b" by (simp add: current_buffer_def)
  have "\<exists>ms rest. bs = ms @ rest \<and>
      swallowed T (as @ [e]) ?st1 (append_loop (length (as @ [e])) ?st1) ms rest"
    by (rule loop_tail) (use assms f(4,6,9,10) cur1 in \<open>auto simp: sb_ok_def\<close>)
  then obtain ms rest where ms: "bs = ms @ rest"
    and sw: "swallowed T (as @ [e]) ?st1 (append_loop (length (as @ [e])) ?st1) ms rest" by blast
  have "merge_result as e bs b = as @ current_buffer (append_loop (length (as @ [e])) ?st1) # rest"
    using finish_local [OF sw] unfolding merge_result_def f(8) st by simp
  then show ?thesis using ms sw unfolding swallowed_def cur1 by blast
qed

lemma merge_right:
  assumes "merge_start T as e bs b" and "sb_lo e < sb_lo b" and "sb_hi e < sb_hi b"
  shows "\<exists>c ms rest. merge_result as e bs b = as @ c # rest \<and> bs = ms @ rest \<and> sb_ok T c
    \<and> sb_lo c = sb_lo e \<and> sb_range c = sb_range b \<union> bufs_range (e # ms) \<and> (\<forall>r \<in> set rest. sb_gap c r)"
proof -
  let ?st = "initial_append (as @ e # bs) b"
  note f = merge_start_facts [OF assms(1)]
  have reach: "sb_lo b \<le> sb_hi e" using assms(1) by (simp add: merge_start_def)
  obtain e' c' where st: "append_step (length as) ?st =
      (set_elem (length as) e' (?st\<lparr>ap_buffer := c'\<rparr>))\<lparr>ap_current := Some (length as),
         ap_currentAlreadyInserted := True, ap_startOverlap := Some (length as + 1),
         ap_endOverlap := Some (length as + 1)\<rparr>"
    and e': "sb_holds T e'" "sb_lo e' = sb_lo e" "sb_hi e' = sb_hi b"
    by (rule step_right [OF _ _ f(2,4,5) assms(2) reach assms(3)]) auto
  let ?st1 = "append_step (length as) ?st"
  have cur1: "current_buffer ?st1 = e'" unfolding st by (simp add: current_buffer_def set_elem_def)
  have "\<exists>ms rest. bs = ms @ rest \<and>
      swallowed T (as @ [e']) ?st1 (append_loop (length (as @ [e'])) ?st1) ms rest"
    by (rule loop_tail [where s = "length as + 1"])
      (use e' f(7,9,10) assms(3) cur1 in \<open>auto simp: st set_elem_def sb_ok_def\<close>)
  then obtain ms rest where ms: "bs = ms @ rest"
    and sw: "swallowed T (as @ [e']) ?st1 (append_loop (length (as @ [e'])) ?st1) ms rest" by blast
  let ?c = "current_buffer (append_loop (length (as @ [e'])) ?st1)"
  have "merge_result as e bs b = as @ ?c # rest"
    using finish_inserted [OF sw] unfolding merge_result_def f(8) by (simp add: st set_elem_def)
  moreover have "sb_range e' = sb_range b \<union> sb_range e"
    using assms(2,3) reach e' by (auto simp: sb_range_def)
  then have "sb_range ?c = sb_range b \<union> bufs_range (e # ms)"
    using sw unfolding swallowed_def cur1 by (simp add: Un_assoc)
  ultimately show ?thesis using ms sw e'(2) unfolding swallowed_def cur1 by metis
qed

lemma merge_result_correct:
  assumes "merge_start T as e bs b"
  shows "rb_inv T (merge_result as e bs b)
    \<and> bufs_range (merge_result as e bs b) = bufs_range (as @ e # bs) \<union> sb_range b"
proof -
  note f = merge_start_facts [OF assms]
  have b: "sb_ok T b" using f(4,6) by (simp add: sb_ok_def)
  consider (subset) "sb_lo e \<le> sb_lo b" "sb_hi b \<le> sb_hi e"
    | (before) "sb_hi b < sb_lo e"
    | (left) "sb_lo b < sb_lo e" "sb_lo e \<le> sb_hi b" "sb_hi b \<le> sb_hi e"
    | (complete) "sb_lo b \<le> sb_lo e" "sb_hi e < sb_hi b"
    | (right) "sb_lo e < sb_lo b" "sb_hi e < sb_hi b" by linarith
  then show ?thesis
  proof cases
    case subset
    then have "sb_range b \<subseteq> sb_range e" by (auto simp: sb_range_def)
    then show ?thesis using f(10) unfolding merge_subset [OF assms subset] by auto
  next
    case before
    then have "\<forall>x \<in> set (e # bs). sb_gap b x" using f(9) by (auto simp: sb_gap_def)
    then show ?thesis
      using merged_ok [of T as "[]" "e # bs" b b] f(10,11) b unfolding merge_before [OF assms before] by simp
  next
    case left
    obtain c where c: "merge_result as e bs b = as @ c # bs" "sb_holds T c" "sb_lo c = sb_lo b" "sb_hi c = sb_hi e"
      using merge_left [OF assms left] by blast
    have "sb_range c = sb_range b \<union> bufs_range [e]" using c left f(6,7) by (auto simp: sb_range_def)
    moreover have "sb_ok T c" using c left f(7) by (simp add: sb_ok_def)
    moreover have "\<forall>a \<in> set as. sb_gap a c" "\<forall>r \<in> set bs. sb_gap c r"
      using c f(9,11) by (auto simp: sb_gap_def)
    ultimately show ?thesis using merged_ok [of T as "[e]" bs c b] f(10) c(1) by simp
  next
    case complete
    obtain c ms rest where c: "merge_result as e bs b = as @ c # rest" "bs = ms @ rest" "sb_ok T c"
      "sb_lo c = sb_lo b" "sb_range c = sb_range b \<union> bufs_range ms" "\<forall>r \<in> set rest. sb_gap c r"
      using merge_complete [OF assms complete] by blast
    have "sb_range e \<subseteq> sb_range b" using complete by (auto simp: sb_range_def)
    then have "sb_range c = sb_range b \<union> bufs_range (e # ms)" using c(5) by auto
    moreover have "\<forall>a \<in> set as. sb_gap a c" using c(4) f(11) by (simp add: sb_gap_def)
    ultimately show ?thesis using merged_ok [of T as "e # ms" rest c b] f(10) c by simp
  next
    case right
    obtain c ms rest where c: "merge_result as e bs b = as @ c # rest" "bs = ms @ rest" "sb_ok T c"
      "sb_lo c = sb_lo e" "sb_range c = sb_range b \<union> bufs_range (e # ms)" "\<forall>r \<in> set rest. sb_gap c r"
      using merge_right [OF assms right] by blast
    have "\<forall>a \<in> set as. sb_gap a c" using c(4) f(10) by (simp add: sb_gap_def)
    then show ?thesis using merged_ok [of T as "e # ms" rest c b] f(10) c by simp
  qed
qed

lemma insert_read_buffer_correct:
  assumes "rb_inv T rb" and "sb_ok T b"
  shows "rb_inv T (insert_read_buffer b rb) \<and> bufs_range (insert_read_buffer b rb) = bufs_range rb \<union> sb_range b"
proof (cases "rb = []")
  case True
  then show ?thesis using assms(2) by (simp add: insert_read_buffer_def)
next
  case False
  obtain as bs where sp: "rb = as @ bs" "lower_bound (\<lambda>x. sb_end x < sb_offset b) rb = length as"
    "\<forall>a \<in> set as. sb_gap a b" "\<forall>e \<in> set bs. sb_lo b \<le> sb_hi e"
    by (rule rb_search [OF assms])
  note ins = insert_read_buffer_finish [OF False, of b, unfolded sp(2)]
  show ?thesis
  proof (cases bs)
    case Nil
    have "last rb \<in> set as" using sp(1) Nil False by simp
    then have "sb_gap (last rb) b" "sb_holds T (last rb)"
      using sp(1,3) assms(1) by (auto simp: rb_inv_def sb_ok_def)
    then have "sb_end (last rb) < sb_offset b"
      using offset_cmp(8) [of T "last rb" b] assms(2) by (simp add: sb_ok_def sb_gap_def)
    then have "insert_read_buffer b rb = rb @ [b]"
      unfolding ins using sp(1) Nil by (simp add: loop_end finish_append_def current_buffer_def)
    moreover have "\<forall>a \<in> set rb. sb_gap a b" using sp(1,3) Nil by simp
    ultimately show ?thesis using assms by simp
  next
    case (Cons e bt)
    have "merge_start T as e bt b" using assms sp Cons by (simp add: merge_start_def)
    from merge_result_correct [OF this] show ?thesis
      unfolding ins unfolding sp(1) Cons merge_result_def .
  qed
qed

section \<open>Receiving\<close>

definition rd_inv :: "(nat \<Rightarrow> u8) \<Rightarrow> 'a QuicStreamLike_scheme \<Rightarrow> bool" where
  "rd_inv T s \<longleftrightarrow> rb_inv T (readBuffer s)
     \<and> (\<forall>b \<in> set (readBuffer s). unat (currentReadOffset s) \<le> sb_lo b)"

lemma check_final_size_frame:
  "check_final_size s b = Inr s' \<Longrightarrow> readBuffer s' = readBuffer s \<and> currentReadOffset s' = currentReadOffset s
     \<and> maxOffsetObserved s' = maxOffsetObserved s"
  by (auto simp: check_final_size_def Let_def split: if_splits option.splits)

lemma trim_to_read_offset_correct:
  assumes "sb_holds T b"
  shows "chainLength (sb_data (trim_to_read_offset off b)) = sb_hi b - max (sb_lo b) (unat off)"
    and "max (sb_lo b) (unat off) < sb_hi b \<Longrightarrow> sb_ok T (trim_to_read_offset off b)
      \<and> sb_lo (trim_to_read_offset off b) = max (sb_lo b) (unat off)
      \<and> sb_range (trim_to_read_offset off b) = sb_range b - {..<unat off}"
proof -
  let ?b = "trim_to_read_offset off b"
  have "chainLength (sb_data ?b) = sb_hi b - max (sb_lo b) (unat off)
    \<and> (max (sb_lo b) (unat off) < sb_hi b \<longrightarrow> sb_holds T ?b \<and> sb_lo ?b = max (sb_lo b) (unat off)
        \<and> sb_hi ?b = sb_hi b)"
  proof (cases "sb_offset b < off")
    case False
    then have "unat off \<le> sb_lo b" by (simp add: sb_lo_def word_less_nat_alt)
    with False assms chainLength_holds [OF assms] show ?thesis
      by (simp add: trim_to_read_offset_def max_def)
  next
    case True
    then have lo: "sb_lo b < unat off" by (simp add: sb_lo_def word_less_nat_alt)
    have n: "unat (off - sb_offset b) = unat off - sb_lo b"
      using lo by (simp add: unat_sub_no_wrap sb_lo_def)
    have b': "?b = b\<lparr>sb_data := snd (trimStartAtMost (sb_data b) (unat off - sb_lo b)), sb_offset := off\<rparr>"
      using True by (simp add: trim_to_read_offset_def n)
    have off: "off = sb_offset b + of_nat (unat off - sb_lo b)"
      unfolding n [symmetric] by simp
    have "chainLength (sb_data ?b) = sb_hi b - unat off"
      using assms lo by (simp add: b' bq.len_trim sb_holds_def bq.len_contents)
    with holds_trim [OF assms _ off] lo show ?thesis unfolding b' by (simp add: max_def)
  qed
  then show "chainLength (sb_data ?b) = sb_hi b - max (sb_lo b) (unat off)"
    and "max (sb_lo b) (unat off) < sb_hi b \<Longrightarrow> sb_ok T ?b \<and> sb_lo ?b = max (sb_lo b) (unat off)
      \<and> sb_range ?b = sb_range b - {..<unat off}"
    by (auto simp: sb_ok_def sb_range_def)
qed

lemma append_common_result:
  assumes "appendDataToReadBufferCommon s b v c = Inr (s', c')"
  shows "currentReadOffset s' = currentReadOffset s"
    and "readBuffer s' = (if chainLength (sb_data b) = 0
           \<or> chainLength (sb_data (trim_to_read_offset (currentReadOffset s) b)) = 0
         then readBuffer s
         else insert_read_buffer (trim_to_read_offset (currentReadOffset s) b) (readBuffer s))"
proof -
  have "currentReadOffset s' = currentReadOffset s \<and>
    readBuffer s' = (if chainLength (sb_data b) = 0
           \<or> chainLength (sb_data (trim_to_read_offset (currentReadOffset s) b)) = 0
         then readBuffer s
         else insert_read_buffer (trim_to_read_offset (currentReadOffset s) b) (readBuffer s))"
  proof (cases "\<not> sb_eof b \<and> chainLength (sb_data b) = 0")
    case True
    then show ?thesis using assms by (simp add: appendDataToReadBufferCommon_def)
  next
    case False
    then obtain s1 c1 where s1: "check_final_size s b = Inr s1"
      and eq: "(let s2 = s1\<lparr>maxOffsetObserved := max (maxOffsetObserved s1) (sb_end b)\<rparr>
        in if chainLength (sb_data b) = 0 then Inr (s2, c1)
           else let b1 = trim_to_read_offset (currentReadOffset s2) b
                in if chainLength (sb_data b1) = 0 then Inr (s2, c1)
                   else Inr (s2\<lparr>readBuffer := insert_read_buffer b1 (readBuffer s2)\<rparr>, c1)) = (Inr (s', c') :: exn + _)"
      using assms unfolding appendDataToReadBufferCommon_def if_not_P [OF False]
      by (auto simp: and_then_eq_Inr)
    note fr = check_final_size_frame [OF s1]
    show ?thesis
    proof (cases "chainLength (sb_data b) = 0
        \<or> chainLength (sb_data (trim_to_read_offset (currentReadOffset s) b)) = 0")
      case True
      then have "s' = s1\<lparr>maxOffsetObserved := max (maxOffsetObserved s1) (sb_end b)\<rparr>"
        using eq fr by (auto simp: Let_def split: if_splits)
      then show ?thesis using True fr by simp
    next
      case False
      then have "s' = s1\<lparr>maxOffsetObserved := max (maxOffsetObserved s1) (sb_end b),
          readBuffer := insert_read_buffer (trim_to_read_offset (currentReadOffset s) b) (readBuffer s)\<rparr>"
        using eq fr by (auto simp: Let_def split: if_splits)
      then show ?thesis using False fr by simp
    qed
  qed
  then show "currentReadOffset s' = currentReadOffset s"
    and "readBuffer s' = (if chainLength (sb_data b) = 0
           \<or> chainLength (sb_data (trim_to_read_offset (currentReadOffset s) b)) = 0
         then readBuffer s
         else insert_read_buffer (trim_to_read_offset (currentReadOffset s) b) (readBuffer s))"
    by blast+
qed

lemma append_common_correct:
  assumes "rd_inv T s" and "sb_holds T b"
    and "appendDataToReadBufferCommon s b v c = Inr (s', c')"
  shows "rd_inv T s' \<and> currentReadOffset s' = currentReadOffset s
    \<and> bufs_range (readBuffer s') = bufs_range (readBuffer s) \<union> (sb_range b - {..<unat (currentReadOffset s)})"
proof -
  let ?r = "currentReadOffset s" and ?b = "trim_to_read_offset (currentReadOffset s) b"
  note res = append_common_result [OF assms(3)]
  note b = trim_to_read_offset_correct [OF assms(2), of ?r]
  have inv: "rb_inv T (readBuffer s)" "\<forall>x \<in> bufs_range (readBuffer s). unat ?r \<le> x"
    using assms(1) by (auto simp: rd_inv_def bufs_range_def sb_range_def intro: le_trans)
  show ?thesis
  proof (cases "max (sb_lo b) (unat ?r) < sb_hi b")
    case False
    then have "bufs_range (readBuffer s) = bufs_range (readBuffer s) \<union> (sb_range b - {..<unat ?r})"
      by (auto simp: sb_range_def)
    moreover have "readBuffer s' = readBuffer s" using res(2) b(1) False by simp
    ultimately show ?thesis using assms(1) res(1) unfolding rd_inv_def by simp
  next
    case True
    then have "readBuffer s' = insert_read_buffer ?b (readBuffer s)"
      using res(2) b(1) chainLength_holds [OF assms(2)] by (simp add: max_def split: if_splits)
    moreover note insert_read_buffer_correct [OF inv(1), of ?b] b(2) [OF True]
    ultimately have "rb_inv T (readBuffer s')"
      and range: "bufs_range (readBuffer s') = bufs_range (readBuffer s) \<union> (sb_range b - {..<unat ?r})"
      by auto
    moreover have "unat ?r \<le> sb_lo x" if "x \<in> set (readBuffer s')" for x
    proof -
      have "sb_lo x \<in> bufs_range (readBuffer s')"
        using that \<open>rb_inv T (readBuffer s')\<close> by (auto simp: bufs_range_def sb_range_def rb_inv_def sb_ok_def)
      then show ?thesis using range inv(2) by auto
    qed
    ultimately show ?thesis using res(1) by (simp add: rd_inv_def)
  qed
qed

section \<open>Reading in order\<close>

text \<open>How many bytes can be read at once: the buffers leave gaps, so only the first counts.\<close>

definition readable :: "'a QuicStreamLike_scheme \<Rightarrow> nat" where
  "readable s = (case readBuffer s of
     [] \<Rightarrow> 0
   | b # _ \<Rightarrow> if sb_lo b = unat (currentReadOffset s) then sb_hi b - sb_lo b else 0)"

definition read_amount :: "u64 \<Rightarrow> nat \<Rightarrow> nat" where
  "read_amount amount n = (if amount = 0 then n else min n (unat amount))"

lemma read_loop_stop:
  assumes "rd_inv T s" and "readable s = 0 \<or> (amount \<noteq> 0 \<and> remaining = 0)"
  shows "read_loop (Suc fuel) amount remaining sink s data eof = Some (Inr (s, data, eof))"
proof (cases "readBuffer s")
  case (Cons b rest)
  have "sb_ok T b" "unat (currentReadOffset s) \<le> sb_lo b" using assms(1) Cons by (auto simp: rd_inv_def)
  then have "(amount \<noteq> 0 \<and> remaining = 0) \<or> currentReadOffset s < sb_offset b"
    using assms(2) Cons by (auto simp: readable_def sb_ok_def sb_lo_def word_less_nat_alt)
  with Cons show ?thesis by auto
qed simp

text \<open>One turn of the loop on a first buffer that starts at the read offset.\<close>

lemma read_loop_turn:
  assumes inv: "rd_inv T s" and rb: "readBuffer s = b # rest" and lo: "sb_lo b = unat (currentReadOffset s)"
    and n: "n = read_amount amount (sb_hi b - sb_lo b)" and more: "amount = 0 \<or> remaining = amount"
  shows "\<exists>data' eof' q. read_loop (Suc fuel) amount remaining sink s data eof =
       read_loop fuel amount (if amount \<noteq> 0 then remaining - of_nat n else remaining) sink
         (s\<lparr>readBuffer := (if n = sb_hi b - sb_lo b then rest else q # rest),
            currentReadOffset := currentReadOffset s + of_nat n\<rparr>) data' eof'
     \<and> concat data' = concat data @ (if sink then [] else map T [sb_lo b ..< sb_lo b + n])
     \<and> sb_holds T q \<and> sb_lo q = sb_lo b + n \<and> sb_hi q = sb_hi b"
proof -
  have b: "sb_holds T b" "sb_lo b < sb_hi b" "sb_hi b < 2 ^ 64"
    using inv rb by (auto simp: rd_inv_def sb_ok_def sb_holds_def)
  let ?L = "sb_hi b - sb_lo b"
  have nL: "n \<le> ?L" using n by (simp add: read_amount_def)
  have len: "chainLength (sb_data b) = ?L" using chainLength_holds [OF b(1)] .
  have toRead: "min (of_nat ?L) (if amount = 0 then of_nat ?L else remaining) = (of_nat n :: u64)"
    using n more nL b(3) unat_of_nat_u64 [of ?L] unat_of_nat_u64 [of n]
    by (auto simp: word_unat_eq_iff unat_min_u64 read_amount_def)
  have unat_n: "unat (of_nat n :: u64) = n" using nL b(3) by (intro unat_of_nat_u64) simp
  have turn: "amount = 0 \<or> remaining \<noteq> 0" using more by auto
  have at: "\<not> sb_offset b > currentReadOffset s" using lo by (simp add: sb_lo_def word_less_nat_alt)
  have inv_b: "bq_inv (sb_data b)" "length (bq_bytes (sb_data b)) = ?L"
    using b(1) length_holds by (auto simp: sb_holds_def)
  show ?thesis
  proof (cases sink)
    case True
    let ?q = "snd (trimStartAtMost (sb_data b) n)"
    let ?b = "b\<lparr>sb_data := ?q, sb_offset := sb_offset b + of_nat n\<rparr>"
    have trim: "trimStart (sb_data b) n = Inr ?q" using inv_b nL by (simp add: trimStart_Inr)
    have q: "(chainLength ?q = 0) = (n = ?L)" using inv_b len nL by (auto simp: bq.len_trim)
    have "sb_holds T ?b \<and> sb_lo ?b = sb_lo b + n \<and> sb_hi ?b = sb_hi b"
      using holds_trim [OF b(1) nL refl] .
    moreover have "read_loop (Suc fuel) amount remaining sink s data eof =
       read_loop fuel amount (if amount \<noteq> 0 then remaining - of_nat n else remaining) sink
         (s\<lparr>readBuffer := (if n = ?L then rest else ?b # rest),
            currentReadOffset := currentReadOffset s + of_nat n\<rparr>) data (if n = ?L then sb_eof b else eof)"
      unfolding read_loop.simps(2) rb list.case len toRead Let_def unat_n trim
      using True turn at q by (auto simp: and_then_def)
    ultimately show ?thesis using True by fastforce
  next
    case False
    let ?q = "snd (splitAtMost (sb_data b) n)"
    let ?b = "b\<lparr>sb_data := ?q, sb_offset := sb_offset b + of_nat n\<rparr>"
    have q: "(chainLength ?q = 0) = (n = ?L)" using inv_b len nL by (auto simp: bq.len_split)
    have "sb_holds T ?b \<and> sb_lo ?b = sb_lo b + n \<and> sb_hi ?b = sb_hi b"
      using holds_split(1-3) [OF b(1) nL refl] by blast
    moreover have "read_loop (Suc fuel) amount remaining sink s data eof =
       read_loop fuel amount (if amount \<noteq> 0 then remaining - of_nat n else remaining) sink
         (s\<lparr>readBuffer := (if n = ?L then rest else ?b # rest),
            currentReadOffset := currentReadOffset s + of_nat n\<rparr>)
         (data @ fst (splitAtMost (sb_data b) n)) (if n = ?L then sb_eof b else eof)"
      unfolding read_loop.simps(2) rb list.case len toRead Let_def unat_n
      using False turn at q by (auto simp: split_def)
    moreover have "concat (fst (splitAtMost (sb_data b) n)) = map T [sb_lo b ..< sb_lo b + n]"
      using inv_b(1) b(1,2) nL by (simp add: bq.buf_split sb_holds_def take_map take_upt)
    ultimately show ?thesis using False by fastforce
  qed
qed

lemma rd_inv_range_ge: "rd_inv T s \<Longrightarrow> x \<in> bufs_range (readBuffer s) \<Longrightarrow> unat (currentReadOffset s) \<le> x"
  by (auto simp: rd_inv_def bufs_range_def sb_range_def intro: le_trans)

text \<open>Reading returns the bytes of the stream from the read offset on, as many as are there
  without a gap and asked for.\<close>

lemma read_in_order_correct:
  assumes "rd_inv T s" and n: "n = read_amount amount (readable s)"
  shows "\<exists>s' data eof. readDataInOrderFromReadBuffer s amount sink = Some (Inr (s', data, eof))
    \<and> rd_inv T s' \<and> unat (currentReadOffset s') = unat (currentReadOffset s) + n
    \<and> concat data = (if sink then [] else map T [unat (currentReadOffset s) ..< unat (currentReadOffset s) + n])
    \<and> bufs_range (readBuffer s') = bufs_range (readBuffer s) - {..<unat (currentReadOffset s) + n}
    \<and> finalReadOffset s' = finalReadOffset s \<and> maxOffsetObserved s' = maxOffsetObserved s"
proof (cases "readable s = 0")
  case True
  then have "n = 0" using n by (simp add: read_amount_def)
  moreover have "bufs_range (readBuffer s) = bufs_range (readBuffer s) - {..<unat (currentReadOffset s)}"
    using rd_inv_range_ge [OF assms(1)] by force
  moreover have "readDataInOrderFromReadBuffer s amount sink = Some (Inr (s, [], False))"
    using read_loop_stop [OF assms(1), of amount amount] True by (simp add: readDataInOrderFromReadBuffer_def del: read_loop.simps)
  ultimately show ?thesis using assms(1) by auto
next
  case False
  then obtain b rest where rb: "readBuffer s = b # rest" and lo: "sb_lo b = unat (currentReadOffset s)"
    by (auto simp: readable_def split: list.splits if_splits)
  let ?L = "sb_hi b - sb_lo b" and ?r = "unat (currentReadOffset s)"
  have r: "readable s = ?L" using rb lo by (simp add: readable_def)
  have b: "sb_ok T b" "rb_inv T rest" "\<forall>x \<in> set rest. sb_gap b x"
    using assms(1) rb by (auto simp: rd_inv_def)
  have nL: "n \<le> ?L" using n r by (simp add: read_amount_def)
  obtain data' eof' q where turn: "readDataInOrderFromReadBuffer s amount sink =
      read_loop (Suc (length rest + 1)) amount (if amount \<noteq> 0 then amount - of_nat n else amount) sink
         (s\<lparr>readBuffer := (if n = ?L then rest else q # rest),
            currentReadOffset := currentReadOffset s + of_nat n\<rparr>) data' eof'"
    and data': "concat data' = (if sink then [] else map T [sb_lo b ..< sb_lo b + n])"
    and q: "sb_holds T q" "sb_lo q = sb_lo b + n" "sb_hi q = sb_hi b"
    using read_loop_turn [OF assms(1) rb lo _ _, of n amount amount "Suc (length rest + 1)" sink "[]" False] n r
    by (auto simp: readDataInOrderFromReadBuffer_def rb)
  let ?s = "s\<lparr>readBuffer := (if n = ?L then rest else q # rest),
            currentReadOffset := currentReadOffset s + of_nat n\<rparr>"
  have top: "sb_hi b < 2 ^ 64" "sb_lo b < sb_hi b" using b(1) by (auto simp: sb_ok_def sb_holds_def)
  have off: "unat (currentReadOffset ?s) = ?r + n"
    using nL top lo unat_offset_no_wrap [of "currentReadOffset s" n] by simp
  have above: "sb_hi b < sb_lo c" if "c \<in> set rest" for c using b(3) that by (auto simp: sb_gap_def)
  have inv: "rd_inv T ?s"
  proof (cases "n = ?L")
    case True
    then have "?r + n = sb_hi b" using lo top by simp
    then show ?thesis using True b(2) above off by (auto simp: rd_inv_def intro: less_imp_le)
  next
    case False
    then have "sb_lo q < sb_hi q" using q nL by simp
    moreover have "?r + n \<le> sb_lo c" if "c \<in> set rest" for c using above [OF that] nL lo top by simp
    ultimately show ?thesis using False b(2,3) off q lo by (auto simp: rd_inv_def sb_ok_def sb_gap_def)
  qed
  have stop: "readable ?s = 0 \<or> (amount \<noteq> 0 \<and> (if amount \<noteq> 0 then amount - of_nat n else amount) = 0)"
  proof (cases "n = ?L")
    case True
    then have "?r + n = sb_hi b" using lo top by simp
    then show ?thesis using True above [of "hd rest"] off by (cases rest) (auto simp: readable_def)
  next
    case False
    then have "amount \<noteq> 0" "n = unat amount" using n r by (auto simp: read_amount_def split: if_splits)
    then show ?thesis by simp
  qed
  have range: "bufs_range (readBuffer ?s) = bufs_range (readBuffer s) - {..<?r + n}"
  proof -
    have rest: "?r + n \<le> x" if x: "x \<in> bufs_range rest" for x
    proof -
      obtain c where "c \<in> set rest" "sb_lo c \<le> x" using x by (auto simp: bufs_range_def sb_range_def)
      then show ?thesis using above [of c] nL lo top by simp
    qed
    have "bufs_range rest - {..<?r + n} = bufs_range rest" using rest by (force simp: not_less)
    moreover have "(if n = ?L then {} else sb_range q) = sb_range b - {..<?r + n}"
      using q nL lo top by (auto simp: sb_range_def)
    ultimately show ?thesis by (auto simp: rb Un_Diff split: if_splits)
  qed
  have "readDataInOrderFromReadBuffer s amount sink = Some (Inr (?s, data', eof'))"
    unfolding turn using read_loop_stop [OF inv stop] by simp
  then show ?thesis using inv off range data' lo by auto
qed

section \<open>A crypto stream from its first byte on\<close>

text \<open>
  The runs of a crypto stream: CRYPTO frames that carry bytes of the stream \<open>T\<close> arrive in any
  order, overlapping and repeated, and the handshake reads between them. \<open>d\<close> collects what
  was read, \<open>R\<close> the offsets that have arrived.
\<close>

inductive crypto_run :: "(nat \<Rightarrow> u8) \<Rightarrow> QuicStreamLike \<Rightarrow> u8 list \<Rightarrow> nat set \<Rightarrow> bool" for T where
  run_init: "crypto_run T QuicStreamLike_init [] {}"
| run_append: "\<lbrakk>crypto_run T s d R; sb_holds T b; appendDataToReadBuffer_crypto s b = Inr s'\<rbrakk>
    \<Longrightarrow> crypto_run T s' d (R \<union> sb_range b)"
| run_read: "\<lbrakk>crypto_run T s d R; readDataFromCryptoStream s amount = Some (Inr (s', data))\<rbrakk>
    \<Longrightarrow> crypto_run T s' (d @ concat data) R"

lemma readDataFromCryptoStream_correct:
  assumes "rd_inv T s" and "n = read_amount amount (readable s)"
  shows "\<exists>s' data. readDataFromCryptoStream s amount = Some (Inr (s', data))
    \<and> rd_inv T s' \<and> unat (currentReadOffset s') = unat (currentReadOffset s) + n
    \<and> concat data = map T [unat (currentReadOffset s) ..< unat (currentReadOffset s) + n]
    \<and> bufs_range (readBuffer s') = bufs_range (readBuffer s) - {..<unat (currentReadOffset s) + n}"
  using read_in_order_correct [OF assms, of False] by (auto simp: readDataFromCryptoStream_def)

lemma readable_covered:
  assumes "rd_inv T s" and "x < readable s"
  shows "unat (currentReadOffset s) + x \<in> bufs_range (readBuffer s)"
  using assms by (auto simp: readable_def sb_range_def split: list.splits if_splits)

lemma readable_complete:
  assumes "rd_inv T s" and "{unat (currentReadOffset s) ..< n} \<subseteq> bufs_range (readBuffer s)"
  shows "n \<le> unat (currentReadOffset s) + readable s"
proof (rule ccontr)
  let ?r = "unat (currentReadOffset s)"
  assume less: "\<not> n \<le> ?r + readable s"
  then have m: "?r + readable s \<in> bufs_range (readBuffer s)" using assms(2) by auto
  then obtain b rest where rb: "readBuffer s = b # rest" by (cases "readBuffer s") auto
  have b: "sb_ok T b" "\<forall>c \<in> set rest. sb_hi b < sb_lo c" "?r \<le> sb_lo b"
    using assms(1) rb by (auto simp: rd_inv_def sb_gap_def)
  have "?r \<in> bufs_range (readBuffer s)" using assms(2) less by auto
  then have lo: "sb_lo b = ?r" using rb b by (auto simp: bufs_range_def sb_range_def sb_ok_def)
  then have "?r + readable s = sb_hi b" using rb b(1) by (simp add: readable_def sb_ok_def)
  then show False using m rb b(2) by (auto simp: bufs_range_def sb_range_def)
qed

lemma crypto_run_inv:
  assumes "crypto_run T s d R"
  shows "rd_inv T s \<and> d = map T [0 ..< unat (currentReadOffset s)]
    \<and> {..<unat (currentReadOffset s)} \<subseteq> R
    \<and> bufs_range (readBuffer s) = R - {..<unat (currentReadOffset s)}"
  using assms
proof induction
  case run_init
  then show ?case by (simp add: QuicStreamLike_init_def rd_inv_def)
next
  case (run_append s d R b s')
  then obtain c where "appendDataToReadBufferCommon s b (\<lambda>_ _ _ c. Inr c) () = Inr (s', c)"
    by (auto simp: appendDataToReadBuffer_crypto_def and_then_eq_Inr)
  from append_common_correct [OF _ run_append.hyps(2) this] run_append.IH
  show ?case by (auto simp: Un_Diff)
next
  case (run_read s d R amount s' data)
  let ?r = "unat (currentReadOffset s)" and ?n = "read_amount amount (readable s)"
  have s': "rd_inv T s'" "unat (currentReadOffset s') = ?r + ?n" "concat data = map T [?r ..< ?r + ?n]"
    "bufs_range (readBuffer s') = bufs_range (readBuffer s) - {..<?r + ?n}"
    using readDataFromCryptoStream_correct [of T s _ amount, OF _ refl] run_read by auto
  have "?n \<le> readable s" by (simp add: read_amount_def)
  have "{..<?r + ?n} \<subseteq> R"
  proof
    fix x assume "x \<in> {..<?r + ?n}"
    then show "x \<in> R"
      using run_read.IH readable_covered [of T s "x - ?r"] \<open>?n \<le> readable s\<close> by (cases "x < ?r") auto
  qed
  moreover have "d @ concat data = map T [0 ..< ?r + ?n]"
    using run_read.IH s'(3) by (simp flip: map_append add: upt_add_eq_append [of 0 ?r])
  ultimately show ?case using s' run_read.IH by auto
qed

text \<open>The final size: once known it never changes, and nothing beyond it is taken.\<close>

definition size_inv :: "'a QuicStreamLike_scheme \<Rightarrow> bool" where
  "size_inv s \<longleftrightarrow> (\<forall>f. finalReadOffset s = Some f \<longrightarrow> maxOffsetObserved s \<le> f)"

lemma append_common_sizes:
  assumes "size_inv s" and "appendDataToReadBufferCommon s b v c = Inr (s', c')"
    and "sb_eof b \<or> chainLength (sb_data b) \<noteq> 0"
  shows "size_inv s'" and "maxOffsetObserved s' = max (maxOffsetObserved s) (sb_end b)"
    and "finalReadOffset s' = (if sb_eof b then Some (sb_end b) else finalReadOffset s)"
    and "\<forall>f. finalReadOffset s = Some f \<longrightarrow> finalReadOffset s' = Some f"
proof -
  obtain s1 where s1: "check_final_size s b = Inr s1" and s':
    "finalReadOffset s' = finalReadOffset s1" "maxOffsetObserved s' = max (maxOffsetObserved s1) (sb_end b)"
    using assms(2,3)
    by (auto simp: appendDataToReadBufferCommon_def and_then_eq_Inr Let_def split: if_splits)
  then show "size_inv s'" "maxOffsetObserved s' = max (maxOffsetObserved s) (sb_end b)"
    "finalReadOffset s' = (if sb_eof b then Some (sb_end b) else finalReadOffset s)"
    "\<forall>f. finalReadOffset s = Some f \<longrightarrow> finalReadOffset s' = Some f"
    using assms(1) by (auto simp: check_final_size_def size_inv_def Let_def split: if_splits option.splits)
qed

lemma append_common_noop:
  "\<not> (sb_eof b \<or> chainLength (sb_data b) \<noteq> 0) \<Longrightarrow> appendDataToReadBufferCommon s b v c = Inr (s, c)"
  by (simp add: appendDataToReadBufferCommon_def)

lemma crypto_read_sizes:
  assumes "crypto_run T s d R" and "readDataFromCryptoStream s amount = Some (Inr (s', data))"
  shows "finalReadOffset s' = finalReadOffset s \<and> maxOffsetObserved s' = maxOffsetObserved s"
proof -
  have "rd_inv T s" using assms(1) crypto_run_inv by blast
  then show ?thesis
    using read_in_order_correct [of T s _ amount False, OF _ refl] assms(2)
    by (auto simp: readDataFromCryptoStream_def)
qed

lemma crypto_run_sizes:
  assumes "crypto_run T s d R"
  shows "size_inv s \<and> (\<forall>x \<in> R. x < unat (maxOffsetObserved s))"
  using assms
proof induction
  case run_init
  then show ?case by (simp add: QuicStreamLike_init_def size_inv_def)
next
  case (run_append s d R b s')
  then obtain c where a: "appendDataToReadBufferCommon s b (\<lambda>_ _ _ c. Inr c) () = Inr (s', c)"
    by (auto simp: appendDataToReadBuffer_crypto_def and_then_eq_Inr)
  show ?case
  proof (cases "sb_eof b \<or> chainLength (sb_data b) \<noteq> 0")
    case True
    have "unat (maxOffsetObserved s') = max (unat (maxOffsetObserved s)) (sb_hi b)"
      using append_common_sizes(2) [OF _ a True] run_append unat_sb_end
      by (simp add: unat_max_u64)
    then show ?thesis using append_common_sizes(1) [OF _ a True] run_append.IH
      by (auto simp: sb_range_def)
  next
    case False
    then have "sb_range b = {}" using chainLength_holds [OF run_append.hyps(2)] by (simp add: sb_range_def)
    moreover have "s' = s" using a unfolding append_common_noop [OF False] by simp
    ultimately show ?thesis using run_append.IH by simp
  qed
next
  case (run_read s d R amount s' data)
  then show ?case using crypto_read_sizes by (auto simp: size_inv_def)
qed

lemma crypto_run_bound:
  assumes "crypto_run T s d R" and "finalReadOffset s = Some f"
  shows "R \<subseteq> {..<unat f}"
  using crypto_run_sizes [OF assms(1)] assms(2)
  by (auto simp: size_inv_def word_le_nat_alt intro: less_le_trans)

text \<open>The largest offset observed belongs to a byte that arrived or is the final size.\<close>

definition observed :: "nat set \<Rightarrow> 'a QuicStreamLike_scheme \<Rightarrow> bool" where
  "observed R s \<longleftrightarrow> maxOffsetObserved s = 0 \<or> finalReadOffset s = Some (maxOffsetObserved s)
     \<or> (\<exists>x \<in> R. unat (maxOffsetObserved s) = Suc x)"

lemma crypto_run_observed:
  assumes "crypto_run T s d R"
  shows "observed R s"
  using assms
proof induction
  case run_init
  then show ?case by (simp add: QuicStreamLike_init_def observed_def)
next
  case (run_append s d R b s')
  then obtain c where a: "appendDataToReadBufferCommon s b (\<lambda>_ _ _ c. Inr c) () = Inr (s', c)"
    by (auto simp: appendDataToReadBuffer_crypto_def and_then_eq_Inr)
  show ?case
  proof (cases "sb_eof b \<or> chainLength (sb_data b) \<noteq> 0")
    case True
    note sizes = append_common_sizes [OF crypto_run_sizes [OF run_append.hyps(1), THEN conjunct1] a True]
    show ?thesis
    proof (cases "maxOffsetObserved s < sb_end b \<and> chainLength (sb_data b) \<noteq> 0")
      case True
      then have "sb_hi b - 1 \<in> sb_range b" "unat (maxOffsetObserved s') = Suc (sb_hi b - 1)"
        using sizes(2) unat_sb_end [OF run_append.hyps(2)] chainLength_holds [OF run_append.hyps(2)]
        by (auto simp: sb_range_def max_def)
      then show ?thesis unfolding observed_def by blast
    next
      case False
      then show ?thesis using sizes(2-4) run_append.IH True
        by (auto simp: observed_def max_def split: if_splits)
    qed
  next
    case False
    then show ?thesis using a run_append.IH unfolding append_common_noop [OF False] by (auto simp: observed_def)
  qed
next
  case (run_read s d R amount s' data)
  then show ?case using crypto_read_sizes by (auto simp: observed_def)
qed

text \<open>C1: Whatever the order, overlap and repetition in which CRYPTO frames arrive, what
  has been read is a prefix of the stream, byte for byte and without a gap; every byte read has
  arrived; and exactly the bytes that have arrived and have not been read are still buffered.\<close>

theorem crypto_stream_reassembly:
  assumes "crypto_run T s d R"
  shows "d = map T [0 ..< unat (currentReadOffset s)]
    \<and> {..<unat (currentReadOffset s)} \<subseteq> R
    \<and> bufs_range (readBuffer s) = R - {..<unat (currentReadOffset s)}"
  using crypto_run_inv [OF assms] by blast

text \<open>C30: Reading a crypto stream always returns (the loop ends and throws nothing), and a read
  without a limit delivers every byte up to the first one that has not arrived.\<close>

theorem crypto_stream_read_complete:
  assumes "crypto_run T s d R" and "{..<n} \<subseteq> R"
  shows "\<exists>s' data. readDataFromCryptoStream s 0 = Some (Inr (s', data))
    \<and> n \<le> unat (currentReadOffset s') \<and> d @ concat data = map T [0 ..< unat (currentReadOffset s')]"
proof -
  note inv = crypto_run_inv [OF assms(1)]
  obtain s' data where s': "readDataFromCryptoStream s 0 = Some (Inr (s', data))"
    "unat (currentReadOffset s') = unat (currentReadOffset s) + readable s"
    using readDataFromCryptoStream_correct [of T s _ 0, OF _ refl] inv by (auto simp: read_amount_def)
  moreover have "n \<le> unat (currentReadOffset s) + readable s"
    using inv assms(2) by (intro readable_complete [of T]) auto
  moreover note crypto_run_inv [OF run_read [OF assms(1) s'(1)]]
  ultimately show ?thesis by auto
qed

text \<open>When a buffer contradicts the final size: it marks another end than the known one or an end
  in front of a byte that has arrived, or it brings a byte at or behind the known end.\<close>

definition size_conflict :: "u64 option \<Rightarrow> nat set \<Rightarrow> StreamBuffer \<Rightarrow> bool" where
  "size_conflict final R b \<longleftrightarrow>
     (if sb_eof b then (\<exists>f. final = Some f \<and> unat f \<noteq> sb_hi b) \<or> (\<exists>x \<in> R. sb_hi b \<le> x)
      else (\<exists>f. final = Some f \<and> (\<exists>x \<in> sb_range b. unat f \<le> x)))"

lemma check_final_size_conflict:
  assumes "sb_holds T b" and "sb_eof b \<or> chainLength (sb_data b) \<noteq> 0"
    and "\<forall>x \<in> R. x < unat (maxOffsetObserved s)" and "observed R s"
  shows "check_final_size s b =
    (if size_conflict (finalReadOffset s) R b then Inl (QuicTransportException FINAL_SIZE_ERROR)
     else Inr (if sb_eof b then s\<lparr>finalReadOffset := Some (sb_end b)\<rparr> else s))"
proof (cases "sb_eof b")
  case True
  have e: "unat (sb_end b) = sb_hi b" using assms(1) by (rule unat_sb_end)
  have late: "\<exists>x \<in> R. sb_hi b \<le> x" if big: "sb_end b < maxOffsetObserved s" and "finalReadOffset s \<noteq> Some (maxOffsetObserved s)"
  proof -
    have "sb_hi b < unat (maxOffsetObserved s)" using big e by (simp add: word_less_nat_alt)
    with that(2) assms(4) obtain x where "x \<in> R" "unat (maxOffsetObserved s) = Suc x"
      unfolding observed_def by auto
    with \<open>sb_hi b < unat (maxOffsetObserved s)\<close> show ?thesis by (intro bexI [of _ x]) simp_all
  qed
  have seen: "sb_end b < maxOffsetObserved s" if "x \<in> R" "sb_hi b \<le> x" for x
    using bspec [OF assms(3) that(1)] that(2) e by (simp add: word_less_nat_alt)
  show ?thesis
  proof (cases "finalReadOffset s")
    case None
    then have "size_conflict (finalReadOffset s) R b \<longleftrightarrow> sb_end b < maxOffsetObserved s"
      using True late seen unfolding size_conflict_def by auto
    then show ?thesis using True None by (simp add: check_final_size_def Let_def)
  next
    case (Some f)
    then have "size_conflict (finalReadOffset s) R b \<longleftrightarrow> f \<noteq> sb_end b \<or> sb_end b < maxOffsetObserved s"
      using True late seen e unfolding size_conflict_def by (cases "f = sb_end b") (auto simp: word_unat_eq_iff word_less_nat_alt)
    then show ?thesis using True Some by (simp add: check_final_size_def Let_def)
  qed
next
  case False
  then have "sb_lo b < sb_hi b" using assms(2) chainLength_holds [OF assms(1)] by simp
  then have "(\<exists>x \<in> sb_range b. unat f \<le> x) \<longleftrightarrow> f < sb_end b" for f
    using unat_sb_end [OF assms(1)] by (auto simp: sb_range_def word_less_nat_alt intro!: bexI [of _ "sb_hi b - 1"])
  then show ?thesis using False by (simp add: check_final_size_def size_conflict_def Let_def split: option.split)
qed


text \<open>A run for the witnesses: of the stream \<open>0, 1, 2, ...\<close> the offsets 3 and 4 arrive
  first, with the end marker, then 0 to 3.\<close>

definition demo_tail :: StreamBuffer where
  "demo_tail = StreamBuffer_make [[3, 4]] 3 True"

definition demo_head :: StreamBuffer where
  "demo_head = StreamBuffer_make [[0, 1], [2, 3]] 0 False"

definition demo_append :: "QuicStreamLike \<Rightarrow> StreamBuffer \<Rightarrow> QuicStreamLike" where
  "demo_append s b = (case appendDataToReadBuffer_crypto s b of Inl _ \<Rightarrow> s | Inr s' \<Rightarrow> s')"

lemma demo_append_Inr:
  "\<not> isl (appendDataToReadBuffer_crypto s b) \<Longrightarrow> appendDataToReadBuffer_crypto s b = Inr (demo_append s b)"
  by (auto simp: demo_append_def split: sum.splits)

lemma demo_holds:
  shows "sb_holds of_nat demo_tail" and "sb_holds of_nat demo_head"
    and "sb_range demo_tail = {3, 4}" and "sb_range demo_head = {0, 1, 2, 3}"
proof -
  have lo: "sb_lo demo_tail = 3" "sb_hi demo_tail = 5" "sb_lo demo_head = 0" "sb_hi demo_head = 4"
    by (simp_all add: sb_lo_def sb_hi_def StreamBuffer_make_def bq.contents_of_buf demo_tail_def demo_head_def)
  show "sb_holds of_nat demo_tail" "sb_holds of_nat demo_head"
    unfolding sb_holds_def lo
    by (simp_all add: StreamBuffer_make_def bq.contents_of_buf bq.invar_of_buf upt_rec demo_tail_def demo_head_def)
  show "sb_range demo_tail = {3, 4}" "sb_range demo_head = {0, 1, 2, 3}"
    unfolding sb_range_def lo by auto
qed

definition demo_state :: QuicStreamLike where
  "demo_state = demo_append (demo_append QuicStreamLike_init demo_tail) demo_head"

lemma demo_run: "crypto_run of_nat demo_state [] {0, 1, 2, 3, 4}"
proof -
  have a: "\<not> isl (appendDataToReadBuffer_crypto QuicStreamLike_init demo_tail)"
    "\<not> isl (appendDataToReadBuffer_crypto (demo_append QuicStreamLike_init demo_tail) demo_head)"
    by code_simp+
  note run_append [OF run_append [OF run_init demo_holds(1) demo_append_Inr [OF a(1)]]
    demo_holds(2) demo_append_Inr [OF a(2)]]
  moreover have "{} \<union> {3, 4} \<union> {0, 1, 2, 3} = {0, 1, 2, 3, 4 :: nat}" by auto
  ultimately show ?thesis by (simp only: demo_holds demo_state_def)
qed

theorem crypto_stream_reassembly_witness:
  "bufs_range (readBuffer demo_state) = {0, 1, 2, 3, 4}"
proof -
  have "currentReadOffset demo_state = 0" by code_simp
  then show ?thesis using crypto_stream_reassembly [OF demo_run] by simp
qed

theorem crypto_stream_read_complete_witness:
  "\<exists>s' data. readDataFromCryptoStream demo_state 0 = Some (Inr (s', data)) \<and> 5 \<le> unat (currentReadOffset s')"
proof -
  have "{..<5} \<subseteq> {0, 1, 2, 3, 4 :: nat}" by auto
  then show ?thesis using crypto_stream_read_complete [OF demo_run] by blast
qed

definition demo_late :: StreamBuffer where
  "demo_late = StreamBuffer_make [[5, 6]] 5 False"


end
