(* ===== verification/Frames.thy ===== *)
theory Frames
  imports Buf_Queue Interval_Set
begin

text \<open>
  The frames of a packet, \<^verbatim>\<open>protocol/quic_frame.hpp\<close>: one datatype per structure with the
  members as selectors, and the variant types a packet is made of. Frame types are the
  enumeration of \<^verbatim>\<open>protocol/quic_constants.hpp\<close>; its underlying type is
  \<^verbatim>\<open>uint64_t\<close> and the parser casts any integer to it, so a frame type is a 64-bit word and
  the enumerators are constants. Connection identifiers are the bytes that
  \<^verbatim>\<open>data()\<close> and \<^verbatim>\<open>size()\<close> delimit.
\<close>

section \<open>Frame types\<close>

type_synonym FrameType = u64

abbreviation (input) PADDING :: FrameType where "PADDING \<equiv> 0x00"
abbreviation (input) PING :: FrameType where "PING \<equiv> 0x01"
abbreviation (input) ACK :: FrameType where "ACK \<equiv> 0x02"
abbreviation (input) ACK_ECN :: FrameType where "ACK_ECN \<equiv> 0x03"
abbreviation (input) RST_STREAM :: FrameType where "RST_STREAM \<equiv> 0x04"
abbreviation (input) STOP_SENDING :: FrameType where "STOP_SENDING \<equiv> 0x05"
abbreviation (input) CRYPTO_FRAME :: FrameType where "CRYPTO_FRAME \<equiv> 0x06"
abbreviation (input) NEW_TOKEN :: FrameType where "NEW_TOKEN \<equiv> 0x07"
abbreviation (input) STREAM :: FrameType where "STREAM \<equiv> 0x08"
abbreviation (input) STREAM_OFF_LEN_FIN :: FrameType where "STREAM_OFF_LEN_FIN \<equiv> 0x0f"
abbreviation (input) MAX_DATA :: FrameType where "MAX_DATA \<equiv> 0x10"
abbreviation (input) MAX_STREAM_DATA :: FrameType where "MAX_STREAM_DATA \<equiv> 0x11"
abbreviation (input) MAX_STREAMS_BIDI :: FrameType where "MAX_STREAMS_BIDI \<equiv> 0x12"
abbreviation (input) MAX_STREAMS_UNI :: FrameType where "MAX_STREAMS_UNI \<equiv> 0x13"
abbreviation (input) DATA_BLOCKED :: FrameType where "DATA_BLOCKED \<equiv> 0x14"
abbreviation (input) STREAM_DATA_BLOCKED :: FrameType where "STREAM_DATA_BLOCKED \<equiv> 0x15"
abbreviation (input) STREAMS_BLOCKED_BIDI :: FrameType where "STREAMS_BLOCKED_BIDI \<equiv> 0x16"
abbreviation (input) STREAMS_BLOCKED_UNI :: FrameType where "STREAMS_BLOCKED_UNI \<equiv> 0x17"
abbreviation (input) NEW_CONNECTION_ID :: FrameType where "NEW_CONNECTION_ID \<equiv> 0x18"
abbreviation (input) RETIRE_CONNECTION_ID :: FrameType where "RETIRE_CONNECTION_ID \<equiv> 0x19"
abbreviation (input) PATH_CHALLENGE :: FrameType where "PATH_CHALLENGE \<equiv> 0x1A"
abbreviation (input) PATH_RESPONSE :: FrameType where "PATH_RESPONSE \<equiv> 0x1B"
abbreviation (input) CONNECTION_CLOSE :: FrameType where "CONNECTION_CLOSE \<equiv> 0x1C"
abbreviation (input) CONNECTION_CLOSE_APP_ERR :: FrameType where "CONNECTION_CLOSE_APP_ERR \<equiv> 0x1D"
abbreviation (input) HANDSHAKE_DONE :: FrameType where "HANDSHAKE_DONE \<equiv> 0x1E"
abbreviation (input) DATAGRAM :: FrameType where "DATAGRAM \<equiv> 0x30"
abbreviation (input) DATAGRAM_LEN :: FrameType where "DATAGRAM_LEN \<equiv> 0x31"
abbreviation (input) GROUP_STREAM :: FrameType where "GROUP_STREAM \<equiv> 0x32"
abbreviation (input) GROUP_STREAM_OFF_LEN_FIN :: FrameType where "GROUP_STREAM_OFF_LEN_FIN \<equiv> 0x39"
abbreviation (input) IMMEDIATE_ACK :: FrameType where "IMMEDIATE_ACK \<equiv> 0xAC"
abbreviation (input) ACK_FREQUENCY :: FrameType where "ACK_FREQUENCY \<equiv> 0xAF"
abbreviation (input) ACK_RECEIVE_TIMESTAMPS :: FrameType where "ACK_RECEIVE_TIMESTAMPS \<equiv> 0xB0"
abbreviation (input) KNOB :: FrameType where "KNOB \<equiv> 0x1550"

text \<open>The type byte of a stream frame and its builder (\<^verbatim>\<open>protocol/quic_type.hpp\<close>).\<close>

datatype StreamTypeField = StreamTypeField (stf_field: u8)

definition stf_hasDataLength :: "StreamTypeField \<Rightarrow> bool" where
  "stf_hasDataLength f \<longleftrightarrow> stf_field f AND 0x02 \<noteq> 0"

definition stf_hasFin :: "StreamTypeField \<Rightarrow> bool" where
  "stf_hasFin f \<longleftrightarrow> stf_field f AND 0x01 \<noteq> 0"

definition stf_hasOffset :: "StreamTypeField \<Rightarrow> bool" where
  "stf_hasOffset f \<longleftrightarrow> stf_field f AND 0x04 \<noteq> 0"

definition stf_Builder :: u8 where "stf_Builder = ucast STREAM"

definition stf_switchToStreamGroups :: "u8 \<Rightarrow> u8" where
  "stf_switchToStreamGroups b = ucast GROUP_STREAM"

definition stf_setFin :: "u8 \<Rightarrow> u8" where "stf_setFin b = b OR 0x01"

definition stf_setOffset :: "u8 \<Rightarrow> u8" where "stf_setOffset b = b OR 0x04"

definition stf_setLength :: "u8 \<Rightarrow> u8" where "stf_setLength b = b OR 0x02"

definition stf_build :: "u8 \<Rightarrow> StreamTypeField" where "stf_build b = StreamTypeField b"

section \<open>Frames\<close>

type_synonym ConnectionId = bytes
type_synonym StatelessResetToken = bytes

datatype PaddingFrame = PaddingFrame (pad_numFrames: u16)

datatype PingFrame = PingFrame

datatype RstStreamFrame =
  RstStreamFrame (rst_streamId: StreamId) (rst_errorCode: ApplicationErrorCode) (rst_offset: u64)

datatype ImmediateAckFrame = ImmediateAckFrame

datatype AckFrequencyFrame =
  AckFrequencyFrame (af_sequenceNumber: u64) (af_packetTolerance: u64)
    (af_updateMaxAckDelay: u64) (af_reorderThreshold: u64)

datatype AckBlock = AckBlock (ab_startPacket: PacketNum) (ab_endPacket: PacketNum)

datatype RecvdPacketsTimestampsRange =
  RecvdPacketsTimestampsRange (tr_gap: u64) (tr_timestamp_delta_count: u64) (tr_deltas: "u64 list")

record ReadAckFrame =
  ra_largestAcked :: PacketNum
  ra_ackDelay :: u64
  ra_implicit :: bool
  ra_ackBlocks :: "AckBlock list"
  ra_frameType :: FrameType
  ra_maybeLatestRecvdPacketTime :: "u64 option"
  ra_maybeLatestRecvdPacketNum :: "PacketNum option"
  ra_recvdPacketsTimestampRanges :: "RecvdPacketsTimestampsRange list"

record WriteAckFrame =
  wa_ackBlocks :: "Interval list"
  wa_ackDelay :: u64
  wa_frameType :: FrameType
  wa_maybeLatestRecvdPacketTime :: "u64 option"
  wa_maybeLatestRecvdPacketNum :: "PacketNum option"
  wa_recvdPacketsTimestampRanges :: "RecvdPacketsTimestampsRange list"

datatype StopSendingFrame =
  StopSendingFrame (ss_streamId: StreamId) (ss_errorCode: ApplicationErrorCode)

datatype ReadCryptoFrame = ReadCryptoFrame (rc_offset: u64) (rc_data: Buf)

datatype WriteCryptoFrame = WriteCryptoFrame (wc_offset: u64) (wc_len: u64)

datatype NewTokenFrame = NewTokenFrame (nt_token: Buf)

datatype ReadNewTokenFrame = ReadNewTokenFrame (rnt_token: Buf)

datatype ReadStreamFrame =
  ReadStreamFrame (rs_streamId: StreamId) (rs_offset: u64) (rs_data: Buf) (rs_fin: bool)
    (rs_streamGroupId: "StreamGroupId option")

datatype WriteStreamFrame =
  WriteStreamFrame (ws_streamId: StreamId) (ws_offset: u64) (ws_len: u64) (ws_fin: bool)
    (ws_fromBufMeta: bool) (ws_streamGroupId: "StreamGroupId option") (ws_streamPacketIdx: u64)

datatype MaxDataFrame = MaxDataFrame (md_maximumData: u64)

datatype MaxStreamDataFrame = MaxStreamDataFrame (msd_streamId: StreamId) (msd_maximumData: u64)

datatype MaxStreamsFrame = MaxStreamsFrame (ms_maxStreams: u64) (ms_isForBidirectional: bool)

datatype DataBlockedFrame = DataBlockedFrame (db_dataLimit: u64)

datatype StreamDataBlockedFrame = StreamDataBlockedFrame (sdb_streamId: StreamId) (sdb_dataLimit: u64)

datatype StreamsBlockedFrame = StreamsBlockedFrame (sbl_streamLimit: u64) (sbl_isForBidirectional: bool)

datatype NewConnectionIdFrame =
  NewConnectionIdFrame (nci_sequenceNumber: u64) (nci_retirePriorTo: u64)
    (nci_connectionId: ConnectionId) (nci_token: StatelessResetToken)

datatype RetireConnectionIdFrame = RetireConnectionIdFrame (rci_sequenceNumber: u64)

datatype ConnectionCloseFrame =
  ConnectionCloseFrame (cc_errorCode: QuicErrorCode) (cc_reasonPhrase: bytes) (cc_closingFrameType: FrameType)

datatype PathChallengeFrame = PathChallengeFrame (pc_pathData: u64)

datatype PathResponseFrame = PathResponseFrame (pr_pathData: u64)

datatype HandshakeDoneFrame = HandshakeDoneFrame

datatype DatagramFrame = DatagramFrame (dg_length: nat) (dg_data: BufQueue)

datatype NoopFrame = NoopFrame

datatype KnobFrame =
  KnobFrame (kn_knobSpace: u64) (kn_id: u64) (kn_len: u64) (kn_blob: Buf)

text \<open>
  The constructors that compute: a datagram takes over the buffer, and a knob takes the
  length of the first buffer of the blob, not of the chain. The copy assignment of a knob
  leaves the length of the assigned frame as it was.
\<close>

definition DatagramFrame_make :: "nat \<Rightarrow> Buf \<Rightarrow> DatagramFrame" where
  "DatagramFrame_make len buf = DatagramFrame len (bq_of_chain buf)"

definition KnobFrame_make :: "u64 \<Rightarrow> u64 \<Rightarrow> Buf \<Rightarrow> KnobFrame" where
  "KnobFrame_make knobSpaceIn idIn blobIn =
     KnobFrame knobSpaceIn idIn (of_nat (case blobIn of [] \<Rightarrow> 0 | b # _ \<Rightarrow> length b)) blobIn"

definition KnobFrame_assign :: "KnobFrame \<Rightarrow> KnobFrame \<Rightarrow> KnobFrame" where
  "KnobFrame_assign this other =
     KnobFrame (kn_knobSpace other) (kn_id other) (kn_len this) (kn_blob other)"

text \<open>The comparison of two blocked frames looks at the limit only.\<close>

definition StreamsBlockedFrame_eq :: "StreamsBlockedFrame \<Rightarrow> StreamsBlockedFrame \<Rightarrow> bool" where
  "StreamsBlockedFrame_eq lhs rhs \<longleftrightarrow> sbl_streamLimit lhs = sbl_streamLimit rhs"

section \<open>The variants\<close>

datatype QuicSimpleFrame =
    SF_StopSending StopSendingFrame
  | SF_PathChallenge PathChallengeFrame
  | SF_PathResponse PathResponseFrame
  | SF_NewConnectionId NewConnectionIdFrame
  | SF_MaxStreams MaxStreamsFrame
  | SF_RetireConnectionId RetireConnectionIdFrame
  | SF_HandshakeDone HandshakeDoneFrame
  | SF_Knob KnobFrame
  | SF_AckFrequency AckFrequencyFrame
  | SF_NewToken NewTokenFrame

datatype QuicFrame =
    QF_Padding PaddingFrame
  | QF_RstStream RstStreamFrame
  | QF_ConnectionClose ConnectionCloseFrame
  | QF_MaxData MaxDataFrame
  | QF_MaxStreamData MaxStreamDataFrame
  | QF_DataBlocked DataBlockedFrame
  | QF_StreamDataBlocked StreamDataBlockedFrame
  | QF_StreamsBlocked StreamsBlockedFrame
  | QF_ReadAck ReadAckFrame
  | QF_ReadStream ReadStreamFrame
  | QF_ReadCrypto ReadCryptoFrame
  | QF_ReadNewToken ReadNewTokenFrame
  | QF_Simple QuicSimpleFrame
  | QF_Ping PingFrame
  | QF_Noop NoopFrame
  | QF_Datagram DatagramFrame
  | QF_ImmediateAck ImmediateAckFrame

datatype QuicWriteFrame =
    WF_Padding PaddingFrame
  | WF_RstStream RstStreamFrame
  | WF_ConnectionClose ConnectionCloseFrame
  | WF_MaxData MaxDataFrame
  | WF_MaxStreamData MaxStreamDataFrame
  | WF_DataBlocked DataBlockedFrame
  | WF_StreamDataBlocked StreamDataBlockedFrame
  | WF_StreamsBlocked StreamsBlockedFrame
  | WF_WriteAck WriteAckFrame
  | WF_WriteStream WriteStreamFrame
  | WF_WriteCrypto WriteCryptoFrame
  | WF_Simple QuicSimpleFrame
  | WF_Ping PingFrame
  | WF_Noop NoopFrame
  | WF_Datagram DatagramFrame
  | WF_ImmediateAck ImmediateAckFrame

end
