(* ===== verification/Headers.thy ===== *)
theory Headers
  imports Frames
begin

text \<open>
  Packet headers, \<^verbatim>\<open>protocol/quic_header.{hpp,cpp}\<close>, and the packets of
  \<^verbatim>\<open>protocol/quic_packet.hpp\<close>. The tagged union \<^verbatim>\<open>PacketHeader\<close> is a datatype; its
  accessors are the case distinctions of the source.
\<close>

section \<open>Enumerations\<close>

datatype HeaderForm = Long | Short

datatype PacketNumberSpace = Initial_Space | Handshake_Space | AppData_Space

datatype ProtectionType = PT_Initial | PT_Handshake | PT_ZeroRtt | PT_KeyPhaseZero | PT_KeyPhaseOne

datatype LongHeaderType = LH_Initial | LH_ZeroRtt | LH_Handshake | LH_Retry

fun LongHeaderType_value :: "LongHeaderType \<Rightarrow> u8" where
  "LongHeaderType_value LH_Initial = 0"
| "LongHeaderType_value LH_ZeroRtt = 1"
| "LongHeaderType_value LH_Handshake = 2"
| "LongHeaderType_value LH_Retry = 3"

text \<open>A version is its number; the enumerators are constants.\<close>

type_synonym QuicVersion = u32

abbreviation (input) VERSION_NEGOTIATION :: QuicVersion where "VERSION_NEGOTIATION \<equiv> 0x00000000"
abbreviation (input) QUIC_V1 :: QuicVersion where "QUIC_V1 \<equiv> 0x00000001"

definition getHeaderForm :: "u8 \<Rightarrow> HeaderForm" where
  "getHeaderForm headerValue = (if headerValue AND 0x80 \<noteq> 0 then Long else Short)"

fun typeToPacketNumberSpace :: "LongHeaderType \<Rightarrow> PacketNumberSpace" where
  "typeToPacketNumberSpace LH_Initial = Initial_Space"
| "typeToPacketNumberSpace LH_Retry = Initial_Space"
| "typeToPacketNumberSpace LH_Handshake = Handshake_Space"
| "typeToPacketNumberSpace LH_ZeroRtt = AppData_Space"

text \<open>The two type bits of the first byte, cast to the enumeration.\<close>

definition parseLongHeaderType :: "u8 \<Rightarrow> LongHeaderType" where
  "parseLongHeaderType initialByte =
     (let t = drop_bit 4 (initialByte AND 0x30)
      in if t = 0 then LH_Initial else if t = 1 then LH_ZeroRtt
         else if t = 2 then LH_Handshake else LH_Retry)"

fun longHeaderTypeToProtectionType :: "LongHeaderType \<Rightarrow> ProtectionType" where
  "longHeaderTypeToProtectionType LH_Initial = PT_Initial"
| "longHeaderTypeToProtectionType LH_Retry = PT_Initial"
| "longHeaderTypeToProtectionType LH_Handshake = PT_Handshake"
| "longHeaderTypeToProtectionType LH_ZeroRtt = PT_ZeroRtt"

fun protectionTypeToPacketNumberSpace :: "ProtectionType \<Rightarrow> PacketNumberSpace" where
  "protectionTypeToPacketNumberSpace PT_Initial = Initial_Space"
| "protectionTypeToPacketNumberSpace PT_Handshake = Handshake_Space"
| "protectionTypeToPacketNumberSpace PT_ZeroRtt = AppData_Space"
| "protectionTypeToPacketNumberSpace PT_KeyPhaseZero = AppData_Space"
| "protectionTypeToPacketNumberSpace PT_KeyPhaseOne = AppData_Space"

section \<open>Headers\<close>

record LongHeaderInvariant =
  lhi_version :: QuicVersion
  lhi_srcConnId :: ConnectionId
  lhi_dstConnId :: ConnectionId

record LongHeader =
  lh_packetSequenceNum :: PacketNum
  lh_longHeaderType :: LongHeaderType
  lh_invariant :: LongHeaderInvariant
  lh_token :: bytes

definition LongHeader_read :: "LongHeaderType \<Rightarrow> LongHeaderInvariant \<Rightarrow> bytes \<Rightarrow> LongHeader" where
  "LongHeader_read type invariant token =
     \<lparr>lh_packetSequenceNum = 0, lh_longHeaderType = type, lh_invariant = invariant, lh_token = token\<rparr>"

definition LongHeader_make ::
    "LongHeaderType \<Rightarrow> ConnectionId \<Rightarrow> ConnectionId \<Rightarrow> PacketNum \<Rightarrow> QuicVersion \<Rightarrow> bytes \<Rightarrow> LongHeader" where
  "LongHeader_make type srcConnId dstConnId packetNum version token =
     (LongHeader_read type \<lparr>lhi_version = version, lhi_srcConnId = srcConnId, lhi_dstConnId = dstConnId\<rparr>
        token)\<lparr>lh_packetSequenceNum := packetNum\<rparr>"

record ShortHeader =
  sh_packetSequenceNum :: PacketNum
  sh_protectionType :: ProtectionType
  sh_connectionId :: ConnectionId

text \<open>Both constructors refuse a protection type that is no key phase.\<close>

definition ShortHeader_read :: "ProtectionType \<Rightarrow> ConnectionId \<Rightarrow> ShortHeader result" where
  "ShortHeader_read protectionType connId =
     (if protectionType \<noteq> PT_KeyPhaseZero \<and> protectionType \<noteq> PT_KeyPhaseOne then Inl logic_error
      else Inr \<lparr>sh_packetSequenceNum = 0, sh_protectionType = protectionType, sh_connectionId = connId\<rparr>)"

definition ShortHeader_make :: "ProtectionType \<Rightarrow> ConnectionId \<Rightarrow> PacketNum \<Rightarrow> ShortHeader result" where
  "ShortHeader_make protectionType connId packetNum =
     and_then (ShortHeader_read protectionType connId) (\<lambda>h. Inr (h\<lparr>sh_packetSequenceNum := packetNum\<rparr>))"

datatype PacketHeader = PH_Long LongHeader | PH_Short ShortHeader

fun ph_asLong :: "PacketHeader \<Rightarrow> LongHeader option" where
  "ph_asLong (PH_Long h) = Some h"
| "ph_asLong (PH_Short h) = None"

fun ph_asShort :: "PacketHeader \<Rightarrow> ShortHeader option" where
  "ph_asShort (PH_Long h) = None"
| "ph_asShort (PH_Short h) = Some h"

fun ph_getHeaderForm :: "PacketHeader \<Rightarrow> HeaderForm" where
  "ph_getHeaderForm (PH_Long h) = Long"
| "ph_getHeaderForm (PH_Short h) = Short"

fun ph_getPacketSequenceNum :: "PacketHeader \<Rightarrow> PacketNum" where
  "ph_getPacketSequenceNum (PH_Long h) = lh_packetSequenceNum h"
| "ph_getPacketSequenceNum (PH_Short h) = sh_packetSequenceNum h"

fun ph_getProtectionType :: "PacketHeader \<Rightarrow> ProtectionType" where
  "ph_getProtectionType (PH_Long h) = longHeaderTypeToProtectionType (lh_longHeaderType h)"
| "ph_getProtectionType (PH_Short h) = sh_protectionType h"

fun ph_getPacketNumberSpace :: "PacketHeader \<Rightarrow> PacketNumberSpace" where
  "ph_getPacketNumberSpace (PH_Long h) = typeToPacketNumberSpace (lh_longHeaderType h)"
| "ph_getPacketNumberSpace (PH_Short h) = AppData_Space"

text \<open>The length of a packet behind the length field, and of the field itself.\<close>

datatype PacketLength = PacketLength (pl_packetLength: u64) (pl_lengthLength: nat)

datatype ParsedLongHeader = ParsedLongHeader (plh_header: LongHeader) (plh_packetLength: PacketLength)

section \<open>Packets\<close>

record RegularQuicPacket =
  rp_header :: PacketHeader
  rp_frames :: "QuicFrame list"

record RegularQuicWritePacket =
  rw_header :: PacketHeader
  rw_frames :: "QuicWriteFrame list"
  rw_empty :: bool

definition RegularQuicWritePacket_make :: "PacketHeader \<Rightarrow> RegularQuicWritePacket" where
  "RegularQuicWritePacket_make header = \<lparr>rw_header = header, rw_frames = [], rw_empty = True\<rparr>"

record VersionNegotiationPacket =
  vn_packetType :: u8
  vn_sourceConnectionId :: ConnectionId
  vn_destinationConnectionId :: ConnectionId
  vn_versions :: "QuicVersion list"

section \<open>Two ways to the packet number space agree\<close>

lemma packet_number_space_of_protection:
  assumes "case header of PH_Long h \<Rightarrow> True | PH_Short h \<Rightarrow> sh_protectionType h \<in> {PT_KeyPhaseZero, PT_KeyPhaseOne}"
  shows "protectionTypeToPacketNumberSpace (ph_getProtectionType header) = ph_getPacketNumberSpace header"
proof (cases header)
  case (PH_Long h)
  then show ?thesis by (cases "lh_longHeaderType h") simp_all
qed (use assms in auto)

end
