(* ===== verification/Packet_Builder.thy ===== *)
theory Packet_Builder
  imports Headers Quic_Integer Packet_Num
begin

text \<open>
  Writing packets: the appender of \<^verbatim>\<open>common/BufUtil.{h,cpp}\<close> and
  \<^verbatim>\<open>RegularQuicPacketBuilder\<close> of \<^verbatim>\<open>protocol/quic_packet_builder.{hpp,cpp}\<close>. The
  appender is modelled with the buffer it currently writes to, because an insertion moves
  that buffer into the middle of the chain. The space counter is the \<^verbatim>\<open>uint32_t\<close> of the
  source and wraps.
\<close>

section \<open>The appender\<close>

text \<open>
  \<open>ba_crt\<close> is the buffer at \<^verbatim>\<open>crtBuf_\<close> with \<open>ba_tailroom\<close> free bytes behind its data,
  \<open>ba_before\<close> and \<open>ba_after\<close> the buffers of the chain before and after it. A new buffer
  has the requested capacity. An inserted chain is given by its buffers, the free bytes of
  its first buffer, and whether any of its buffers is shared.
\<close>

record BufAppender =
  ba_before :: Buf
  ba_crt :: bytes
  ba_tailroom :: nat
  ba_after :: Buf
  ba_appendLen :: nat
  ba_lastBufShared :: bool

definition BufAppender_make :: "nat \<Rightarrow> nat \<Rightarrow> BufAppender" where
  "BufAppender_make capacity appendLen =
     \<lparr>ba_before = [], ba_crt = [], ba_tailroom = capacity, ba_after = [],
      ba_appendLen = appendLen, ba_lastBufShared = False\<rparr>"

definition ba_push :: "bytes \<Rightarrow> BufAppender \<Rightarrow> BufAppender" where
  "ba_push data a =
     (let len = length data;
          a1 = (if ba_tailroom a < len \<or> ba_lastBufShared a
                then a\<lparr>ba_before := ba_before a @ [ba_crt a] @ ba_after a, ba_crt := [],
                       ba_tailroom := max (ba_appendLen a) len, ba_after := []\<rparr>
                else a)
      in a1\<lparr>ba_crt := ba_crt a1 @ data, ba_tailroom := ba_tailroom a1 - len, ba_lastBufShared := False\<rparr>)"

definition ba_insert :: "Buf \<Rightarrow> nat \<Rightarrow> bool \<Rightarrow> BufAppender \<Rightarrow> BufAppender" where
  "ba_insert data tailroom isShared a =
     (case data of
        [] \<Rightarrow> a
      | b # bs \<Rightarrow> a\<lparr>ba_before := ba_before a @ [ba_crt a] @ ba_after a, ba_crt := b,
                   ba_tailroom := tailroom, ba_after := bs, ba_lastBufShared := isShared\<rparr>)"

definition ba_writeBE :: "nat \<Rightarrow> nat \<Rightarrow> BufAppender \<Rightarrow> BufAppender" where
  "ba_writeBE dataSize v a = ba_push (store_be dataSize v) a"

definition ba_chain :: "BufAppender \<Rightarrow> Buf" where
  "ba_chain a = ba_before a @ [ba_crt a] @ ba_after a"

definition ba_bytes :: "BufAppender \<Rightarrow> bytes" where
  "ba_bytes a = concat (ba_chain a)"

text \<open>As long as only shared chains are inserted, writing appends.\<close>

definition ba_inv :: "BufAppender \<Rightarrow> bool" where
  "ba_inv a \<longleftrightarrow> ba_after a = [] \<or> ba_lastBufShared a"

lemma ba_make [simp]: "ba_inv (BufAppender_make c n)" "ba_bytes (BufAppender_make c n) = []"
  by (simp_all add: BufAppender_make_def ba_inv_def ba_bytes_def ba_chain_def)

lemma ba_push_correct:
  "ba_inv a \<Longrightarrow> ba_inv (ba_push data a) \<and> ba_bytes (ba_push data a) = ba_bytes a @ data"
  by (auto simp: ba_inv_def ba_push_def ba_bytes_def ba_chain_def Let_def)

lemma ba_insert_correct:
  "ba_inv a \<Longrightarrow> ba_inv (ba_insert data t True a)
     \<and> ba_bytes (ba_insert data t True a) = ba_bytes a @ concat data"
  by (auto simp: ba_inv_def ba_insert_def ba_bytes_def ba_chain_def split: list.split)

section \<open>The builder\<close>

abbreviation (input) kAppenderGrowthSize :: nat where "kAppenderGrowthSize \<equiv> 100"
abbreviation (input) kMaxPacketLenSize :: nat where "kMaxPacketLenSize \<equiv> 2"
abbreviation (input) kMaxPacketNumEncodingSize :: u32 where "kMaxPacketNumEncodingSize \<equiv> 4"
abbreviation (input) kLongHeaderHeaderSize :: nat where "kLongHeaderHeaderSize \<equiv> 1 + 4 + 2 + 16 + 2 + 4"

record RegularQuicPacketBuilder =
  remainingBytes :: u32
  largestAckedPacketNum :: PacketNum
  pb_packet :: RegularQuicWritePacket
  headerAppender :: BufAppender
  bodyAppender :: BufAppender
  cipherOverhead :: u32
  packetNumberEncoding :: "PacketNumEncodingResult option"

definition RegularQuicPacketBuilder_make :: "u32 \<Rightarrow> PacketHeader \<Rightarrow> PacketNum \<Rightarrow> RegularQuicPacketBuilder" where
  "RegularQuicPacketBuilder_make remaining header largestAcked =
     \<lparr>remainingBytes = remaining, largestAckedPacketNum = largestAcked,
      pb_packet = RegularQuicWritePacket_make header,
      headerAppender = BufAppender_make kLongHeaderHeaderSize kLongHeaderHeaderSize,
      bodyAppender = BufAppender_make kAppenderGrowthSize kAppenderGrowthSize,
      cipherOverhead = 0, packetNumberEncoding = None\<rparr>"

definition remainingSpaceInPkt :: "RegularQuicPacketBuilder \<Rightarrow> u32" where
  "remainingSpaceInPkt b = remainingBytes b"

text \<open>Every write goes to the body and takes its size off the counter.\<close>

definition pb_take :: "nat \<Rightarrow> RegularQuicPacketBuilder \<Rightarrow> RegularQuicPacketBuilder" where
  "pb_take n b = b\<lparr>remainingBytes := remainingBytes b - of_nat n\<rparr>"

definition pb_writeBE :: "nat \<Rightarrow> nat \<Rightarrow> RegularQuicPacketBuilder \<Rightarrow> RegularQuicPacketBuilder" where
  "pb_writeBE dataSize v b = pb_take dataSize (b\<lparr>bodyAppender := ba_writeBE dataSize v (bodyAppender b)\<rparr>)"

definition pb_write :: "u64 \<Rightarrow> RegularQuicPacketBuilder \<Rightarrow> RegularQuicPacketBuilder result" where
  "pb_write quicInteger b =
     and_then (QuicInteger_encode quicInteger)
       (\<lambda>(n, bs). Inr (pb_take n (b\<lparr>bodyAppender := ba_push bs (bodyAppender b)\<rparr>)))"

definition pb_push :: "bytes \<Rightarrow> RegularQuicPacketBuilder \<Rightarrow> RegularQuicPacketBuilder" where
  "pb_push data b = pb_take (length data) (b\<lparr>bodyAppender := ba_push data (bodyAppender b)\<rparr>)"

text \<open>The chains the codec inserts are clones, which share their storage.\<close>

definition pb_insert :: "Buf \<Rightarrow> RegularQuicPacketBuilder \<Rightarrow> RegularQuicPacketBuilder" where
  "pb_insert buf b =
     (let b1 = pb_take (computeChainDataLength buf) b
      in b1\<lparr>bodyAppender := ba_insert buf 0 True (bodyAppender b1)\<rparr>)"

definition pb_insert_limit :: "Buf \<Rightarrow> nat \<Rightarrow> RegularQuicPacketBuilder \<Rightarrow> RegularQuicPacketBuilder result" where
  "pb_insert_limit buf limit b =
     and_then (clone (cursor_of buf) limit) (\<lambda>(streamData, cursor). Inr (pb_insert streamData b))"

definition pb_appendFrame :: "QuicWriteFrame \<Rightarrow> RegularQuicPacketBuilder \<Rightarrow> RegularQuicPacketBuilder" where
  "pb_appendFrame frame b =
     b\<lparr>pb_packet := (pb_packet b)\<lparr>rw_empty := False, rw_frames := rw_frames (pb_packet b) @ [frame]\<rparr>\<rparr>"

definition pb_appendPaddingFrame :: "RegularQuicPacketBuilder \<Rightarrow> RegularQuicPacketBuilder" where
  "pb_appendPaddingFrame b =
     (let frames = rw_frames (pb_packet b)
      in b\<lparr>pb_packet := (pb_packet b)\<lparr>rw_empty := False, rw_frames :=
            (if frames = [] then [WF_Padding (PaddingFrame 1)]
             else case last frames of
                    WF_Padding p \<Rightarrow> butlast frames @ [WF_Padding (PaddingFrame (pad_numFrames p + 1))]
                  | _ \<Rightarrow> frames @ [WF_Padding (PaddingFrame 1)])\<rparr>\<rparr>)"

definition pb_markNonEmpty :: "RegularQuicPacketBuilder \<Rightarrow> RegularQuicPacketBuilder" where
  "pb_markNonEmpty b = b\<lparr>pb_packet := (pb_packet b)\<lparr>rw_empty := False\<rparr>\<rparr>"

definition pb_canBuildPacket :: "RegularQuicPacketBuilder \<Rightarrow> bool" where
  "pb_canBuildPacket b \<longleftrightarrow> remainingBytes b \<noteq> 0 \<and> packetNumberEncoding b \<noteq> None"

definition pb_accountForCipherOverhead :: "u8 \<Rightarrow> RegularQuicPacketBuilder \<Rightarrow> RegularQuicPacketBuilder" where
  "pb_accountForCipherOverhead overhead b =
     b\<lparr>cipherOverhead := ucast overhead, remainingBytes := remainingBytes b - ucast overhead\<rparr>"

definition pb_hasFramesPending :: "RegularQuicPacketBuilder \<Rightarrow> bool" where
  "pb_hasFramesPending b \<longleftrightarrow> rw_frames (pb_packet b) \<noteq> []"

section \<open>Headers\<close>

text \<open>Header and space counter are written by template helpers; the packet number and the
  length of a long header are filled in when the packet is built.\<close>

definition encodeLongHeaderHelper ::
    "LongHeader \<Rightarrow> BufAppender \<Rightarrow> u32 \<Rightarrow> PacketNum \<Rightarrow> (PacketNumEncodingResult \<times> BufAppender \<times> u32) result" where
  "encodeLongHeaderHelper longHeader bufop spaceCounter largestAcked =
     (let isInitial = (lh_longHeaderType longHeader = LH_Initial);
          isRetry = (lh_longHeaderType longHeader = LH_Retry);
          initialByte = 0x80 OR 0x40 OR push_bit 4 (LongHeaderType_value (lh_longHeaderType longHeader));
          src = lhi_srcConnId (lh_invariant longHeader);
          dst = lhi_dstConnId (lh_invariant longHeader);
          token = lh_token longHeader
      in and_then (encodePacketNumber (lh_packetSequenceNum longHeader) largestAcked) (\<lambda>encodedPacketNum.
         let initialByte1 = (if \<not> isRetry
                             then (initialByte AND NOT 0x0c) OR ucast (enc_length encodedPacketNum - 1)
                             else initialByte);
             bufop1 = ba_push [initialByte1] bufop
         in and_then (if isInitial then and_then (QuicInteger_getSize (of_nat (length token)))
                                          (\<lambda>n. Inr (n + length token))
                      else if isRetry then Inr (length token) else Inr 0) (\<lambda>tokenHeaderLength.
            let longHeaderSize0 = 1 + 4 + 1 + length src + 1 + length dst + tokenHeaderLength;
                longHeaderSize = (if \<not> isRetry
                                  then longHeaderSize0 + kMaxPacketLenSize + unat (enc_length encodedPacketNum)
                                  else longHeaderSize0);
                spaceCounter1 = (if unat spaceCounter < longHeaderSize then 0
                                 else spaceCounter - of_nat longHeaderSize);
                bufop2 = ba_writeBE 4 (unat (lhi_version (lh_invariant longHeader))) bufop1;
                bufop3 = ba_push dst (ba_writeBE 1 (length dst) bufop2);
                bufop4 = ba_push src (ba_writeBE 1 (length src) bufop3)
            in and_then (if isInitial
                         then and_then (QuicInteger_encode (of_nat (length token))) (\<lambda>(n, bs).
                                let bufop5 = ba_push bs bufop4
                                in Inr (if length token > 0 then ba_push token bufop5 else bufop5))
                         else Inr bufop4) (\<lambda>bufop6.
               Inr (encodedPacketNum, if isRetry then ba_push token bufop6 else bufop6, spaceCounter1)))))"

definition encodeShortHeaderHelper ::
    "ShortHeader \<Rightarrow> BufAppender \<Rightarrow> u32 \<Rightarrow> PacketNum
     \<Rightarrow> (PacketNumEncodingResult option \<times> BufAppender \<times> u32) result" where
  "encodeShortHeaderHelper shortHeader bufop spaceCounter largestAcked =
     and_then (encodePacketNumber (sh_packetSequenceNum shortHeader) largestAcked) (\<lambda>enc.
       let connId = sh_connectionId shortHeader
       in if unat spaceCounter < 1 + unat (enc_length enc) + length connId then Inr (None, bufop, 0)
          else let initialByte = (0x40 OR ucast (enc_length enc - 1)) AND NOT 0x18;
                   initialByte1 = (if sh_protectionType shortHeader = PT_KeyPhaseOne
                                   then initialByte OR 0x04 else initialByte)
               in Inr (Some enc, ba_push connId (ba_push [initialByte1] bufop),
                       spaceCounter - 1 - of_nat (length connId)))"

definition pb_appendBytes_header :: "PacketNum \<Rightarrow> nat \<Rightarrow> RegularQuicPacketBuilder \<Rightarrow> RegularQuicPacketBuilder" where
  "pb_appendBytes_header value byteNumber b =
     pb_take byteNumber (b\<lparr>headerAppender := ba_push (store_be byteNumber (unat value)) (headerAppender b)\<rparr>)"

definition encodePacketHeader :: "RegularQuicPacketBuilder \<Rightarrow> RegularQuicPacketBuilder result" where
  "encodePacketHeader b =
     (case rw_header (pb_packet b) of
        PH_Long h \<Rightarrow>
          and_then (encodeLongHeaderHelper h (headerAppender b) (remainingBytes b) (largestAckedPacketNum b))
            (\<lambda>(enc, a, space). Inr (b\<lparr>packetNumberEncoding := Some enc, headerAppender := a,
                                      remainingBytes := space\<rparr>))
      | PH_Short h \<Rightarrow>
          and_then (encodeShortHeaderHelper h (headerAppender b) (remainingBytes b) (largestAckedPacketNum b))
            (\<lambda>(enc, a, space).
               let b1 = b\<lparr>packetNumberEncoding := enc, headerAppender := a, remainingBytes := space\<rparr>
               in Inr (case enc of
                         None \<Rightarrow> b1
                       | Some e \<Rightarrow> pb_appendBytes_header (enc_result e) (unat (enc_length e)) b1)))"

definition getHeaderBytes :: "RegularQuicPacketBuilder \<Rightarrow> u32 result" where
  "getHeaderBytes b =
     (let isLongHeader = (ph_getHeaderForm (rw_header (pb_packet b)) = Long);
          headerLen = of_nat (computeChainDataLength (ba_chain (headerAppender b)))
      in if isLongHeader
         then (case packetNumberEncoding b of
                 None \<Rightarrow> Inl logic_error
               | Some enc \<Rightarrow> Inr (headerLen + enc_length enc + of_nat kMaxPacketLenSize))
         else Inr headerLen)"

section \<open>Building the packet\<close>

text \<open>
  A packet that is too short for the header protection sample is filled with padding. Every
  turn writes one byte, so the loop ends within \<open>minBodySize\<close> turns, given here as fuel.
\<close>

fun pad_loop :: "nat \<Rightarrow> nat \<Rightarrow> nat \<Rightarrow> nat \<Rightarrow> RegularQuicPacketBuilder \<Rightarrow> RegularQuicPacketBuilder result" where
  "pad_loop 0 bodyLength extraDataWritten minBodySize b = Inr b"
| "pad_loop (Suc fuel) bodyLength extraDataWritten minBodySize b =
     (if bodyLength + extraDataWritten + unat (cipherOverhead b) < minBodySize
         \<and> \<not> rw_empty (pb_packet b) \<and> unat (remainingBytes b) > kMaxPacketLenSize
      then and_then (pb_write PADDING b) (pad_loop fuel bodyLength (extraDataWritten + 1) minBodySize)
      else Inr b)"

datatype BuiltPacket = BuiltPacket (bp_packet: RegularQuicWritePacket) (bp_header: Buf) (bp_body: Buf)

definition buildPacket :: "RegularQuicPacketBuilder \<Rightarrow> BuiltPacket result" where
  "buildPacket b =
     (case packetNumberEncoding b of
        None \<Rightarrow> Inl logic_error
      | Some enc \<Rightarrow>
          let minBodySize = unat (kMaxPacketNumEncodingSize - enc_length enc) + 16;
              bodyLength = computeChainDataLength (ba_chain (bodyAppender b))
          in and_then (pad_loop minBodySize bodyLength 0 minBodySize b) (\<lambda>b1.
             and_then (case ph_asLong (rw_header (pb_packet b1)) of
                  Some h \<Rightarrow>
                    if lh_longHeaderType h \<noteq> LH_Retry
                    then and_then (QuicInteger_encode (of_nat (unat (enc_length enc)
                                     + computeChainDataLength (ba_chain (bodyAppender b1))
                                     + unat (cipherOverhead b1)))) (\<lambda>(n, bs).
                         Inr (pb_appendBytes_header (enc_result enc) (unat (enc_length enc))
                               (b1\<lparr>headerAppender := ba_push bs (headerAppender b1)\<rparr>)))
                    else Inr b1
                | None \<Rightarrow> Inr b1) (\<lambda>b2.
             Inr (BuiltPacket (pb_packet b2) (ba_chain (headerAppender b2)) (ba_chain (bodyAppender b2))))))"

section \<open>Writing to the body\<close>

text \<open>\<open>writes b b' bs\<close>: the body of \<open>b'\<close> is that of \<open>b\<close> followed by \<open>bs\<close>, whose size is
  taken off the counter; header and packet number are as before.\<close>

definition writes :: "RegularQuicPacketBuilder \<Rightarrow> RegularQuicPacketBuilder \<Rightarrow> bytes \<Rightarrow> bool" where
  "writes b b' bs \<longleftrightarrow> ba_inv (bodyAppender b') \<and> ba_bytes (bodyAppender b') = ba_bytes (bodyAppender b) @ bs
     \<and> remainingBytes b' = remainingBytes b - of_nat (length bs)
     \<and> headerAppender b' = headerAppender b \<and> packetNumberEncoding b' = packetNumberEncoding b
     \<and> rw_header (pb_packet b') = rw_header (pb_packet b) \<and> cipherOverhead b' = cipherOverhead b"

abbreviation pb_inv :: "RegularQuicPacketBuilder \<Rightarrow> bool" where
  "pb_inv b \<equiv> ba_inv (bodyAppender b)"

lemma writes_inv [simp]: "writes b b' bs \<Longrightarrow> pb_inv b'"
  by (simp add: writes_def)

lemma writes_trans:
  "writes b b1 bs \<Longrightarrow> writes b1 b2 cs \<Longrightarrow> writes b b2 (bs @ cs)"
  by (simp add: writes_def)

lemma writes_refl: "pb_inv b \<Longrightarrow> writes b b []"
  by (simp add: writes_def)

lemma writes_appendFrame [simp]: "writes b (pb_appendFrame f b') bs \<longleftrightarrow> writes b b' bs"
  by (simp add: writes_def pb_appendFrame_def)

lemma writes_markNonEmpty [simp]: "writes b (pb_markNonEmpty b') bs \<longleftrightarrow> writes b b' bs"
  by (simp add: writes_def pb_markNonEmpty_def)

lemma writes_appendPaddingFrame [simp]: "writes b (pb_appendPaddingFrame b') bs \<longleftrightarrow> writes b b' bs"
  by (simp add: writes_def pb_appendPaddingFrame_def Let_def)

lemma pb_push_writes: "pb_inv b \<Longrightarrow> writes b (pb_push data b) data"
  using ba_push_correct [of "bodyAppender b" data] by (simp add: writes_def pb_push_def pb_take_def)

lemma pb_writeBE_writes: "pb_inv b \<Longrightarrow> writes b (pb_writeBE n v b) (store_be n v)"
  using ba_push_correct [of "bodyAppender b"] by (simp add: writes_def pb_writeBE_def ba_writeBE_def pb_take_def)

lemma pb_insert_writes: "pb_inv b \<Longrightarrow> writes b (pb_insert buf b) (concat buf)"
  using ba_insert_correct [of "bodyAppender b"]
  by (simp add: writes_def pb_insert_def pb_take_def Let_def computeChainDataLength_concat)

lemma pb_insert_limit_writes:
  assumes "pb_inv b" and "pb_insert_limit buf limit b = Inr b'"
  shows "writes b b' (take limit (concat buf)) \<and> limit \<le> length (concat buf)"
proof (cases "limit \<le> length (concat buf)")
  case True
  obtain d c' where "clone (cursor_of buf) limit = Inr (d, c')" "concat d = take limit (concat buf)"
    using clone_at [OF cursor_of_at True] by blast
  then show ?thesis
    using assms pb_insert_writes [OF assms(1), of d] True by (auto simp: pb_insert_limit_def)
next
  case False
  have "length (concat (fst (cloneAtMost (cursor_of buf) limit))) < limit"
    using False cursor_of_at [of buf] by (simp add: cloneAtMost_bytes cursor_at_def)
  then have "clone (cursor_of buf) limit = Inl out_of_range"
    by (auto simp: clone_def split_def computeChainDataLength_concat Let_def)
  then show ?thesis using assms(2) by (simp add: pb_insert_limit_def)
qed

lemma pb_insert_limit_ok:
  assumes "limit \<le> length (concat buf)"
  shows "\<exists>b'. pb_insert_limit buf limit b = Inr b'"
  using clone_at [OF cursor_of_at assms] by (auto simp: pb_insert_limit_def)

text \<open>Integers one after the other.\<close>

fun pb_writes :: "u64 list \<Rightarrow> RegularQuicPacketBuilder \<Rightarrow> RegularQuicPacketBuilder result" where
  "pb_writes [] b = Inr b"
| "pb_writes (v # vs) b = and_then (pb_write v b) (pb_writes vs)"

fun ints_size :: "u64 list \<Rightarrow> nat result" where
  "ints_size [] = Inr 0"
| "ints_size (v # vs) = and_then (QuicInteger_getSize v) (\<lambda>n. and_then (ints_size vs) (\<lambda>m. Inr (n + m)))"

fun ints_bytes :: "u64 list \<Rightarrow> bytes" where
  "ints_bytes [] = []"
| "ints_bytes (v # vs) = (case encodeQuicInteger v of Inl e \<Rightarrow> [] | Inr (n, bs) \<Rightarrow> bs) @ ints_bytes vs"

lemma pb_write_eq:
  "pb_write v b = (case encodeQuicInteger v of Inl e \<Rightarrow> Inl runtime_error
     | Inr (n, bs) \<Rightarrow> Inr (pb_take n (b\<lparr>bodyAppender := ba_push bs (bodyAppender b)\<rparr>)))"
  by (simp add: pb_write_def QuicInteger_encode_def split: sum.splits prod.splits)

lemma ints_size_encodable: "ints_size vs = Inr n \<longleftrightarrow>
    (\<forall>v \<in> set vs. \<exists>m bs. encodeQuicInteger v = Inr (m, bs)) \<and> n = length (ints_bytes vs)"
proof (induction vs arbitrary: n)
  case (Cons v vs)
  show ?case
  proof (cases "encodeQuicInteger v")
    case (Inl e)
    then show ?thesis by (auto simp: QuicInteger_getSize_def getQuicIntegerSize_encode)
  next
    case (Inr r)
    then obtain m bs where r: "encodeQuicInteger v = Inr (m, bs)" by (cases r) auto
    then have "length bs = m" using encode_bytes by blast
    with r Cons.IH show ?thesis
      by (auto simp: QuicInteger_getSize_def getQuicIntegerSize_encode and_then_eq_Inr)
  qed
qed auto

lemma pb_writes_correct:
  assumes "pb_inv b" and "ints_size vs = Inr n"
  shows "\<exists>b'. pb_writes vs b = Inr b' \<and> writes b b' (ints_bytes vs)"
  using assms(1) assms(2) [unfolded ints_size_encodable, THEN conjunct1]
proof (induction vs arbitrary: b)
  case (Cons v vs)
  then obtain m bs where v: "encodeQuicInteger v = Inr (m, bs)" by auto
  let ?b = "pb_take m (b\<lparr>bodyAppender := ba_push bs (bodyAppender b)\<rparr>)"
  have "length bs = m" using encode_bytes [OF v] by blast
  then have w: "writes b ?b bs"
    using pb_push_writes [OF Cons.prems(1), of bs] by (simp add: pb_push_def)
  from Cons.IH [OF writes_inv [OF w]] Cons.prems(2) obtain b' where
    "pb_writes vs ?b = Inr b'" "writes ?b b' (ints_bytes vs)" by auto
  with v w show ?case by (auto simp: pb_write_eq intro: writes_trans)
qed (simp add: writes_refl)

end
