(* ===== verification/Write_Codec.thy ===== *)
theory Write_Codec
  imports Packet_Builder
begin

text \<open>
  \<^verbatim>\<open>protocol/quic_write_codec.cpp\<close>: every frame the server writes, into the builder of
  \<^verbatim>\<open>Packet_Builder\<close>. A writer first adds up the size of the frame, then checks the space
  left, then writes; it returns the number of bytes, or 0 (or no frame) when the frame does
  not fit.
\<close>

section \<open>Control frames\<close>

definition packetSpaceCheck :: "u64 \<Rightarrow> nat \<Rightarrow> bool" where
  "packetSpaceCheck limit require \<longleftrightarrow> require \<le> unat limit"

abbreviation spaceLeftIn :: "RegularQuicPacketBuilder \<Rightarrow> u64" where
  "spaceLeftIn b \<equiv> ucast (remainingSpaceInPkt b)"

text \<open>The pattern of a frame made of integers only.\<close>

definition write_ints_frame ::
    "u64 list \<Rightarrow> QuicWriteFrame \<Rightarrow> RegularQuicPacketBuilder \<Rightarrow> (nat \<times> RegularQuicPacketBuilder) result" where
  "write_ints_frame ints frame builder =
     and_then (ints_size ints) (\<lambda>frameSize.
       if packetSpaceCheck (spaceLeftIn builder) frameSize
       then and_then (pb_writes ints builder) (\<lambda>b. Inr (frameSize, pb_appendFrame frame b))
       else Inr (0, builder))"

text \<open>A frame type followed by eight bytes.\<close>

definition write_path_frame ::
    "FrameType \<Rightarrow> u64 \<Rightarrow> QuicWriteFrame \<Rightarrow> RegularQuicPacketBuilder \<Rightarrow> (nat \<times> RegularQuicPacketBuilder) result" where
  "write_path_frame frameType pathData frame builder =
     and_then (QuicInteger_getSize frameType) (\<lambda>n.
       let frameSize = n + 8
       in if packetSpaceCheck (spaceLeftIn builder) frameSize
          then and_then (pb_write frameType builder) (\<lambda>b.
               Inr (frameSize, pb_appendFrame frame (pb_writeBE 8 (unat pathData) b)))
          else Inr (0, builder))"

definition writeSimpleFrame ::
    "QuicSimpleFrame \<Rightarrow> RegularQuicPacketBuilder \<Rightarrow> (nat \<times> RegularQuicPacketBuilder) result" where
  "writeSimpleFrame frame builder =
     (case frame of
        SF_StopSending f \<Rightarrow>
          write_ints_frame [STOP_SENDING, ss_streamId f, ucast (ss_errorCode f)] (WF_Simple frame) builder
      | SF_PathChallenge f \<Rightarrow> write_path_frame PATH_CHALLENGE (pc_pathData f) (WF_Simple frame) builder
      | SF_PathResponse f \<Rightarrow> write_path_frame PATH_RESPONSE (pr_pathData f) (WF_Simple frame) builder
      | SF_NewConnectionId f \<Rightarrow>
          and_then (ints_size [NEW_CONNECTION_ID, nci_sequenceNumber f, nci_retirePriorTo f]) (\<lambda>n.
            let frameSize = n + 1 + length (nci_connectionId f) + length (nci_token f)
            in if packetSpaceCheck (spaceLeftIn builder) frameSize
               then and_then (pb_writes [NEW_CONNECTION_ID, nci_sequenceNumber f, nci_retirePriorTo f] builder)
                      (\<lambda>b. let b1 = pb_writeBE 1 (length (nci_connectionId f)) b;
                               b2 = pb_push (nci_connectionId f) b1;
                               b3 = pb_push (nci_token f) b2
                           in Inr (frameSize, pb_appendFrame (WF_Simple frame) b3))
               else Inr (0, builder))
      | SF_MaxStreams f \<Rightarrow>
          write_ints_frame
            [if ms_isForBidirectional f then MAX_STREAMS_BIDI else MAX_STREAMS_UNI, ms_maxStreams f]
            (WF_Simple frame) builder
      | SF_RetireConnectionId f \<Rightarrow>
          write_ints_frame [RETIRE_CONNECTION_ID, rci_sequenceNumber f] (WF_Simple frame) builder
      | SF_HandshakeDone f \<Rightarrow> write_ints_frame [HANDSHAKE_DONE] (WF_Simple frame) builder
      | SF_Knob f \<Rightarrow>
          and_then (ints_size [KNOB, kn_knobSpace f, kn_id f, kn_len f]) (\<lambda>n.
            let frameSize = n + unat (kn_len f)
            in if packetSpaceCheck (spaceLeftIn builder) frameSize
               then and_then (pb_writes [KNOB, kn_knobSpace f, kn_id f, kn_len f] builder)
                      (\<lambda>b. Inr (frameSize, pb_appendFrame (WF_Simple frame) (pb_insert (kn_blob f) b)))
               else Inr (0, builder))
      | SF_AckFrequency f \<Rightarrow>
          write_ints_frame [ACK_FREQUENCY, af_sequenceNumber f, af_packetTolerance f,
              af_updateMaxAckDelay f, af_reorderThreshold f] (WF_Simple frame) builder
      | SF_NewToken f \<Rightarrow>
          let tokenLength = of_nat (computeChainDataLength (nt_token f))
          in and_then (ints_size [NEW_TOKEN, tokenLength]) (\<lambda>n.
               let frameSize = n + unat tokenLength
               in if packetSpaceCheck (spaceLeftIn builder) frameSize
                  then and_then (pb_writes [NEW_TOKEN, tokenLength] builder)
                         (\<lambda>b. Inr (frameSize, pb_appendFrame (WF_Simple frame) (pb_insert (nt_token f) b)))
                  else Inr (0, builder)))"

text \<open>
  A close frame whose error is neither a transport nor an application error dereferences a
  null pointer.
\<close>

definition write_connection_close ::
    "ConnectionCloseFrame \<Rightarrow> RegularQuicPacketBuilder \<Rightarrow> (nat \<times> RegularQuicPacketBuilder) result" where
  "write_connection_close f builder =
     (case (case cc_errorCode f of
              TransportError e \<Rightarrow>
                Inr [CONNECTION_CLOSE, ucast (TransportErrorCode_value e), cc_closingFrameType f]
            | AppError e \<Rightarrow> Inr [CONNECTION_CLOSE_APP_ERR, ucast e]
            | LocalError e \<Rightarrow> Inl undefined_behaviour) of
        Inl e \<Rightarrow> Inl e
      | Inr ints \<Rightarrow>
          let all_ints = ints @ [of_nat (length (cc_reasonPhrase f))]
          in and_then (ints_size all_ints) (\<lambda>n.
               let frameSize = n + length (cc_reasonPhrase f)
               in if packetSpaceCheck (spaceLeftIn builder) frameSize
                  then and_then (pb_writes all_ints builder)
                         (\<lambda>b. Inr (frameSize, pb_appendFrame (WF_ConnectionClose f)
                                                (pb_push (cc_reasonPhrase f) b)))
                  else Inr (0, builder)))"

definition writeFrame ::
    "QuicWriteFrame \<Rightarrow> RegularQuicPacketBuilder \<Rightarrow> (nat \<times> RegularQuicPacketBuilder) result" where
  "writeFrame frame builder =
     (case frame of
        WF_Padding f \<Rightarrow>
          and_then (QuicInteger_getSize PADDING) (\<lambda>n.
            if packetSpaceCheck (spaceLeftIn builder) n
            then and_then (pb_write PADDING builder) (\<lambda>b. Inr (n, pb_appendPaddingFrame b))
            else Inr (0, builder))
      | WF_RstStream f \<Rightarrow>
          write_ints_frame [RST_STREAM, rst_streamId f, ucast (rst_errorCode f), rst_offset f] frame builder
      | WF_MaxData f \<Rightarrow> write_ints_frame [MAX_DATA, md_maximumData f] frame builder
      | WF_MaxStreamData f \<Rightarrow>
          write_ints_frame [MAX_STREAM_DATA, msd_streamId f, msd_maximumData f] frame builder
      | WF_DataBlocked f \<Rightarrow> write_ints_frame [DATA_BLOCKED, db_dataLimit f] frame builder
      | WF_StreamDataBlocked f \<Rightarrow>
          write_ints_frame [STREAM_DATA_BLOCKED, sdb_streamId f, sdb_dataLimit f] frame builder
      | WF_StreamsBlocked f \<Rightarrow>
          write_ints_frame
            [if sbl_isForBidirectional f then STREAMS_BLOCKED_BIDI else STREAMS_BLOCKED_UNI,
             sbl_streamLimit f] frame builder
      | WF_ConnectionClose f \<Rightarrow> write_connection_close f builder
      | WF_Ping f \<Rightarrow> write_ints_frame [PING] frame builder
      | WF_Simple f \<Rightarrow> writeSimpleFrame f builder
      | WF_Datagram f \<Rightarrow>
          and_then (ints_size [DATAGRAM_LEN, of_nat (dg_length f)]) (\<lambda>n.
            let frameSize = n + dg_length f
            in if packetSpaceCheck (spaceLeftIn builder) frameSize
               then and_then (pb_writes [DATAGRAM_LEN, of_nat (dg_length f)] builder) (\<lambda>b.
                    and_then (pb_insert_limit (bq_chain (dg_data f)) (dg_length f) b)
                      (\<lambda>b1. Inr (frameSize, pb_appendFrame frame b1)))
               else Inr (0, builder))
      | WF_ImmediateAck f \<Rightarrow> write_ints_frame [IMMEDIATE_ACK] frame builder
      | _ \<Rightarrow> Inl (QuicTransportException FRAME_ENCODING_ERROR))"

section \<open>Stream and crypto frames\<close>

text \<open>
  The header of a stream frame. Sizes are 64-bit words as in the source: the difference of
  the space and the header size may wrap when the offset does not fit any more, and the
  later checks have to catch that.
\<close>

definition data_length_size :: "u64 \<Rightarrow> u64 result" where
  "data_length_size dataLen =
     (if dataLen \<le> kOneByteLimit - 1 then Inr 1
      else if dataLen \<le> kTwoByteLimit - 2 then Inr 2
      else if dataLen \<le> kFourByteLimit - 4 then Inr 4
      else if dataLen \<le> kEightByteLimit - 8 then Inr 8
      else Inl (QuicInternalException LOCAL_INTERNAL_ERROR))"

definition size_word :: "u64 \<Rightarrow> u64 result" where
  "size_word v = and_then (QuicInteger_getSize v) (\<lambda>n. Inr (of_nat n))"

text \<open>The accounting: the data length, the size of its length field (0 when it is left
  out) and the FIN bit, or nothing when the frame does not fit.\<close>

definition stream_frame_plan ::
    "u64 \<Rightarrow> StreamId \<Rightarrow> u64 \<Rightarrow> u64 \<Rightarrow> u64 \<Rightarrow> bool \<Rightarrow> bool option \<Rightarrow> StreamGroupId option
     \<Rightarrow> (u64 \<times> u64 \<times> bool) option result" where
  "stream_frame_plan space sid offset writeBufferLen flowControlLen fin skipLenHint streamGroupId =
     and_then (size_word sid) (\<lambda>idSize.
     and_then (case streamGroupId of None \<Rightarrow> Inr 0 | Some g \<Rightarrow> size_word g) (\<lambda>groupSize.
       let headerSize0 = 1 + idSize + groupSize
       in if space < headerSize0 then Inr None
          else and_then (if offset \<noteq> 0 then size_word offset else Inr 0) (\<lambda>offsetSize.
            let headerSize1 = headerSize0 + offsetSize;
                dataLen0 = min writeBufferLen flowControlLen;
                shouldSkipLengthField =
                  (case skipLenHint of
                     Some hint \<Rightarrow> hint
                   | None \<Rightarrow> dataLen0 > 0 \<and> dataLen0 \<ge> space - headerSize1);
                dataLen1 = min dataLen0 (space - headerSize1)
            in and_then (if \<not> shouldSkipLengthField then data_length_size dataLen1 else Inr 0) (\<lambda>dataLenLen.
               if dataLenLen > 0 \<and> dataLen1 \<noteq> 0 \<and> headerSize1 + dataLenLen \<ge> space then Inr None
               else let headerSize2 = headerSize1 + dataLenLen;
                        dataLen2 = (if dataLenLen > 0 \<and> space < dataLen1 + headerSize2
                                    then space - headerSize2 else dataLen1);
                        shouldSetFin = (fin \<and> dataLen2 = writeBufferLen)
                    in if dataLen2 = 0 \<and> \<not> shouldSetFin then Inr None
                       else if space < headerSize2 then Inr None
                       else Inr (Some (dataLen2, dataLenLen, shouldSetFin))))))"

definition stream_type_field :: "StreamGroupId option \<Rightarrow> u64 \<Rightarrow> u64 \<Rightarrow> bool \<Rightarrow> StreamTypeField" where
  "stream_type_field streamGroupId offset dataLenLen shouldSetFin =
     (let b0 = stf_Builder;
          b1 = (if streamGroupId \<noteq> None then stf_switchToStreamGroups b0 else b0);
          b2 = (if offset \<noteq> 0 then stf_setOffset b1 else b1);
          b3 = (if dataLenLen > 0 then stf_setLength b2 else b2);
          b4 = (if shouldSetFin then stf_setFin b3 else b3)
      in stf_build b4)"

definition writeStreamFrameHeader ::
    "RegularQuicPacketBuilder \<Rightarrow> StreamId \<Rightarrow> u64 \<Rightarrow> u64 \<Rightarrow> u64 \<Rightarrow> bool \<Rightarrow> bool option
     \<Rightarrow> StreamGroupId option \<Rightarrow> bool \<Rightarrow> (u64 option \<times> RegularQuicPacketBuilder) result" where
  "writeStreamFrameHeader builder sid offset writeBufferLen flowControlLen fin skipLenHint streamGroupId
      appendFrame =
     (if remainingSpaceInPkt builder = 0 then Inr (None, builder)
      else if writeBufferLen = 0 \<and> \<not> fin then Inl (QuicInternalException LOCAL_INTERNAL_ERROR)
      else and_then (stream_frame_plan (spaceLeftIn builder) sid offset writeBufferLen flowControlLen fin
                       skipLenHint streamGroupId) (\<lambda>plan.
        case plan of
          None \<Rightarrow> Inr (None, builder)
        | Some (dataLen, dataLenLen, shouldSetFin) \<Rightarrow>
            let streamType = stream_type_field streamGroupId offset dataLenLen shouldSetFin;
                b1 = pb_writeBE 1 (unat (stf_field streamType)) builder
            in and_then (pb_writes ([sid] @ (case streamGroupId of None \<Rightarrow> [] | Some g \<Rightarrow> [g])
                           @ (if offset \<noteq> 0 then [offset] else [])
                           @ (if dataLenLen > 0 then [dataLen] else [])) b1) (\<lambda>b2.
               Inr (Some dataLen,
                    if appendFrame
                    then pb_appendFrame (WF_WriteStream (WriteStreamFrame sid offset dataLen
                           (stf_hasFin streamType) False streamGroupId 0)) b2
                    else pb_markNonEmpty b2))))"

definition writeStreamFrameData ::
    "RegularQuicPacketBuilder \<Rightarrow> Buf \<Rightarrow> u64 \<Rightarrow> RegularQuicPacketBuilder result" where
  "writeStreamFrameData builder writeBuffer dataLen =
     (if dataLen > 0 then pb_insert_limit writeBuffer (unat dataLen) builder else Inr builder)"

definition writeCryptoFrame ::
    "u64 \<Rightarrow> BufQueue \<Rightarrow> RegularQuicPacketBuilder \<Rightarrow> (WriteCryptoFrame option \<times> RegularQuicPacketBuilder) result" where
  "writeCryptoFrame offsetIn data builder =
     (let spaceLeftInPkt = unat (remainingSpaceInPkt builder); lengthBytes = 2
      in and_then (ints_size [CRYPTO_FRAME, offsetIn]) (\<lambda>n.
         let cryptoFrameHeaderSize = n + lengthBytes
         in if spaceLeftInPkt \<le> cryptoFrameHeaderSize then Inr (None, builder)
            else let spaceRemaining = spaceLeftInPkt - cryptoFrameHeaderSize;
                     writableData = min (chainLength data) spaceRemaining;
                     lengthVarInt = of_nat writableData
                 in and_then (QuicInteger_getSize lengthVarInt) (\<lambda>m.
                    if m > lengthBytes then Inl (QuicInternalException CODEC_ERROR)
                    else and_then (pb_writes [CRYPTO_FRAME, offsetIn, lengthVarInt] builder) (\<lambda>b.
                         and_then (pb_insert_limit (bq_chain data) writableData b) (\<lambda>b1.
                           let frame = WriteCryptoFrame offsetIn lengthVarInt
                           in Inr (Some frame, pb_appendFrame (WF_WriteCrypto frame) b1))))))"

end
