(* ===== verification/Parse.thy ===== *)
theory Parse
  imports Headers Quic_Integer Packet_Num
begin

text \<open>
  \<^verbatim>\<open>protocol/parse.cpp\<close>: the frames of a packet payload and the headers of a packet.
  Every decoder reads from a cursor and throws when the input is malformed; \<open>parseFrame\<close>
  catches what a decoder throws and reports a frame encoding error.
\<close>

section \<open>Reading a field\<close>

definition bad_frame :: exn where
  "bad_frame = QuicTransportException FRAME_ENCODING_ERROR"

text \<open>\<^verbatim>\<open>decodeQuicInteger(cursor)\<close> with the check that follows it.\<close>

definition decode_field :: "Cursor \<Rightarrow> (u64 \<times> nat \<times> Cursor) result" where
  "decode_field cursor =
     and_then (decodeQuicInteger cursor 8) (\<lambda>(field, c).
       case field of None \<Rightarrow> Inl bad_frame | Some (v, n) \<Rightarrow> Inr (v, n, c))"

definition decode_int :: "Cursor \<Rightarrow> (u64 \<times> Cursor) result" where
  "decode_int cursor = and_then (decode_field cursor) (\<lambda>(v, n, c). Inr (v, c))"

record AckReceiveTimestampsConfig =
  maxReceiveTimestampsPerAck :: u64
  receiveTimestampsExponent :: u64

record CodecParameters =
  peerAckDelayExponent :: u8
  cp_version :: QuicVersion
  maybeAckReceiveTimestampsConfig :: "AckReceiveTimestampsConfig option"

section \<open>Acknowledgements\<close>

definition nextAckedPacketGap :: "PacketNum \<Rightarrow> u64 \<Rightarrow> PacketNum result" where
  "nextAckedPacketGap packetNum gap =
     (let adjustedGap = gap + 2
      in if packetNum < adjustedGap then Inl bad_frame else Inr (packetNum - adjustedGap))"

definition nextAckedPacketLen :: "PacketNum \<Rightarrow> u64 \<Rightarrow> PacketNum result" where
  "nextAckedPacketLen packetNum ackBlockLen =
     (if packetNum < ackBlockLen then Inl bad_frame else Inr (packetNum - ackBlockLen))"

text \<open>The shift count is the \<^verbatim>\<open>uint8_t\<close> difference. A shift by 64 or more is undefined: the
  shift of the mask comes first, the shift of the delay only when the mask did not reject it.\<close>

definition convertEncodedDurationToMicroseconds :: "u8 \<Rightarrow> u64 \<Rightarrow> u64 result" where
  "convertEncodedDurationToMicroseconds exponentToUse delay =
     (let leftShift = 64 - exponentToUse
      in if unat leftShift \<ge> 64 then Inl undefined_behaviour
         else let delayOverflowMask = push_bit (unat leftShift) (u64_max :: u64)
              in if delay AND delayOverflowMask \<noteq> 0 then Inl bad_frame
                 else if unat exponentToUse \<ge> 64 then Inl undefined_behaviour
                 else let adjustedDelay = push_bit (unat exponentToUse) delay
                      in if adjustedDelay > 0x7FFFFFFFFFFFFFFF then Inl bad_frame
                         else Inr adjustedDelay)"

text \<open>The additional blocks; the count is given by the frame and may exceed what follows.\<close>

fun decode_ack_blocks :: "nat \<Rightarrow> PacketNum \<Rightarrow> Cursor \<Rightarrow> (AckBlock list \<times> Cursor) result" where
  "decode_ack_blocks 0 currentPacketNum cursor = Inr ([], cursor)"
| "decode_ack_blocks (Suc n) currentPacketNum cursor =
     and_then (decode_int cursor) (\<lambda>(currentGap, c1).
     and_then (decode_int c1) (\<lambda>(blockLen, c2).
     and_then (nextAckedPacketGap currentPacketNum currentGap) (\<lambda>nextEndPacket.
     and_then (nextAckedPacketLen nextEndPacket blockLen) (\<lambda>nextPacketNum.
     and_then (decode_ack_blocks n nextPacketNum c2) (\<lambda>(blocks, c3).
       Inr (AckBlock nextPacketNum nextEndPacket # blocks, c3))))))"

definition decodeAckFrame ::
    "Cursor \<Rightarrow> PacketHeader \<Rightarrow> CodecParameters \<Rightarrow> FrameType \<Rightarrow> (ReadAckFrame \<times> Cursor) result" where
  "decodeAckFrame cursor header params frameType =
     and_then (decode_int cursor) (\<lambda>(largestAcked, c1).
     and_then (decode_int c1) (\<lambda>(ackDelay, c2).
     and_then (decode_int c2) (\<lambda>(additionalAckBlocks, c3).
     and_then (decode_int c3) (\<lambda>(firstAckBlockLen, c4).
       let ackDelayExponentToUse = (if ph_getHeaderForm header = Long then of_nat kDefaultAckDelayExponent
                                    else peerAckDelayExponent params)
       in and_then (nextAckedPacketLen largestAcked firstAckBlockLen) (\<lambda>currentPacketNum.
          and_then (convertEncodedDurationToMicroseconds ackDelayExponentToUse ackDelay) (\<lambda>adjustedDelay.
            let adjustedDelay1 = (if adjustedDelay > 1000 * 1000 * 1000 then 0 else adjustedDelay)
            in and_then (decode_ack_blocks (unat additionalAckBlocks) currentPacketNum c4) (\<lambda>(blocks, c5).
               Inr (\<lparr>ra_largestAcked = largestAcked, ra_ackDelay = adjustedDelay1, ra_implicit = False,
                     ra_ackBlocks = AckBlock currentPacketNum largestAcked # blocks,
                     ra_frameType = frameType, ra_maybeLatestRecvdPacketTime = None,
                     ra_maybeLatestRecvdPacketNum = None, ra_recvdPacketsTimestampRanges = []\<rparr>, c5))))))))"

definition decodeAckFrameWithECN ::
    "Cursor \<Rightarrow> PacketHeader \<Rightarrow> CodecParameters \<Rightarrow> (ReadAckFrame \<times> Cursor) result" where
  "decodeAckFrameWithECN cursor header params =
     and_then (decodeAckFrame cursor header params ACK) (\<lambda>(readAckFrame, c1).
     and_then (decode_int c1) (\<lambda>(ect_0, c2).
     and_then (decode_int c2) (\<lambda>(ect_1, c3).
     and_then (decode_int c3) (\<lambda>(ect_ce, c4). Inr (readAckFrame, c4)))))"

fun decode_deltas :: "nat \<Rightarrow> u8 \<Rightarrow> Cursor \<Rightarrow> (u64 list \<times> Cursor) result" where
  "decode_deltas 0 expo cursor = Inr ([], cursor)"
| "decode_deltas (Suc n) expo cursor =
     and_then (decode_int cursor) (\<lambda>(delta, c1).
     and_then (convertEncodedDurationToMicroseconds expo delta) (\<lambda>adjustedDelta.
     and_then (decode_deltas n expo c1) (\<lambda>(deltas, c2). Inr (adjustedDelta # deltas, c2))))"

fun decode_timestamp_ranges ::
    "nat \<Rightarrow> u8 \<Rightarrow> Cursor \<Rightarrow> (RecvdPacketsTimestampsRange list \<times> Cursor) result" where
  "decode_timestamp_ranges 0 expo cursor = Inr ([], cursor)"
| "decode_timestamp_ranges (Suc n) expo cursor =
     and_then (decode_int cursor) (\<lambda>(gap, c1).
     and_then (decode_int c1) (\<lambda>(len, c2).
     and_then (decode_deltas (unat len) expo c2) (\<lambda>(deltas, c3).
     and_then (decode_timestamp_ranges n expo c3) (\<lambda>(ranges, c4).
       Inr (RecvdPacketsTimestampsRange gap len deltas # ranges, c4)))))"

definition decodeAckFrameWithReceivedTimestamps ::
    "Cursor \<Rightarrow> PacketHeader \<Rightarrow> CodecParameters \<Rightarrow> FrameType \<Rightarrow> (ReadAckFrame \<times> Cursor) result" where
  "decodeAckFrameWithReceivedTimestamps cursor header params frameType =
     and_then (decodeAckFrame cursor header params frameType) (\<lambda>(frame, c1).
     and_then (decode_int c1) (\<lambda>(latestRecvdPacketNum, c2).
     and_then (decode_int c2) (\<lambda>(latestRecvdPacketTimeDelta, c3).
     and_then (decode_int c3) (\<lambda>(timeStampRangeCount, c4).
       let expo = (case maybeAckReceiveTimestampsConfig params of
                     Some config \<Rightarrow> ucast (receiveTimestampsExponent config)
                   | None \<Rightarrow> of_nat kDefaultReceiveTimestampsExponent)
       in and_then (decode_timestamp_ranges (unat timeStampRangeCount) expo c4) (\<lambda>(ranges, c5).
          Inr (frame\<lparr>ra_maybeLatestRecvdPacketNum := Some latestRecvdPacketNum,
                     ra_maybeLatestRecvdPacketTime := Some latestRecvdPacketTimeDelta,
                     ra_recvdPacketsTimestampRanges := ranges\<rparr>, c5))))))"

section \<open>The other frames\<close>

definition decodePaddingFrame :: "Cursor \<Rightarrow> (PaddingFrame \<times> Cursor) result" where
  "decodePaddingFrame cursor =
     (let (paddingBytes, c1) = peekBytes cursor
      in if length paddingBytes = 0 then Inr (PaddingFrame 1, c1)
         else if hd paddingBytes \<noteq> 0 then Inr (PaddingFrame 1, c1)
         else if butlast paddingBytes = tl paddingBytes
         then and_then (skip c1 (length paddingBytes)) (\<lambda>c2. Inr (PaddingFrame 1, c2))
         else Inr (PaddingFrame 1, c1))"

definition decodeRstStreamFrame :: "Cursor \<Rightarrow> (RstStreamFrame \<times> Cursor) result" where
  "decodeRstStreamFrame cursor =
     and_then (decode_int cursor) (\<lambda>(sid, c1).
     and_then (decode_int c1) (\<lambda>(varCode, c2).
     and_then (decode_int c2) (\<lambda>(offset, c3). Inr (RstStreamFrame sid (ucast varCode) offset, c3))))"

definition decodeStopSendingFrame :: "Cursor \<Rightarrow> (StopSendingFrame \<times> Cursor) result" where
  "decodeStopSendingFrame cursor =
     and_then (decode_int cursor) (\<lambda>(sid, c1).
     and_then (decode_int c1) (\<lambda>(varCode, c2). Inr (StopSendingFrame sid (ucast varCode), c2)))"

definition decodeCryptoFrame :: "Cursor \<Rightarrow> (ReadCryptoFrame \<times> Cursor) result" where
  "decodeCryptoFrame cursor =
     and_then (decode_int cursor) (\<lambda>(offset, c1).
     and_then (decode_int c1) (\<lambda>(dataLength, c2).
       if totalLength c2 < unat dataLength then Inl bad_frame
       else and_then (clone c2 (unat dataLength)) (\<lambda>(data, c3). Inr (ReadCryptoFrame offset data, c3))))"

definition decodeNewTokenFrame :: "Cursor \<Rightarrow> (ReadNewTokenFrame \<times> Cursor) result" where
  "decodeNewTokenFrame cursor =
     and_then (decode_int cursor) (\<lambda>(tokenLength, c1).
       if totalLength c1 < unat tokenLength then Inl bad_frame
       else and_then (clone c1 (unat tokenLength)) (\<lambda>(token, c2). Inr (ReadNewTokenFrame token, c2)))"

definition decodeStreamFrame :: "BufQueue \<Rightarrow> StreamTypeField \<Rightarrow> bool \<Rightarrow> (ReadStreamFrame \<times> BufQueue) result" where
  "decodeStreamFrame queue frameTypeField isGroupFrame =
     and_then (decode_int (cursor_of (bq_chain queue))) (\<lambda>(sid, c1).
     and_then (if isGroupFrame then and_then (decode_int c1) (\<lambda>(g, c). Inr (Some g, c)) else Inr (None, c1))
       (\<lambda>(groupId, c2).
     and_then (if stf_hasOffset frameTypeField then decode_int c2 else Inr (0, c2)) (\<lambda>(offset, c3).
       let fin = stf_hasFin frameTypeField
       in and_then (if stf_hasDataLength frameTypeField
                    then and_then (decode_int c3) (\<lambda>(n, c). Inr (Some n, c)) else Inr (None, c3))
            (\<lambda>(dataLength, c4).
            case dataLength of
              Some n \<Rightarrow>
                if totalLength c4 < unat n then Inl bad_frame
                else and_then (trimStart queue (cur_pos c4)) (\<lambda>q1.
                     let (data, q2) = splitAtMost q1 (unat n)
                     in Inr (ReadStreamFrame sid offset data fin groupId, q2))
            | None \<Rightarrow>
                and_then (trimStart queue (cur_pos c4)) (\<lambda>q1.
                let (data, q2) = bq_move q1
                in Inr (ReadStreamFrame sid offset data fin groupId, q2))))))"

definition decodeMaxDataFrame :: "Cursor \<Rightarrow> (MaxDataFrame \<times> Cursor) result" where
  "decodeMaxDataFrame cursor = and_then (decode_int cursor) (\<lambda>(v, c1). Inr (MaxDataFrame v, c1))"

definition decodeMaxStreamDataFrame :: "Cursor \<Rightarrow> (MaxStreamDataFrame \<times> Cursor) result" where
  "decodeMaxStreamDataFrame cursor =
     and_then (decode_int cursor) (\<lambda>(sid, c1).
     and_then (decode_int c1) (\<lambda>(offset, c2). Inr (MaxStreamDataFrame sid offset, c2)))"

definition decodeMaxStreamsFrame :: "bool \<Rightarrow> Cursor \<Rightarrow> (MaxStreamsFrame \<times> Cursor) result" where
  "decodeMaxStreamsFrame isBidirectional cursor =
     and_then (decode_int cursor) (\<lambda>(streamCount, c1).
       if streamCount > kMaxMaxStreams then Inl bad_frame
       else Inr (MaxStreamsFrame streamCount isBidirectional, c1))"

definition decodeDataBlockedFrame :: "Cursor \<Rightarrow> (DataBlockedFrame \<times> Cursor) result" where
  "decodeDataBlockedFrame cursor = and_then (decode_int cursor) (\<lambda>(v, c1). Inr (DataBlockedFrame v, c1))"

definition decodeStreamDataBlockedFrame :: "Cursor \<Rightarrow> (StreamDataBlockedFrame \<times> Cursor) result" where
  "decodeStreamDataBlockedFrame cursor =
     and_then (decode_int cursor) (\<lambda>(sid, c1).
     and_then (decode_int c1) (\<lambda>(dataLimit, c2). Inr (StreamDataBlockedFrame sid dataLimit, c2)))"

definition decodeStreamsBlockedFrame :: "bool \<Rightarrow> Cursor \<Rightarrow> (StreamsBlockedFrame \<times> Cursor) result" where
  "decodeStreamsBlockedFrame isBidirectional cursor =
     and_then (decode_int cursor) (\<lambda>(sid, c1). Inr (StreamsBlockedFrame sid isBidirectional, c1))"

definition ConnectionId_read :: "Cursor \<Rightarrow> nat \<Rightarrow> (ConnectionId \<times> Cursor) result" where
  "ConnectionId_read cursor len =
     (if len = 0 then Inr ([], cursor)
      else if len > kMaxConnectionIdSize then Inl runtime_error
      else pull cursor len)"

definition decodeNewConnectionIdFrame :: "Cursor \<Rightarrow> (NewConnectionIdFrame \<times> Cursor) result" where
  "decodeNewConnectionIdFrame cursor =
     and_then (decode_int cursor) (\<lambda>(sequenceNumber, c1).
     and_then (decode_int c1) (\<lambda>(retirePriorTo, c2).
       if \<not> canAdvance c2 1 then Inl bad_frame
       else and_then (readBE 1 c2) (\<lambda>(connIdLen, c3).
            if totalLength c3 < unat connIdLen then Inl bad_frame
            else if unat connIdLen > kMaxConnectionIdSize then Inl bad_frame
            else and_then (ConnectionId_read c3 (unat connIdLen)) (\<lambda>(connId, c4).
                 and_then (pull c4 16) (\<lambda>(token, c5).
                   Inr (NewConnectionIdFrame sequenceNumber retirePriorTo connId token, c5))))))"

definition decodeRetireConnectionIdFrame :: "Cursor \<Rightarrow> (RetireConnectionIdFrame \<times> Cursor) result" where
  "decodeRetireConnectionIdFrame cursor =
     and_then (decode_int cursor) (\<lambda>(v, c1). Inr (RetireConnectionIdFrame v, c1))"

definition decodePathChallengeFrame :: "Cursor \<Rightarrow> (PathChallengeFrame \<times> Cursor) result" where
  "decodePathChallengeFrame cursor =
     (if \<not> canAdvance cursor 8 then Inl bad_frame
      else and_then (readBE 8 cursor) (\<lambda>(pathData, c1). Inr (PathChallengeFrame pathData, c1)))"

definition decodePathResponseFrame :: "Cursor \<Rightarrow> (PathResponseFrame \<times> Cursor) result" where
  "decodePathResponseFrame cursor =
     (if \<not> canAdvance cursor 8 then Inl bad_frame
      else and_then (readBE 8 cursor) (\<lambda>(pathData, c1). Inr (PathResponseFrame pathData, c1)))"

definition decodeConnectionCloseFrame :: "Cursor \<Rightarrow> (ConnectionCloseFrame \<times> Cursor) result" where
  "decodeConnectionCloseFrame cursor =
     and_then (decode_int cursor) (\<lambda>(varCode, c1).
     and_then (decode_field c1) (\<lambda>(triggeringFrameType, n, c2).
       if n \<noteq> 1 then Inl bad_frame
       else and_then (decode_int c2) (\<lambda>(reasonPhraseLength, c3).
            if reasonPhraseLength > kMaxReasonPhraseLength then Inl bad_frame
            else and_then (readFixedString c3 (unat reasonPhraseLength)) (\<lambda>(reasonPhrase, c4).
                 Inr (ConnectionCloseFrame (TransportError (TransportErrorCode_cast (ucast varCode)))
                        reasonPhrase triggeringFrameType, c4)))))"

definition decodeApplicationClose :: "Cursor \<Rightarrow> (ConnectionCloseFrame \<times> Cursor) result" where
  "decodeApplicationClose cursor =
     and_then (decode_int cursor) (\<lambda>(varCode, c1).
     and_then (decode_int c1) (\<lambda>(reasonPhraseLength, c2).
       if reasonPhraseLength > kMaxReasonPhraseLength then Inl bad_frame
       else and_then (readFixedString c2 (unat reasonPhraseLength)) (\<lambda>(reasonPhrase, c3).
            Inr (ConnectionCloseFrame (AppError (ucast varCode)) reasonPhrase PADDING, c3))))"

text \<open>The length check looks at the first buffer of the chain only.\<close>

definition decodeDatagramFrame :: "BufQueue \<Rightarrow> bool \<Rightarrow> (DatagramFrame \<times> BufQueue) result" where
  "decodeDatagramFrame queue hasLen =
     (let cursor = cursor_of (bq_chain queue)
      in and_then (if hasLen
                   then and_then (decode_field cursor) (\<lambda>(len, n, c1).
                        if cur_length c1 < unat len then Inl bad_frame
                        else and_then (trimStart queue n) (\<lambda>q1. Inr (unat len, q1)))
                   else Inr (cur_length cursor, queue)) (\<lambda>(len, q1).
           let (data, q2) = splitAtMost q1 len
           in Inr (DatagramFrame_make len data, q2)))"

definition decodeKnobFrame :: "Cursor \<Rightarrow> (KnobFrame \<times> Cursor) result" where
  "decodeKnobFrame cursor =
     and_then (decode_int cursor) (\<lambda>(knobSpace, c1).
     and_then (decode_int c1) (\<lambda>(knobId, c2).
     and_then (decode_int c2) (\<lambda>(knobLen, c3).
       let (knobBlob, c4) = cloneAtMost c3 (unat knobLen)
       in Inr (KnobFrame_make knobSpace knobId knobBlob, c4))))"

definition decodeAckFrequencyFrame :: "Cursor \<Rightarrow> (AckFrequencyFrame \<times> Cursor) result" where
  "decodeAckFrequencyFrame cursor =
     and_then (decode_int cursor) (\<lambda>(sequenceNumber, c1).
     and_then (decode_int c1) (\<lambda>(packetTolerance, c2).
     and_then (decode_int c2) (\<lambda>(updateMaxAckDelay, c3).
     and_then (decode_int c3) (\<lambda>(reorderThreshold, c4).
       Inr (AckFrequencyFrame sequenceNumber packetTolerance updateMaxAckDelay reorderThreshold, c4)))))"

section \<open>A frame and a packet\<close>

text \<open>The decoders that read through the cursor; \<open>None\<close> for a type that is not among them.\<close>

definition tag :: "('a \<Rightarrow> QuicFrame) \<Rightarrow> ('a \<times> Cursor) result \<Rightarrow> (QuicFrame \<times> Cursor) result" where
  "tag k r = and_then r (\<lambda>(f, c). Inr (k f, c))"

definition decode_by_type ::
    "FrameType \<Rightarrow> Cursor \<Rightarrow> PacketHeader \<Rightarrow> CodecParameters \<Rightarrow> (QuicFrame \<times> Cursor) result option" where
  "decode_by_type frameType cursor header params =
     (if frameType = PADDING then Some (tag QF_Padding (decodePaddingFrame cursor))
      else if frameType = PING then Some (Inr (QF_Ping PingFrame, cursor))
      else if frameType = ACK then Some (tag QF_ReadAck (decodeAckFrame cursor header params ACK))
      else if frameType = ACK_ECN then Some (tag QF_ReadAck (decodeAckFrameWithECN cursor header params))
      else if frameType = RST_STREAM then Some (tag QF_RstStream (decodeRstStreamFrame cursor))
      else if frameType = STOP_SENDING
        then Some (tag (QF_Simple \<circ> SF_StopSending) (decodeStopSendingFrame cursor))
      else if frameType = CRYPTO_FRAME then Some (tag QF_ReadCrypto (decodeCryptoFrame cursor))
      else if frameType = NEW_TOKEN then Some (tag QF_ReadNewToken (decodeNewTokenFrame cursor))
      else if frameType = MAX_DATA then Some (tag QF_MaxData (decodeMaxDataFrame cursor))
      else if frameType = MAX_STREAM_DATA then Some (tag QF_MaxStreamData (decodeMaxStreamDataFrame cursor))
      else if frameType = MAX_STREAMS_BIDI
        then Some (tag (QF_Simple \<circ> SF_MaxStreams) (decodeMaxStreamsFrame True cursor))
      else if frameType = MAX_STREAMS_UNI
        then Some (tag (QF_Simple \<circ> SF_MaxStreams) (decodeMaxStreamsFrame False cursor))
      else if frameType = DATA_BLOCKED then Some (tag QF_DataBlocked (decodeDataBlockedFrame cursor))
      else if frameType = STREAM_DATA_BLOCKED
        then Some (tag QF_StreamDataBlocked (decodeStreamDataBlockedFrame cursor))
      else if frameType = STREAMS_BLOCKED_BIDI
        then Some (tag QF_StreamsBlocked (decodeStreamsBlockedFrame True cursor))
      else if frameType = STREAMS_BLOCKED_UNI
        then Some (tag QF_StreamsBlocked (decodeStreamsBlockedFrame False cursor))
      else if frameType = NEW_CONNECTION_ID
        then Some (tag (QF_Simple \<circ> SF_NewConnectionId) (decodeNewConnectionIdFrame cursor))
      else if frameType = RETIRE_CONNECTION_ID
        then Some (tag (QF_Simple \<circ> SF_RetireConnectionId) (decodeRetireConnectionIdFrame cursor))
      else if frameType = PATH_CHALLENGE
        then Some (tag (QF_Simple \<circ> SF_PathChallenge) (decodePathChallengeFrame cursor))
      else if frameType = PATH_RESPONSE
        then Some (tag (QF_Simple \<circ> SF_PathResponse) (decodePathResponseFrame cursor))
      else if frameType = CONNECTION_CLOSE then Some (tag QF_ConnectionClose (decodeConnectionCloseFrame cursor))
      else if frameType = CONNECTION_CLOSE_APP_ERR
        then Some (tag QF_ConnectionClose (decodeApplicationClose cursor))
      else if frameType = HANDSHAKE_DONE
        then Some (Inr (QF_Simple (SF_HandshakeDone HandshakeDoneFrame), cursor))
      else if frameType = KNOB then Some (tag (QF_Simple \<circ> SF_Knob) (decodeKnobFrame cursor))
      else if frameType = ACK_FREQUENCY
        then Some (tag (QF_Simple \<circ> SF_AckFrequency) (decodeAckFrequencyFrame cursor))
      else if frameType = IMMEDIATE_ACK then Some (Inr (QF_ImmediateAck ImmediateAckFrame, cursor))
      else if frameType = ACK_RECEIVE_TIMESTAMPS
        then Some (tag QF_ReadAck (decodeAckFrameWithReceivedTimestamps cursor header params ACK_RECEIVE_TIMESTAMPS))
      else None)"

text \<open>Whatever a decoder throws becomes a frame encoding error.\<close>

definition catch_frame_error :: "'a result \<Rightarrow> 'a result" where
  "catch_frame_error r =
     (case r of Inl undefined_behaviour \<Rightarrow> Inl undefined_behaviour | Inl e \<Rightarrow> Inl bad_frame | Inr x \<Rightarrow> Inr x)"

definition parseFrame ::
    "BufQueue \<Rightarrow> PacketHeader \<Rightarrow> CodecParameters \<Rightarrow> (QuicFrame \<times> BufQueue) result" where
  "parseFrame queue header params =
     and_then (decodeQuicInteger (cursor_of (bq_chain queue)) 8) (\<lambda>(frameTypeInt, c0).
       case frameTypeInt of
         None \<Rightarrow> Inl runtime_error
       | Some (frameType, _) \<Rightarrow>
           and_then (trimStart queue (cur_pos c0)) (\<lambda>q1.
             if STREAM \<le> frameType \<and> frameType \<le> STREAM_OFF_LEN_FIN
             then catch_frame_error (and_then (decodeStreamFrame q1 (StreamTypeField (ucast frameType)) False)
                    (\<lambda>(f, q2). Inr (QF_ReadStream f, q2)))
             else if GROUP_STREAM \<le> frameType \<and> frameType \<le> GROUP_STREAM_OFF_LEN_FIN
             then catch_frame_error (and_then (decodeStreamFrame q1 (StreamTypeField (ucast frameType)) True)
                    (\<lambda>(f, q2). Inr (QF_ReadStream f, q2)))
             else if frameType = DATAGRAM \<or> frameType = DATAGRAM_LEN
             then catch_frame_error (and_then (decodeDatagramFrame q1 (frameType = DATAGRAM_LEN))
                    (\<lambda>(f, q2). Inr (QF_Datagram f, q2)))
             else case decode_by_type frameType (cursor_of (bq_chain q1)) header params of
                    None \<Rightarrow> Inl bad_frame
                  | Some r \<Rightarrow>
                      and_then (catch_frame_error r) (\<lambda>(f, c).
                      and_then (trimStart q1 (cur_pos c)) (\<lambda>q2. Inr (f, q2)))))"

text \<open>
  The frames of a payload. Neighbouring padding frames are counted as one. Every frame has a
  type of at least one byte, so the loop turns at most once per byte; the fuel is the
  length of the payload.
\<close>

definition add_frame :: "QuicFrame \<Rightarrow> QuicFrame list \<Rightarrow> QuicFrame list" where
  "add_frame f frames =
     (if frames = [] then [f]
      else case (last frames, f) of
             (QF_Padding p, QF_Padding _) \<Rightarrow>
               butlast frames @ [QF_Padding (PaddingFrame (pad_numFrames p + 1))]
           | _ \<Rightarrow> frames @ [f])"

fun decode_frames ::
    "nat \<Rightarrow> BufQueue \<Rightarrow> PacketHeader \<Rightarrow> CodecParameters \<Rightarrow> QuicFrame list \<Rightarrow> QuicFrame list result option" where
  "decode_frames fuel queue header params frames =
     (if chainLength queue = 0 then Some (Inr frames)
      else case fuel of
             0 \<Rightarrow> None
           | Suc n \<Rightarrow>
               (case parseFrame queue header params of
                  Inl e \<Rightarrow> Some (Inl e)
                | Inr (f, q) \<Rightarrow> decode_frames n q header params (add_frame f frames)))"

declare decode_frames.simps [simp del]

definition decodeRegularPacket ::
    "PacketHeader \<Rightarrow> CodecParameters \<Rightarrow> Buf \<Rightarrow> RegularQuicPacket result option" where
  "decodeRegularPacket header params packetData =
     (let queue = bq_append bq_empty_queue packetData
      in case decode_frames (chainLength queue) queue header params [] of
           None \<Rightarrow> None
         | Some r \<Rightarrow> Some (and_then r (\<lambda>frames. Inr \<lparr>rp_header = header, rp_frames = frames\<rparr>)))"

end
