(* ===== verification/Frame_Codec.thy ===== *)
theory Frame_Codec
  imports Write_Codec Parse
begin

text \<open>
  The writers of \<^verbatim>\<open>Write_Codec\<close> against the decoders of \<^verbatim>\<open>Parse\<close>: a frame that was
  written is read back, whatever follows it in the packet and however the packet is cut
  into buffers.
\<close>

section \<open>Decoders that read a field back\<close>

text \<open>\<open>reads D bs x\<close>: on every cursor in front of the bytes \<open>bs\<close>, the decoder \<open>D\<close> returns
  \<open>x\<close> and stands right behind them.\<close>

definition reads :: "(Cursor \<Rightarrow> ('a \<times> Cursor) result) \<Rightarrow> bytes \<Rightarrow> 'a \<Rightarrow> bool" where
  "reads D bs x \<longleftrightarrow>
     (\<forall>c p rest. cursor_at c p (bs @ rest) \<longrightarrow> (\<exists>c'. D c = Inr (x, c') \<and> cursor_at c' (p + length bs) rest))"

lemma readsE:
  assumes "reads D bs x" and "cursor_at c p (bs @ rest)"
  obtains c' where "D c = Inr (x, c')" and "cursor_at c' (p + length bs) rest"
  using assms unfolding reads_def by blast

lemma reads_return: "reads (\<lambda>c. Inr (x, c)) [] x"
  by (simp add: reads_def)

lemma reads_bind:
  assumes "reads D bs x" and "reads (F x) cs y"
  shows "reads (\<lambda>c. and_then (D c) (\<lambda>(v, c1). F v c1)) (bs @ cs) y"
  unfolding reads_def
proof (intro allI impI)
  fix c p rest
  assume "cursor_at c p ((bs @ cs) @ rest)"
  then have "cursor_at c p (bs @ cs @ rest)" by simp
  with assms(1) obtain c1 where "D c = Inr (x, c1)" "cursor_at c1 (p + length bs) (cs @ rest)"
    by (rule readsE)
  with assms(2) obtain c2 where "D c = Inr (x, c1)" "F x c1 = Inr (y, c2)"
    "cursor_at c2 (p + length bs + length cs) rest" by (blast elim: readsE)
  then show "\<exists>c'. and_then (D c) (\<lambda>(v, c1). F v c1) = Inr (y, c') \<and> cursor_at c' (p + length (bs @ cs)) rest"
    by (simp add: add.assoc)
qed

text \<open>A wire format of one field: what is encoded is read back.\<close>

locale wire_field =
  fixes enc :: "'a \<Rightarrow> bytes" and dec :: "Cursor \<Rightarrow> ('a \<times> Cursor) result" and ok :: "'a \<Rightarrow> bool"
  assumes dec_enc: "ok v \<Longrightarrow> reads dec (enc v) v"
begin

lemma bind: "ok v \<Longrightarrow> reads (F v) bs y \<Longrightarrow> reads (\<lambda>c. and_then (dec c) (\<lambda>(v, c1). F v c1)) (enc v @ bs) y"
  by (rule reads_bind [OF dec_enc])

end

definition varint_bytes :: "u64 \<Rightarrow> bytes" where
  "varint_bytes v = ints_bytes [v]"

definition encodable :: "u64 \<Rightarrow> bool" where
  "encodable v \<longleftrightarrow> v \<le> kEightByteLimit"

lemma ints_bytes_Cons: "ints_bytes (v # vs) = varint_bytes v @ ints_bytes vs"
  by (simp add: varint_bytes_def)

lemma encodable_iff: "encodable v \<longleftrightarrow> (\<exists>n bs. encodeQuicInteger v = Inr (n, bs))"
  unfolding encodable_def by (rule encode_succeeds_iff [symmetric])

lemma ints_size_iff: "ints_size vs = Inr n \<longleftrightarrow> list_all encodable vs \<and> n = length (ints_bytes vs)"
  by (simp add: ints_size_encodable encodable_iff list_all_iff)

lemma reads_field:
  assumes "encodable v" shows "reads (\<lambda>c. and_then (decode_field c) (\<lambda>(v, n, c). Inr ((v, n), c)))
    (varint_bytes v) (v, length (varint_bytes v))"
  unfolding reads_def
proof (intro allI impI)
  fix c p rest
  assume at: "cursor_at c p (varint_bytes v @ rest)"
  obtain n bs where e: "encodeQuicInteger v = Inr (n, bs)" using assms encodable_iff by blast
  then have bs: "varint_bytes v = bs" "length bs = n" using encode_bytes [OF e] by (auto simp: varint_bytes_def)
  then obtain c' where "decodeQuicInteger c 8 = Inr (Some (v, n), c')" "cursor_at c' (p + n) rest"
    using encode_decode [OF e, of c p rest 8] at by auto
  then show "\<exists>c'. and_then (decode_field c) (\<lambda>(v, n, c). Inr ((v, n), c)) = Inr ((v, length (varint_bytes v)), c')
      \<and> cursor_at c' (p + length (varint_bytes v)) rest"
    using bs by (simp add: decode_field_def)
qed

lemma reads_field_bind:
  assumes "encodable v" and "reads (F v (length (varint_bytes v))) bs y"
  shows "reads (\<lambda>c. and_then (decode_field c) (\<lambda>(v, n, c1). F v n c1)) (varint_bytes v @ bs) y"
proof -
  have "and_then (and_then (decode_field c) (\<lambda>(v, n, c). Inr ((v, n), c))) (\<lambda>((v, n), c1). F v n c1)
      = and_then (decode_field c) (\<lambda>(v, n, c1). F v n c1)" for c
    by (cases "decode_field c") auto
  then show ?thesis
    using reads_bind [OF reads_field [OF assms(1)], of "\<lambda>(v, n). F v n"] assms(2) by (simp add: split_def)
qed

lemma reads_int:
  assumes "encodable v" shows "reads decode_int (varint_bytes v) v"
  unfolding reads_def
proof (intro allI impI)
  fix c p rest
  assume "cursor_at c p (varint_bytes v @ rest)"
  with reads_field [OF assms] obtain c' where
    "and_then (decode_field c) (\<lambda>(v, n, c). Inr ((v, n), c)) = Inr ((v, length (varint_bytes v)), c')"
    "cursor_at c' (p + length (varint_bytes v)) rest" by (rule readsE)
  then show "\<exists>c'. decode_int c = Inr (v, c') \<and> cursor_at c' (p + length (varint_bytes v)) rest"
    by (auto simp: decode_int_def and_then_eq_Inr split: prod.splits)
qed

interpretation vi: wire_field varint_bytes decode_int encodable
  by unfold_locales (rule reads_int)

lemma load_be_store: "load_be (store_be 8 (unat (v :: u64))) = v"
  by (simp add: load_be_def be_nat_store_be)

lemma reads_readBE8: "reads (readBE 8) (store_be 8 (unat v)) v"
  unfolding reads_def
proof (intro allI impI)
  fix c p rest
  assume "cursor_at c p (store_be 8 (unat v) @ rest)"
  from readBE_at [OF this, of 8] show "\<exists>c'. readBE 8 c = Inr (v, c')
      \<and> cursor_at c' (p + length (store_be 8 (unat v))) rest" by (simp add: load_be_store)
qed

interpretation be8: wire_field "\<lambda>v. store_be 8 (unat v)" "readBE 8" "\<lambda>_. True"
  by unfold_locales (rule reads_readBE8)

lemma reads_readFixedString: "reads (\<lambda>c. readFixedString c (length s)) s s"
  unfolding reads_def
proof (intro allI impI)
  fix c p rest
  assume "cursor_at c p (s @ rest)"
  from readFixedString_at [OF this, of "length s"] show "\<exists>c'. readFixedString c (length s) = Inr (s, c')
      \<and> cursor_at c' (p + length s) rest" by simp
qed

lemma reads_pull: "reads (\<lambda>c. pull c (length s)) s s"
  unfolding reads_def
proof (intro allI impI)
  fix c p rest
  assume "cursor_at c p (s @ rest)"
  from pull_at [OF this, of "length s"] show "\<exists>c'. pull c (length s) = Inr (s, c')
      \<and> cursor_at c' (p + length s) rest" by simp
qed

section \<open>A frame in front of a queue\<close>

definition parses :: "bytes \<Rightarrow> PacketHeader \<Rightarrow> CodecParameters \<Rightarrow> QuicFrame \<Rightarrow> bool" where
  "parses bs header params f \<longleftrightarrow>
     (\<forall>q rest. bq_inv q \<and> bq_bytes q = bs @ rest \<longrightarrow>
        (\<exists>q'. parseFrame q header params = Inr (f, q') \<and> bq_inv q' \<and> bq_bytes q' = rest))"

lemma cursor_of_queue: "cursor_at (cursor_of (bq_chain q)) 0 (bq_bytes q)"
  using cursor_of_at [of "bq_chain q"] by (simp add: bq_bytes_def)

lemma trimStart_queue:
  assumes "bq_inv q" and "bq_bytes q = bs @ rest"
  shows "\<exists>q'. trimStart q (length bs) = Inr q' \<and> bq_inv q' \<and> bq_bytes q' = rest"
proof -
  have "trimStart q (length bs) = Inr (snd (trimStartAtMost q (length bs)))"
    using assms by (simp add: trimStart_Inr)
  then show ?thesis using assms by (simp add: bq.contents_trim bq.invar_trim)
qed

lemma parse_type:
  assumes "bq_inv q" and "bq_bytes q = varint_bytes ft @ rest" and "encodable ft"
  obtains q1 c0 where "decodeQuicInteger (cursor_of (bq_chain q)) 8 = Inr (Some (ft, length (varint_bytes ft)), c0)"
    and "trimStart q (cur_pos c0) = Inr q1" and "bq_inv q1" and "bq_bytes q1 = rest"
proof -
  obtain n bs where e: "encodeQuicInteger ft = Inr (n, bs)" using assms(3) encodable_iff by blast
  then have bs: "varint_bytes ft = bs" "length bs = n" using encode_bytes [OF e] by (auto simp: varint_bytes_def)
  have "cursor_at (cursor_of (bq_chain q)) 0 (bs @ rest)" using cursor_of_queue [of q] assms(2) bs by simp
  then obtain c0 where c0: "decodeQuicInteger (cursor_of (bq_chain q)) 8 = Inr (Some (ft, n), c0)"
    "cursor_at c0 n rest" using encode_decode [OF e, of _ 0 rest 8] by auto
  moreover obtain q1 where "trimStart q n = Inr q1" "bq_inv q1" "bq_bytes q1 = rest"
    using trimStart_queue [OF assms(1,2)] bs by auto
  ultimately show ?thesis using that [of c0 q1] bs by (simp add: cursor_at_def)
qed

text \<open>The types whose decoder reads through the cursor.\<close>

definition plain_type :: "FrameType \<Rightarrow> bool" where
  "plain_type ft \<longleftrightarrow> encodable ft \<and> \<not> (STREAM \<le> ft \<and> ft \<le> STREAM_OFF_LEN_FIN)
     \<and> \<not> (GROUP_STREAM \<le> ft \<and> ft \<le> GROUP_STREAM_OFF_LEN_FIN) \<and> ft \<noteq> DATAGRAM \<and> ft \<noteq> DATAGRAM_LEN"

lemma parses_by_cursor:
  assumes plain: "plain_type ft"
    and D: "\<And>c. decode_by_type ft c header params = Some (D c)" "reads D bs f"
  shows "parses (varint_bytes ft @ bs) header params f"
  unfolding parses_def
proof (intro allI impI, elim conjE)
  fix q rest
  have ft: "encodable ft" "\<not> (STREAM \<le> ft \<and> ft \<le> STREAM_OFF_LEN_FIN)"
    "\<not> (GROUP_STREAM \<le> ft \<and> ft \<le> GROUP_STREAM_OFF_LEN_FIN)" "ft \<noteq> DATAGRAM" "ft \<noteq> DATAGRAM_LEN"
    using plain by (auto simp: plain_type_def)
  assume q: "bq_inv q" "bq_bytes q = (varint_bytes ft @ bs) @ rest"
  then have "bq_bytes q = varint_bytes ft @ bs @ rest" by simp
  with q(1) obtain q1 c0 where t: "decodeQuicInteger (cursor_of (bq_chain q)) 8 = Inr (Some (ft, length (varint_bytes ft)), c0)"
    "trimStart q (cur_pos c0) = Inr q1" "bq_inv q1" "bq_bytes q1 = bs @ rest"
    by (rule parse_type) (use ft in simp_all)
  have "cursor_at (cursor_of (bq_chain q1)) 0 (bs @ rest)" using cursor_of_queue [of q1] t(4) by simp
  with D(2) obtain c' where c': "D (cursor_of (bq_chain q1)) = Inr (f, c')" "cursor_at c' (0 + length bs) rest"
    by (rule readsE)
  obtain q2 where "trimStart q1 (length bs) = Inr q2" "bq_inv q2" "bq_bytes q2 = rest"
    using trimStart_queue [OF t(3,4)] by blast
  with c'(2) have "trimStart q1 (cur_pos c') = Inr q2" "bq_inv q2" "bq_bytes q2 = rest"
    by (simp_all add: cursor_at_def)
  then show "\<exists>q'. parseFrame q header params = Inr (f, q') \<and> bq_inv q' \<and> bq_bytes q' = rest"
    using c'(1) ft(4,5) D(1)
    by (simp add: parseFrame_def t(1,2) if_not_P [OF ft(2)] if_not_P [OF ft(3)] catch_frame_error_def
        del: not_le not_less de_Morgan_conj)
qed

section \<open>Control frames\<close>

lemma reads_return_iff: "reads (\<lambda>c. Inr (x, c)) [] y \<longleftrightarrow> x = y"
  by (auto simp: reads_def cursor_at_def cursor_bytes_def intro: exI [of _ "\<lparr>cur_here = [], cur_next = [], cur_pos = 0\<rparr>"])

lemma ucast_ucast_u16 [simp]: "(ucast (ucast (e :: u16) :: u64) :: u16) = e"
  by (rule word_unat_eq_iff [THEN iffD2])
    (use unsigned_less [of e, where ?'a = nat] in \<open>simp add: unsigned_ucast_eq take_bit_nat_eq_self take_bit_word_eq_self\<close>)

lemmas reads_intros = vi.bind be8.bind
lemmas ints_unfold = ints_bytes_Cons ints_bytes.simps(1)

lemma reads_rst: "list_all encodable [sid, ucast e, off]
    \<Longrightarrow> reads decodeRstStreamFrame (ints_bytes [sid, ucast e, off]) (RstStreamFrame sid e off)"
  unfolding decodeRstStreamFrame_def ints_unfold by (intro reads_intros) (simp_all add: reads_return_iff)

lemma reads_stop_sending: "list_all encodable [sid, ucast e]
    \<Longrightarrow> reads decodeStopSendingFrame (ints_bytes [sid, ucast e]) (StopSendingFrame sid e)"
  unfolding decodeStopSendingFrame_def ints_unfold by (intro reads_intros) (simp_all add: reads_return_iff)

lemma reads_max_data: "list_all encodable [v] \<Longrightarrow> reads decodeMaxDataFrame (ints_bytes [v]) (MaxDataFrame v)"
  unfolding decodeMaxDataFrame_def ints_unfold by (intro reads_intros) (simp_all add: reads_return_iff)

lemma reads_max_stream_data: "list_all encodable [sid, v]
    \<Longrightarrow> reads decodeMaxStreamDataFrame (ints_bytes [sid, v]) (MaxStreamDataFrame sid v)"
  unfolding decodeMaxStreamDataFrame_def ints_unfold by (intro reads_intros) (simp_all add: reads_return_iff)

lemma reads_max_streams: "list_all encodable [v] \<Longrightarrow> v \<le> kMaxMaxStreams
    \<Longrightarrow> reads (decodeMaxStreamsFrame bidi) (ints_bytes [v]) (MaxStreamsFrame v bidi)"
  unfolding decodeMaxStreamsFrame_def ints_unfold
  by (intro reads_intros) (simp_all add: reads_return_iff leD)

lemma reads_data_blocked: "list_all encodable [v]
    \<Longrightarrow> reads decodeDataBlockedFrame (ints_bytes [v]) (DataBlockedFrame v)"
  unfolding decodeDataBlockedFrame_def ints_unfold by (intro reads_intros) (simp_all add: reads_return_iff)

lemma reads_stream_data_blocked: "list_all encodable [sid, v]
    \<Longrightarrow> reads decodeStreamDataBlockedFrame (ints_bytes [sid, v]) (StreamDataBlockedFrame sid v)"
  unfolding decodeStreamDataBlockedFrame_def ints_unfold by (intro reads_intros) (simp_all add: reads_return_iff)

lemma reads_streams_blocked: "list_all encodable [v]
    \<Longrightarrow> reads (decodeStreamsBlockedFrame bidi) (ints_bytes [v]) (StreamsBlockedFrame v bidi)"
  unfolding decodeStreamsBlockedFrame_def ints_unfold by (intro reads_intros) (simp_all add: reads_return_iff)

lemma reads_retire: "list_all encodable [v]
    \<Longrightarrow> reads decodeRetireConnectionIdFrame (ints_bytes [v]) (RetireConnectionIdFrame v)"
  unfolding decodeRetireConnectionIdFrame_def ints_unfold by (intro reads_intros) (simp_all add: reads_return_iff)

lemma reads_ack_frequency: "list_all encodable [a, b, c, d]
    \<Longrightarrow> reads decodeAckFrequencyFrame (ints_bytes [a, b, c, d]) (AckFrequencyFrame a b c d)"
  unfolding decodeAckFrequencyFrame_def ints_unfold by (intro reads_intros) (simp_all add: reads_return_iff)

text \<open>Fields that are not integers.\<close>

lemma reads_check:
  assumes "\<And>c p rest. cursor_at c p (bs @ rest) \<Longrightarrow> \<not> P c" and "reads D bs x"
  shows "reads (\<lambda>c. if P c then E c else D c) bs x"
  using assms unfolding reads_def by simp

lemma reads_path_challenge: "reads decodePathChallengeFrame (store_be 8 (unat v)) (PathChallengeFrame v)"
proof -
  have "reads (\<lambda>c. and_then (readBE 8 c) (\<lambda>(d, c1). Inr (PathChallengeFrame d, c1)))
      (store_be 8 (unat v) @ []) (PathChallengeFrame v)"
    by (intro reads_intros) (simp_all add: reads_return_iff)
  then show ?thesis unfolding decodePathChallengeFrame_def
    by (intro reads_check) (simp_all add: canAdvance_iff cursor_at_def)
qed

lemma reads_path_response: "reads decodePathResponseFrame (store_be 8 (unat v)) (PathResponseFrame v)"
proof -
  have "reads (\<lambda>c. and_then (readBE 8 c) (\<lambda>(d, c1). Inr (PathResponseFrame d, c1)))
      (store_be 8 (unat v) @ []) (PathResponseFrame v)"
    by (intro reads_intros) (simp_all add: reads_return_iff)
  then show ?thesis unfolding decodePathResponseFrame_def
    by (intro reads_check) (simp_all add: canAdvance_iff cursor_at_def)
qed

lemma reads_conn_id:
  assumes "length cid \<le> kMaxConnectionIdSize"
  shows "reads (\<lambda>c. ConnectionId_read c (length cid)) cid cid"
  using assms reads_pull [of cid] by (cases "cid = []") (simp_all add: ConnectionId_read_def leD reads_return_iff)

lemma reads_byte:
  assumes "n < 256" shows "reads (readBE 1) (store_be 1 n) (of_nat n)"
  unfolding reads_def
proof (intro allI impI)
  fix c p rest
  assume "cursor_at c p (store_be 1 n @ rest)"
  from readBE_at [OF this, of 1] show "\<exists>c'. readBE 1 c = Inr (of_nat n, c')
      \<and> cursor_at c' (p + length (store_be 1 n)) rest"
    using be_nat_store_be [of n 1] assms by (simp add: load_be_def)
qed

lemma reads_new_connection_id:
  assumes "list_all encodable [sq, rp]" and "length cid \<le> kMaxConnectionIdSize" and "length tok = 16"
  shows "reads decodeNewConnectionIdFrame (ints_bytes [sq, rp] @ store_be 1 (length cid) @ cid @ tok)
    (NewConnectionIdFrame sq rp cid tok)"
proof -
  let ?n = "of_nat (length cid) :: u64"
  have n: "unat ?n = length cid" using assms(2) by (intro unat_of_nat_u64) simp
  have "reads (\<lambda>c. and_then (pull c 16) (\<lambda>(t, c5). Inr (NewConnectionIdFrame sq rp cid t, c5))) (tok @ [])
      (NewConnectionIdFrame sq rp cid tok)"
    using reads_pull [of tok] assms(3) by (intro reads_bind) (simp_all add: reads_return_iff)
  then have "reads (\<lambda>c. and_then (ConnectionId_read c (unat ?n)) (\<lambda>(cid, c4). and_then (pull c4 16)
      (\<lambda>(t, c5). Inr (NewConnectionIdFrame sq rp cid t, c5)))) (cid @ tok @ []) (NewConnectionIdFrame sq rp cid tok)"
    using reads_conn_id [OF assms(2)] by (intro reads_bind) (simp_all add: n)
  then have "reads (\<lambda>c. if totalLength c < unat ?n then Inl bad_frame
      else if unat ?n > kMaxConnectionIdSize then Inl bad_frame
      else and_then (ConnectionId_read c (unat ?n)) (\<lambda>(cid, c4). and_then (pull c4 16)
        (\<lambda>(t, c5). Inr (NewConnectionIdFrame sq rp cid t, c5)))) (cid @ tok) (NewConnectionIdFrame sq rp cid tok)"
    using assms(2) by (intro reads_check) (simp_all add: n totalLength_bytes cursor_at_def)
  then have "reads (\<lambda>c. and_then (readBE 1 c) (\<lambda>(n, c). if totalLength c < unat n then Inl bad_frame
      else if unat n > kMaxConnectionIdSize then Inl bad_frame
      else and_then (ConnectionId_read c (unat n)) (\<lambda>(cid, c4). and_then (pull c4 16)
        (\<lambda>(t, c5). Inr (NewConnectionIdFrame sq rp cid t, c5)))))
      (store_be 1 (length cid) @ cid @ tok) (NewConnectionIdFrame sq rp cid tok)"
    using reads_byte [of "length cid"] assms(2) by (intro reads_bind) simp_all
  then have "reads (\<lambda>c. if \<not> canAdvance c 1 then Inl bad_frame
      else and_then (readBE 1 c) (\<lambda>(n, c). if totalLength c < unat n then Inl bad_frame
      else if unat n > kMaxConnectionIdSize then Inl bad_frame
      else and_then (ConnectionId_read c (unat n)) (\<lambda>(cid, c4). and_then (pull c4 16)
        (\<lambda>(t, c5). Inr (NewConnectionIdFrame sq rp cid t, c5)))))
      (store_be 1 (length cid) @ cid @ tok) (NewConnectionIdFrame sq rp cid tok)"
    by (intro reads_check) (simp_all add: canAdvance_iff cursor_at_def)
  then show ?thesis
    unfolding decodeNewConnectionIdFrame_def ints_unfold append_assoc append_Nil
    using assms(1) by (intro reads_intros) simp_all
qed

lemma reads_application_close:
  assumes "list_all encodable [ucast e, of_nat (length r)]" and "length r \<le> 1024"
  shows "reads decodeApplicationClose (ints_bytes [ucast e, of_nat (length r)] @ r)
    (ConnectionCloseFrame (AppError e) r PADDING)"
proof -
  let ?n = "of_nat (length r) :: u64"
  have n: "unat ?n = length r" using assms(2) by (intro unat_of_nat_u64) simp
  then have le: "?n \<le> kMaxReasonPhraseLength" using assms(2) by (simp add: word_le_nat_alt)
  have "reads (\<lambda>c. and_then (readFixedString c (unat ?n)) (\<lambda>(r, c3).
      Inr (ConnectionCloseFrame (AppError (ucast (ucast e :: u64))) r PADDING, c3))) (r @ [])
      (ConnectionCloseFrame (AppError e) r PADDING)"
    using reads_readFixedString [of r] by (intro reads_bind) (simp_all add: reads_return_iff n)
  then show ?thesis
    unfolding decodeApplicationClose_def ints_unfold append_assoc append_Nil
    using assms(1) le by (intro reads_intros) (simp_all add: leD)
qed

lemma reads_connection_close:
  assumes "list_all encodable [ucast (TransportErrorCode_value e), ft, of_nat (length r)]" and "length r \<le> 1024"
    and "TransportErrorCode_normal e" and "ft \<le> kOneByteLimit"
  shows "reads decodeConnectionCloseFrame (ints_bytes [ucast (TransportErrorCode_value e), ft, of_nat (length r)] @ r)
    (ConnectionCloseFrame (TransportError e) r ft)"
proof -
  let ?n = "of_nat (length r) :: u64"
  have n: "unat ?n = length r" using assms(2) by (intro unat_of_nat_u64) simp
  then have le: "?n \<le> kMaxReasonPhraseLength" using assms(2) by (simp add: word_le_nat_alt)
  have one: "length (varint_bytes ft) = 1"
    using assms(4) by (simp add: varint_bytes_def encodeQuicInteger_def encodeOneByte_def)
  let ?e = "ucast (TransportErrorCode_value e) :: u64"
  let ?f = "\<lambda>n r. ConnectionCloseFrame (TransportError (TransportErrorCode_cast (ucast ?e))) r ft"
  have "reads (\<lambda>c. and_then (readFixedString c (unat ?n)) (\<lambda>(r, c3). Inr (?f n r, c3))) (r @ [])
      (ConnectionCloseFrame (TransportError e) r ft)"
    using reads_readFixedString [of r] assms(3) by (intro reads_bind) (simp_all add: reads_return_iff n TransportErrorCode_normal_def)
  then have "reads (\<lambda>c. and_then (decode_int c) (\<lambda>(m, c3). if m > kMaxReasonPhraseLength then Inl bad_frame
      else and_then (readFixedString c3 (unat m)) (\<lambda>(r, c4). Inr (?f m r, c4)))) (varint_bytes ?n @ r)
      (ConnectionCloseFrame (TransportError e) r ft)"
    using assms(1) le by (intro reads_intros) (simp_all add: leD)
  then have "reads (\<lambda>c. and_then (decode_field c) (\<lambda>(t, n, c2).
      if n \<noteq> 1 then Inl bad_frame else and_then (decode_int c2) (\<lambda>(m, c3).
      if m > kMaxReasonPhraseLength then Inl bad_frame else and_then (readFixedString c3 (unat m)) (\<lambda>(r, c4).
        Inr (ConnectionCloseFrame (TransportError (TransportErrorCode_cast (ucast ?e))) r t, c4)))))
      (varint_bytes ft @ varint_bytes ?n @ r) (ConnectionCloseFrame (TransportError e) r ft)"
    using assms(1) one by (intro reads_field_bind) simp_all
  then show ?thesis
    unfolding decodeConnectionCloseFrame_def ints_unfold append_assoc append_Nil
    using assms(1) by (intro reads_intros) simp_all
qed

section \<open>Writing and reading a control frame\<close>

text \<open>The frame a receiver gets, for the frames that carry no buffer, and the limits of the wire
  format that the types of the fields do not express.\<close>

fun sent_frame :: "QuicWriteFrame \<Rightarrow> QuicFrame option" where
  "sent_frame (WF_RstStream f) = Some (QF_RstStream f)"
| "sent_frame (WF_ConnectionClose f) = Some (QF_ConnectionClose f)"
| "sent_frame (WF_MaxData f) = Some (QF_MaxData f)"
| "sent_frame (WF_MaxStreamData f) = Some (QF_MaxStreamData f)"
| "sent_frame (WF_DataBlocked f) = Some (QF_DataBlocked f)"
| "sent_frame (WF_StreamDataBlocked f) = Some (QF_StreamDataBlocked f)"
| "sent_frame (WF_StreamsBlocked f) = Some (QF_StreamsBlocked f)"
| "sent_frame (WF_Ping f) = Some (QF_Ping f)"
| "sent_frame (WF_ImmediateAck f) = Some (QF_ImmediateAck f)"
| "sent_frame (WF_Simple (SF_Knob f)) = None"
| "sent_frame (WF_Simple (SF_NewToken f)) = None"
| "sent_frame (WF_Simple f) = Some (QF_Simple f)"
| "sent_frame _ = None"

fun wire_ok :: "QuicWriteFrame \<Rightarrow> bool" where
  "wire_ok (WF_ConnectionClose f) \<longleftrightarrow> length (cc_reasonPhrase f) \<le> 1024
     \<and> (case cc_errorCode f of
          TransportError e \<Rightarrow> TransportErrorCode_normal e \<and> cc_closingFrameType f \<le> kOneByteLimit
        | AppError e \<Rightarrow> cc_closingFrameType f = PADDING
        | LocalError e \<Rightarrow> True)"
| "wire_ok (WF_Simple (SF_MaxStreams f)) \<longleftrightarrow> ms_maxStreams f \<le> kMaxMaxStreams"
| "wire_ok (WF_Simple (SF_NewConnectionId f)) \<longleftrightarrow>
     length (nci_connectionId f) \<le> kMaxConnectionIdSize \<and> length (nci_token f) = 16"
| "wire_ok _ \<longleftrightarrow> True"

lemma unat_spaceLeftIn: "unat (spaceLeftIn b) = unat (remainingBytes b)"
  using unsigned_less [of "remainingBytes b", where ?'a = nat]
  by (simp add: remainingSpaceInPkt_def unsigned_ucast_eq take_bit_nat_eq_self)

lemma write_ints_frame_writes:
  assumes "pb_inv b" and "write_ints_frame ints frame b = Inr (n, b')" and "n \<noteq> 0"
  shows "writes b b' (ints_bytes ints) \<and> n = length (ints_bytes ints) \<and> n \<le> unat (remainingBytes b)
    \<and> list_all encodable ints"
proof -
  obtain m where m: "ints_size ints = Inr m" and fits: "packetSpaceCheck (spaceLeftIn b) m" and n: "n = m"
    and b': "and_then (pb_writes ints b) (\<lambda>b. Inr (m, pb_appendFrame frame b)) = Inr (n, b')"
    using assms(2,3) by (auto simp: write_ints_frame_def and_then_eq_Inr split: if_splits)
  obtain b1 where b1: "pb_writes ints b = Inr b1" "writes b b1 (ints_bytes ints)"
    using pb_writes_correct [OF assms(1) m] by blast
  then show ?thesis using m fits n b' by (auto simp: packetSpaceCheck_def ints_size_iff unat_spaceLeftIn)
qed

lemma reads_tag: "reads D bs f \<Longrightarrow> reads (\<lambda>c. tag k (D c)) bs (k f)"
  unfolding tag_def using reads_bind [of D bs f "\<lambda>f c. Inr (k f, c)" "[]"] by (simp add: reads_return_iff)

lemma encodable_small: "v \<le> kEightByteLimit \<Longrightarrow> encodable v"
  by (simp add: encodable_def)

text \<open>A frame made of integers: its type selects a decoder that reads the rest.\<close>

lemma ints_frame_roundtrip:
  assumes "pb_inv b" and "write_ints_frame (ft # ints) frame b = Inr (n, b')" and "n \<noteq> 0"
    and ft: "plain_type ft" "\<And>c. decode_by_type ft c header params = Some (tag k (D c))"
    and D: "list_all encodable ints \<Longrightarrow> reads D (ints_bytes ints) g" and f: "f = k g"
  shows "\<exists>bs. writes b b' bs \<and> length bs = n \<and> n \<le> unat (remainingBytes b) \<and> parses bs header params f"
proof -
  note w = write_ints_frame_writes [OF assms(1-3)]
  have "parses (varint_bytes ft @ ints_bytes ints) header params f"
    using w D reads_tag [of D "ints_bytes ints" g k] f by (intro parses_by_cursor [OF ft]) auto
  then show ?thesis using w unfolding ints_bytes_Cons by auto
qed

text \<open>A frame that is its type only.\<close>

lemma type_frame_roundtrip:
  assumes "pb_inv b" and "write_ints_frame [ft] frame b = Inr (n, b')" and "n \<noteq> 0"
    and ft: "plain_type ft" "\<And>c. decode_by_type ft c header params = Some (Inr (f, c))"
  shows "\<exists>bs. writes b b' bs \<and> length bs = n \<and> n \<le> unat (remainingBytes b) \<and> parses bs header params f"
proof -
  have "parses (varint_bytes ft @ []) header params f"
    by (rule parses_by_cursor [OF ft]) (simp add: reads_return_iff)
  then show ?thesis using write_ints_frame_writes [OF assms(1-3)] unfolding ints_unfold by auto
qed

lemma path_frame_roundtrip:
  assumes "pb_inv b" and "write_path_frame ft v frame b = Inr (n, b')" and "n \<noteq> 0"
    and ft: "plain_type ft" "\<And>c. decode_by_type ft c header params = Some (tag k (D c))"
    and D: "reads D (store_be 8 (unat v)) g" and f: "f = k g"
  shows "\<exists>bs. writes b b' bs \<and> length bs = n \<and> n \<le> unat (remainingBytes b) \<and> parses bs header params f"
proof -
  have size: "ints_size [ft] = Inr (length (varint_bytes ft))"
    using ft(1) by (simp only: ints_size_iff varint_bytes_def) (simp add: plain_type_def)
  then obtain b1 where b1: "pb_write ft b = Inr b1" "writes b b1 (varint_bytes ft)"
    using pb_writes_correct [OF assms(1) size] by (auto simp: and_then_eq_Inr varint_bytes_def)
  have s: "QuicInteger_getSize ft = Inr (length (varint_bytes ft))" using size by (simp add: and_then_eq_Inr)
  have n: "n = length (varint_bytes ft) + 8" "n \<le> unat (remainingBytes b)"
    "b' = pb_appendFrame frame (pb_writeBE 8 (unat v) b1)"
    using assms(2,3) by (auto simp: write_path_frame_def Let_def s b1(1) packetSpaceCheck_def unat_spaceLeftIn split: if_splits)
  moreover have "writes b b' (varint_bytes ft @ store_be 8 (unat v))"
    using n(3) writes_trans [OF b1(2) pb_writeBE_writes] b1(2) by simp
  moreover have "parses (varint_bytes ft @ store_be 8 (unat v)) header params f"
    unfolding f by (rule parses_by_cursor [OF ft reads_tag [OF D]])
  ultimately show ?thesis by (intro exI [of _ "varint_bytes ft @ store_be 8 (unat v)"]) simp
qed

lemma new_connection_id_roundtrip:
  assumes "pb_inv b" and "writeSimpleFrame (SF_NewConnectionId f) b = Inr (n, b')" and "n \<noteq> 0"
    and "length (nci_connectionId f) \<le> kMaxConnectionIdSize" "length (nci_token f) = 16"
  shows "\<exists>bs. writes b b' bs \<and> length bs = n \<and> n \<le> unat (remainingBytes b)
    \<and> parses bs header params (QF_Simple (SF_NewConnectionId f))"
proof -
  let ?ints = "[NEW_CONNECTION_ID, nci_sequenceNumber f, nci_retirePriorTo f]"
  let ?tail = "store_be 1 (length (nci_connectionId f)) @ nci_connectionId f @ nci_token f"
  obtain m where m: "ints_size ?ints = Inr m"
    and fits: "m + 1 + length (nci_connectionId f) + length (nci_token f) \<le> unat (remainingBytes b)"
    and n: "n = m + 1 + length (nci_connectionId f) + length (nci_token f)"
    and b': "and_then (pb_writes ?ints b) (\<lambda>b. Inr (pb_appendFrame (WF_Simple (SF_NewConnectionId f))
      (pb_push (nci_token f) (pb_push (nci_connectionId f) (pb_writeBE 1 (length (nci_connectionId f)) b))))) = Inr b'"
    using assms(2,3)
    by (auto simp: writeSimpleFrame_def and_then_eq_Inr Let_def packetSpaceCheck_def unat_spaceLeftIn
        simp del: ints_size.simps pb_writes.simps split: if_splits)
  obtain b1 where b1: "pb_writes ?ints b = Inr b1" "writes b b1 (ints_bytes ?ints)"
    using pb_writes_correct [OF assms(1) m] by blast
  let ?b2 = "pb_writeBE 1 (length (nci_connectionId f)) b1"
  have w2: "writes b1 ?b2 (store_be 1 (length (nci_connectionId f)))" by (rule pb_writeBE_writes [OF writes_inv [OF b1(2)]])
  have w3: "writes ?b2 (pb_push (nci_connectionId f) ?b2) (nci_connectionId f)" by (rule pb_push_writes [OF writes_inv [OF w2]])
  have "writes b b' (((ints_bytes ?ints @ store_be 1 (length (nci_connectionId f))) @ nci_connectionId f) @ nci_token f)"
    using b' b1 writes_trans [OF writes_trans [OF writes_trans [OF b1(2) w2] w3] pb_push_writes] w3
    by (auto simp del: pb_writes.simps ints_bytes.simps)
  moreover have "parses (varint_bytes NEW_CONNECTION_ID @ ints_bytes [nci_sequenceNumber f, nci_retirePriorTo f] @ ?tail)
      header params (QF_Simple (SF_NewConnectionId f))"
  proof (rule parses_by_cursor)
    show "decode_by_type NEW_CONNECTION_ID c header params
        = Some (tag (QF_Simple \<circ> SF_NewConnectionId) (decodeNewConnectionIdFrame c))" for c
      by (simp add: decode_by_type_def)
    show "reads (\<lambda>c. tag (QF_Simple \<circ> SF_NewConnectionId) (decodeNewConnectionIdFrame c))
        (ints_bytes [nci_sequenceNumber f, nci_retirePriorTo f] @ ?tail) (QF_Simple (SF_NewConnectionId f))"
      using reads_tag [OF reads_new_connection_id [of "nci_sequenceNumber f" "nci_retirePriorTo f"
          "nci_connectionId f" "nci_token f"], of "QF_Simple \<circ> SF_NewConnectionId"] m assms(4,5)
      by (simp add: ints_size_iff del: ints_size.simps ints_bytes.simps)
  qed (simp add: plain_type_def encodable_def)
  ultimately show ?thesis using n fits m
    by (intro exI [of _ "ints_bytes ?ints @ ?tail"]) (simp add: ints_size_iff ints_bytes_Cons del: ints_bytes.simps(2) ints_size.simps)
qed

lemma connection_close_roundtrip:
  assumes "pb_inv b" and "write_connection_close f b = Inr (n, b')" and "n \<noteq> 0"
    and "wire_ok (WF_ConnectionClose f)"
  shows "\<exists>bs. writes b b' bs \<and> length bs = n \<and> n \<le> unat (remainingBytes b)
    \<and> parses bs header params (QF_ConnectionClose f)"
proof -
  obtain ft ints D where D: "\<And>c. decode_by_type ft c header params = Some (tag QF_ConnectionClose (D c))"
    and ft: "plain_type ft"
    and reads: "list_all encodable (ints @ [of_nat (length (cc_reasonPhrase f))])
      \<Longrightarrow> reads D (ints_bytes (ints @ [of_nat (length (cc_reasonPhrase f))]) @ cc_reasonPhrase f) f"
    and wr: "write_connection_close f b = (let all_ints = ft # ints @ [of_nat (length (cc_reasonPhrase f))]
          in and_then (ints_size all_ints) (\<lambda>n.
               let frameSize = n + length (cc_reasonPhrase f)
               in if packetSpaceCheck (spaceLeftIn b) frameSize
                  then and_then (pb_writes all_ints b)
                         (\<lambda>b. Inr (frameSize, pb_appendFrame (WF_ConnectionClose f) (pb_push (cc_reasonPhrase f) b)))
                  else Inr (0, b)))"
  proof (cases "cc_errorCode f")
    case (AppError e)
    then have "f = ConnectionCloseFrame (AppError e) (cc_reasonPhrase f) PADDING"
      using assms(4) by (cases f) auto
    with AppError assms(4) show ?thesis
      using reads_application_close [of e "cc_reasonPhrase f"]
      by (intro that [of CONNECTION_CLOSE_APP_ERR decodeApplicationClose "[ucast e]"])
        (auto simp: decode_by_type_def plain_type_def encodable_def write_connection_close_def)
  next
    case (TransportError e)
    then have "f = ConnectionCloseFrame (TransportError e) (cc_reasonPhrase f) (cc_closingFrameType f)"
      by (cases f) auto
    with TransportError assms(4) show ?thesis
      using reads_connection_close [of e "cc_closingFrameType f" "cc_reasonPhrase f"]
      by (intro that [of CONNECTION_CLOSE decodeConnectionCloseFrame
            "[ucast (TransportErrorCode_value e), cc_closingFrameType f]"])
        (auto simp: decode_by_type_def plain_type_def encodable_def write_connection_close_def)
  next
    case (LocalError e)
    then show ?thesis using assms(2) by (simp add: write_connection_close_def)
  qed
  let ?ints = "ft # ints @ [of_nat (length (cc_reasonPhrase f))]"
  obtain m where m: "ints_size ?ints = Inr m" and fits: "m + length (cc_reasonPhrase f) \<le> unat (remainingBytes b)"
    and n: "n = m + length (cc_reasonPhrase f)"
    and b': "and_then (pb_writes ?ints b) (\<lambda>b. Inr (pb_appendFrame (WF_ConnectionClose f)
      (pb_push (cc_reasonPhrase f) b))) = Inr b'"
    using assms(2,3) unfolding wr
    by (auto simp: and_then_eq_Inr Let_def packetSpaceCheck_def unat_spaceLeftIn
        simp del: ints_size.simps pb_writes.simps split: if_splits)
  obtain b1 where b1: "pb_writes ?ints b = Inr b1" "writes b b1 (ints_bytes ?ints)"
    using pb_writes_correct [OF assms(1) m] by blast
  have "writes b b' (ints_bytes ?ints @ cc_reasonPhrase f)"
    using b' b1 writes_trans [OF b1(2) pb_push_writes] by (auto simp del: pb_writes.simps ints_bytes.simps)
  moreover have "parses (varint_bytes ft @ ints_bytes (ints @ [of_nat (length (cc_reasonPhrase f))]) @ cc_reasonPhrase f)
      header params (QF_ConnectionClose f)"
    using reads_tag [OF reads] m
    by (intro parses_by_cursor [OF ft D]) (simp add: ints_size_iff del: ints_size.simps)
  ultimately show ?thesis using n fits m
    by (intro exI [of _ "ints_bytes ?ints @ cc_reasonPhrase f"]) (simp add: ints_size_iff ints_bytes_Cons del: ints_bytes.simps(2) ints_size.simps)
qed

text \<open>The decoder each type selects.\<close>

lemma plain_types:
  "plain_type STOP_SENDING"
  "plain_type PATH_CHALLENGE"
  "plain_type PATH_RESPONSE"
  "plain_type RETIRE_CONNECTION_ID"
  "plain_type ACK_FREQUENCY"
  "plain_type RST_STREAM"
  "plain_type MAX_DATA"
  "plain_type MAX_STREAM_DATA"
  "plain_type DATA_BLOCKED"
  "plain_type STREAM_DATA_BLOCKED"
  "plain_type (if bidi then MAX_STREAMS_BIDI else MAX_STREAMS_UNI)"
  "plain_type (if bidi then STREAMS_BLOCKED_BIDI else STREAMS_BLOCKED_UNI)"
  "plain_type PING"
  "plain_type IMMEDIATE_ACK"
  "plain_type HANDSHAKE_DONE"
  by (simp_all add: plain_type_def encodable_def word_le_nat_alt)

lemma decode_types:
  "decode_by_type STOP_SENDING c header params = Some (tag (QF_Simple \<circ> SF_StopSending) (decodeStopSendingFrame c))"
  "decode_by_type PATH_CHALLENGE c header params = Some (tag (QF_Simple \<circ> SF_PathChallenge) (decodePathChallengeFrame c))"
  "decode_by_type PATH_RESPONSE c header params = Some (tag (QF_Simple \<circ> SF_PathResponse) (decodePathResponseFrame c))"
  "decode_by_type RETIRE_CONNECTION_ID c header params = Some (tag (QF_Simple \<circ> SF_RetireConnectionId) (decodeRetireConnectionIdFrame c))"
  "decode_by_type ACK_FREQUENCY c header params = Some (tag (QF_Simple \<circ> SF_AckFrequency) (decodeAckFrequencyFrame c))"
  "decode_by_type RST_STREAM c header params = Some (tag (QF_RstStream) (decodeRstStreamFrame c))"
  "decode_by_type MAX_DATA c header params = Some (tag (QF_MaxData) (decodeMaxDataFrame c))"
  "decode_by_type MAX_STREAM_DATA c header params = Some (tag (QF_MaxStreamData) (decodeMaxStreamDataFrame c))"
  "decode_by_type DATA_BLOCKED c header params = Some (tag (QF_DataBlocked) (decodeDataBlockedFrame c))"
  "decode_by_type STREAM_DATA_BLOCKED c header params = Some (tag (QF_StreamDataBlocked) (decodeStreamDataBlockedFrame c))"
  "decode_by_type (if bidi then MAX_STREAMS_BIDI else MAX_STREAMS_UNI) c header params = Some (tag (QF_Simple \<circ> SF_MaxStreams) (decodeMaxStreamsFrame bidi c))"
  "decode_by_type (if bidi then STREAMS_BLOCKED_BIDI else STREAMS_BLOCKED_UNI) c header params = Some (tag (QF_StreamsBlocked) (decodeStreamsBlockedFrame bidi c))"
  "decode_by_type PING c header params = Some (Inr (QF_Ping PingFrame, c))"
  "decode_by_type IMMEDIATE_ACK c header params = Some (Inr (QF_ImmediateAck ImmediateAckFrame, c))"
  "decode_by_type HANDSHAKE_DONE c header params = Some (Inr (QF_Simple (SF_HandshakeDone HandshakeDoneFrame), c))"
  by (simp_all add: decode_by_type_def)

lemma simple_frame_roundtrip:
  assumes inv: "pb_inv b" and w: "writeSimpleFrame sf b = Inr (n, b')" and n: "n \<noteq> 0"
    and sent: "sent_frame (WF_Simple sf) = Some f" and ok: "wire_ok (WF_Simple sf)"
  shows "\<exists>bs. writes b b' bs \<and> length bs = n \<and> n \<le> unat (remainingBytes b) \<and> parses bs header params f"
proof (cases sf)
  case (SF_StopSending g)
  have "f = (QF_Simple \<circ> SF_StopSending) g" using sent SF_StopSending by simp
  then show ?thesis using w SF_StopSending 
    by (intro ints_frame_roundtrip [OF inv _ n plain_types(1) decode_types(1)])
      (simp add: writeSimpleFrame_def, rule reads_stop_sending, simp_all)
next
  case (SF_PathChallenge g)
  have "f = (QF_Simple \<circ> SF_PathChallenge) g" using sent SF_PathChallenge by simp
  then show ?thesis using w SF_PathChallenge 
    by (intro path_frame_roundtrip [OF inv _ n plain_types(2) decode_types(2)])
      (simp add: writeSimpleFrame_def, rule reads_path_challenge, simp_all)
next
  case (SF_PathResponse g)
  have "f = (QF_Simple \<circ> SF_PathResponse) g" using sent SF_PathResponse by simp
  then show ?thesis using w SF_PathResponse 
    by (intro path_frame_roundtrip [OF inv _ n plain_types(3) decode_types(3)])
      (simp add: writeSimpleFrame_def, rule reads_path_response, simp_all)
next
  case (SF_NewConnectionId g)
  then have "f = QF_Simple (SF_NewConnectionId g)" using sent by simp
  then show ?thesis
    using new_connection_id_roundtrip [OF inv w [unfolded SF_NewConnectionId] n] ok SF_NewConnectionId by simp
next
  case (SF_MaxStreams g)
  have "f = (QF_Simple \<circ> SF_MaxStreams) g" using sent SF_MaxStreams by simp
  then show ?thesis using w SF_MaxStreams ok
    by (intro ints_frame_roundtrip [OF inv _ n plain_types(11) decode_types(11)])
      (simp add: writeSimpleFrame_def, rule reads_max_streams, simp_all)
next
  case (SF_RetireConnectionId g)
  have "f = (QF_Simple \<circ> SF_RetireConnectionId) g" using sent SF_RetireConnectionId by simp
  then show ?thesis using w SF_RetireConnectionId 
    by (intro ints_frame_roundtrip [OF inv _ n plain_types(4) decode_types(4)])
      (simp add: writeSimpleFrame_def, rule reads_retire, simp_all)
next
  case (SF_AckFrequency g)
  have "f = (QF_Simple \<circ> SF_AckFrequency) g" using sent SF_AckFrequency by simp
  then show ?thesis using w SF_AckFrequency 
    by (intro ints_frame_roundtrip [OF inv _ n plain_types(5) decode_types(5)])
      (simp add: writeSimpleFrame_def, rule reads_ack_frequency, simp_all)
next
  case (SF_HandshakeDone g)
  then have "f = QF_Simple (SF_HandshakeDone HandshakeDoneFrame)" using sent by (cases g) simp
  then show ?thesis using w SF_HandshakeDone
    by (intro type_frame_roundtrip [OF inv _ n plain_types(15)])
      (simp_all add: writeSimpleFrame_def decode_types(15))
qed (use sent in simp_all)

lemma frame_roundtrip:
  assumes inv: "pb_inv b" and w: "writeFrame frame b = Inr (n, b')" and n: "n \<noteq> 0"
    and sent: "sent_frame frame = Some f" and ok: "wire_ok frame"
  shows "\<exists>bs. writes b b' bs \<and> length bs = n \<and> n \<le> unat (remainingBytes b) \<and> parses bs header params f"
proof (cases frame)
  case (WF_RstStream g)
  have "f = QF_RstStream g" using sent WF_RstStream by simp
  then show ?thesis using w WF_RstStream 
    by (intro ints_frame_roundtrip [OF inv _ n plain_types(6) decode_types(6)])
      (simp add: writeFrame_def, rule reads_rst, simp_all)
next
  case (WF_MaxData g)
  have "f = QF_MaxData g" using sent WF_MaxData by simp
  then show ?thesis using w WF_MaxData 
    by (intro ints_frame_roundtrip [OF inv _ n plain_types(7) decode_types(7)])
      (simp add: writeFrame_def, rule reads_max_data, simp_all)
next
  case (WF_MaxStreamData g)
  have "f = QF_MaxStreamData g" using sent WF_MaxStreamData by simp
  then show ?thesis using w WF_MaxStreamData 
    by (intro ints_frame_roundtrip [OF inv _ n plain_types(8) decode_types(8)])
      (simp add: writeFrame_def, rule reads_max_stream_data, simp_all)
next
  case (WF_DataBlocked g)
  have "f = QF_DataBlocked g" using sent WF_DataBlocked by simp
  then show ?thesis using w WF_DataBlocked 
    by (intro ints_frame_roundtrip [OF inv _ n plain_types(9) decode_types(9)])
      (simp add: writeFrame_def, rule reads_data_blocked, simp_all)
next
  case (WF_StreamDataBlocked g)
  have "f = QF_StreamDataBlocked g" using sent WF_StreamDataBlocked by simp
  then show ?thesis using w WF_StreamDataBlocked 
    by (intro ints_frame_roundtrip [OF inv _ n plain_types(10) decode_types(10)])
      (simp add: writeFrame_def, rule reads_stream_data_blocked, simp_all)
next
  case (WF_StreamsBlocked g)
  have "f = QF_StreamsBlocked g" using sent WF_StreamsBlocked by simp
  then show ?thesis using w WF_StreamsBlocked ok
    by (intro ints_frame_roundtrip [OF inv _ n plain_types(12) decode_types(12)])
      (simp add: writeFrame_def, rule reads_streams_blocked, simp_all)
next
  case (WF_ConnectionClose g)
  have "write_connection_close g b = Inr (n, b')" using w WF_ConnectionClose by (simp add: writeFrame_def)
  from connection_close_roundtrip [OF inv this n] show ?thesis using sent ok WF_ConnectionClose by simp
next
  case (WF_Simple g)
  have "writeSimpleFrame g b = Inr (n, b')" using w WF_Simple by (simp add: writeFrame_def)
  from simple_frame_roundtrip [OF inv this n] show ?thesis using sent ok WF_Simple by simp
next
  case (WF_Ping g)
  then have "f = QF_Ping PingFrame" using sent by (cases g) simp
  then show ?thesis using w WF_Ping
    by (intro type_frame_roundtrip [OF inv _ n plain_types(13)])
      (simp_all add: writeFrame_def decode_types(13))
next
  case (WF_ImmediateAck g)
  then have "f = QF_ImmediateAck ImmediateAckFrame" using sent by (cases g) simp
  then show ?thesis using w WF_ImmediateAck
    by (intro type_frame_roundtrip [OF inv _ n plain_types(14)])
      (simp_all add: writeFrame_def decode_types(14))
qed (use sent in simp_all)

end
