(* ===== verification/Packet_Codec.thy ===== *)
theory Packet_Codec
  imports Frame_Codec
begin

text \<open>
  The codec on whole payloads. The loop of \<^verbatim>\<open>decodeRegularPacket\<close> ends on every
  input, with frames or with one of the errors its callers expect, and it reads back the
  sequence of control frames that \<^verbatim>\<open>writeFrame\<close> put in a packet.
\<close>

section \<open>The parser on arbitrary input\<close>

lemma trimStart_shrinks:
  assumes "bq_inv q" and "trimStart q n = Inr q'"
  shows "bq_inv q' \<and> chainLength q' + n = chainLength q"
  using assms bq.count_trim [of q n] bq.invar_trim [of q n] bq.len_trim [of q n] bq.len_contents [of q]
  by (auto simp: trimStart_def split: prod.splits if_splits)

lemma chainLength_move: "chainLength (snd (bq_move q)) = 0"
  using bq.len_contents [OF bq.invar_move [of q]] by (simp add: bq.contents_move)

lemma decodeStreamFrame_shrinks:
  assumes "bq_inv q" and "decodeStreamFrame q t g = Inr (f, q')"
  shows "bq_inv q' \<and> chainLength q' \<le> chainLength q"
  using assms(2)
  by (auto simp: decodeStreamFrame_def Let_def case_prod_beta chainLength_move bq.len_split bq.queue_invar
      dest!: trimStart_shrinks [OF assms(1)] elim!: and_then_InrE split: option.splits if_splits)

lemma decodeDatagramFrame_shrinks:
  assumes "bq_inv q" and "decodeDatagramFrame q h = Inr (f, q')"
  shows "bq_inv q' \<and> chainLength q' \<le> chainLength q"
  using assms
  by (auto simp: decodeDatagramFrame_def Let_def case_prod_beta bq.len_split bq.queue_invar
      dest!: trimStart_shrinks [OF assms(1)] elim!: and_then_InrE split: if_splits)

lemma catch_frame_error_Inr: "catch_frame_error r = Inr x \<longleftrightarrow> r = Inr x"
  by (auto simp: catch_frame_error_def split: sum.splits exn.splits)

lemma parseFrame_shrinks:
  assumes "bq_inv q" and "parseFrame q header params = Inr (f, q')"
  shows "bq_inv q' \<and> chainLength q' < chainLength q"
proof (cases rule: decode_cases [of "cursor_of (bq_chain q)" 8])
  case (none c')
  then show ?thesis using assms(2) by (simp add: parseFrame_def)
next
  case (some v n c')
  then have pos: "0 < cur_pos c'" by auto
  obtain q1 where q1: "trimStart q (cur_pos c') = Inr q1"
    using assms(2) some(1) by (cases "trimStart q (cur_pos c')") (auto simp: parseFrame_def)
  then have s: "bq_inv q1" "chainLength q1 < chainLength q" using trimStart_shrinks [OF assms(1) q1] pos by auto
  have "bq_inv q' \<and> chainLength q' \<le> chainLength q1"
    using assms(2) some(1) q1 decodeStreamFrame_shrinks [OF s(1)] decodeDatagramFrame_shrinks [OF s(1)]
      trimStart_shrinks [OF s(1)]
    by (fastforce simp: parseFrame_def and_then_eq_Inr catch_frame_error_Inr split: if_splits option.splits)
  then show ?thesis using s by auto
qed

section \<open>Every decoder stays inside the input\<close>

text \<open>A decoder, whatever the input: an exception it throws is a C++ exception and not an
  undefined operation, and the cursor it returns accounts for every byte.\<close>

definition decoder :: "(Cursor \<Rightarrow> ('a \<times> Cursor) result) \<Rightarrow> bool" where
  "decoder D \<longleftrightarrow> (\<forall>c. case D c of
       Inl e \<Rightarrow> e \<noteq> undefined_behaviour
     | Inr (x, c') \<Rightarrow> cur_pos c' + length (cursor_bytes c') = cur_pos c + length (cursor_bytes c))"

lemma decoder_return: "decoder (\<lambda>c. Inr (x, c))"
  by (simp add: decoder_def)

lemma decoder_throw: "e \<noteq> undefined_behaviour \<Longrightarrow> decoder (\<lambda>c. Inl e)"
  by (simp add: decoder_def)

lemma decoder_bad_frame: "decoder (\<lambda>c. Inl bad_frame)"
  by (simp add: decoder_def bad_frame_def)

lemma decoder_bind:
  assumes "decoder D" and "\<And>x. decoder (F x)"
  shows "decoder (\<lambda>c. and_then (D c) (\<lambda>(x, c'). F x c'))"
  unfolding decoder_def
proof (intro allI)
  fix c
  show "case and_then (D c) (\<lambda>(x, c'). F x c') of Inl e \<Rightarrow> e \<noteq> undefined_behaviour
      | Inr (x, c') \<Rightarrow> cur_pos c' + length (cursor_bytes c') = cur_pos c + length (cursor_bytes c)"
  proof (cases "D c")
    case (Inl e)
    then show ?thesis using assms(1) unfolding decoder_def by (auto dest: spec [of _ c])
  next
    case (Inr r)
    then show ?thesis using assms(1) assms(2) [of "fst r"] unfolding decoder_def
      by (auto dest!: spec [of _ c] spec [of _ "snd r"] split: sum.splits prod.splits)
  qed
qed

lemma decoder_pure:
  assumes "\<And>e. m = Inl e \<Longrightarrow> e \<noteq> undefined_behaviour" and "\<And>x. decoder (F x)"
  shows "decoder (\<lambda>c. and_then m (\<lambda>x. F x c))"
  using assms by (cases m) (simp_all add: decoder_throw)

lemma decoder_if: "decoder D \<Longrightarrow> decoder E \<Longrightarrow> decoder (\<lambda>c. if P c then D c else E c)"
  by (simp add: decoder_def)

lemma decoder_tag: "decoder D \<Longrightarrow> decoder (\<lambda>c. tag k (D c))"
  unfolding tag_def by (intro decoder_bind decoder_return)

text \<open>The operations of the cursor.\<close>

lemma decoder_pull: "decoder (\<lambda>c. pull c n)"
  unfolding decoder_def
proof (intro allI)
  fix c
  have at: "cursor_at c (cur_pos c) (cursor_bytes c)" by (simp add: cursor_at_def)
  show "case pull c n of Inl e \<Rightarrow> e \<noteq> undefined_behaviour
      | Inr (x, c') \<Rightarrow> cur_pos c' + length (cursor_bytes c') = cur_pos c + length (cursor_bytes c)"
    using pull_at [OF at, of n] pull_short [OF at, of n]
    by (cases "n \<le> length (cursor_bytes c)") (auto simp: cursor_at_def)
qed

lemma decoder_readBE: "decoder (readBE n)"
proof -
  have "decoder (\<lambda>c. and_then (pull c n) (\<lambda>(bs, c'). Inr (load_be bs, c')))"
    by (intro decoder_bind decoder_pull decoder_return)
  then show ?thesis by (simp add: decoder_def readBE_def)
qed

lemma decoder_readFixedString: "decoder (\<lambda>c. readFixedString c n)"
  unfolding decoder_def
proof (intro allI)
  fix c
  have at: "cursor_at c (cur_pos c) (cursor_bytes c)" by (simp add: cursor_at_def)
  show "case readFixedString c n of Inl e \<Rightarrow> e \<noteq> undefined_behaviour
      | Inr (x, c') \<Rightarrow> cur_pos c' + length (cursor_bytes c') = cur_pos c + length (cursor_bytes c)"
    using readFixedString_at [OF at, of n] readFixedString_short [OF at, of n]
    by (cases "n \<le> length (cursor_bytes c)") (auto simp: cursor_at_def)
qed

lemma advance_keeps [simp]:
  "cur_pos (advanceBufferIfEmpty c) = cur_pos c" "cursor_bytes (advanceBufferIfEmpty c) = cursor_bytes c"
  using advance_at [of c "cur_pos c" "cursor_bytes c"] by (simp_all add: cursor_at_def)

lemma clone_walk_conserves:
  "cur_pos (snd (clone_walk here bs pos n)) + length (cursor_bytes (snd (clone_walk here bs pos n)))
     = pos + length (here @ concat bs)"
proof (induction here bs pos n rule: clone_walk.induct)
  case (1 here pos len)
  show ?case by simp (simp add: cursor_bytes_def)
next
  case (2 here b bs pos len)
  then show ?case by (auto simp: case_prod_beta Let_def) (simp add: cursor_bytes_def)
qed

lemma cloneAtMost_conserves: "cur_pos (snd (cloneAtMost c n)) + length (cursor_bytes (snd (cloneAtMost c n)))
    = cur_pos c + length (cursor_bytes c)"
  using clone_walk_conserves [of "cur_here (advanceBufferIfEmpty c)" "cur_next (advanceBufferIfEmpty c)"]
  by (simp add: cloneAtMost_def Let_def cursor_bytes_def [symmetric] del: length_append)

lemma decoder_cloneAtMost: "(\<And>x. decoder (F x)) \<Longrightarrow> decoder (\<lambda>c. let (b, c') = cloneAtMost c n in F b c')"
  using decoder_bind [of "\<lambda>c. Inr (cloneAtMost c n)" F] cloneAtMost_conserves
  by (simp add: decoder_def case_prod_beta)

lemma decoder_clone: "decoder (\<lambda>c. clone c n)"
  unfolding clone_def
  using cloneAtMost_conserves [of _ n] by (auto simp: case_prod_beta Let_def decoder_def)

lemma decoder_field_bind:
  assumes "\<And>v n. decoder (F v n)"
  shows "decoder (\<lambda>c. and_then (decode_field c) (\<lambda>(v, n, c'). F v n c'))"
proof -
  have "decoder (\<lambda>c. and_then (decode_field c) (\<lambda>(v, n, c'). Inr ((v, n), c')))"
    unfolding decoder_def
  proof (intro allI)
    fix c
    show "case and_then (decode_field c) (\<lambda>(v, n, c'). Inr ((v, n), c')) of Inl e \<Rightarrow> e \<noteq> undefined_behaviour
        | Inr (x, c') \<Rightarrow> cur_pos c' + length (cursor_bytes c') = cur_pos c + length (cursor_bytes c)"
      by (cases rule: decode_cases [of c 8]) (auto simp: decode_field_def bad_frame_def)
  qed
  from decoder_bind [OF this, of "\<lambda>(v, n). F v n"] assms show ?thesis
    by (auto simp: case_prod_beta and_then_def decoder_def split: sum.splits)
qed

lemma decoder_int: "decoder decode_int"
proof -
  have "decoder (\<lambda>c. and_then (decode_field c) (\<lambda>(v, n, c'). Inr (v, c')))"
    by (intro decoder_field_bind decoder_return)
  then show ?thesis by (simp add: decoder_def decode_int_def)
qed

lemmas decoder_intros = decoder_return decoder_bad_frame decoder_bind decoder_if decoder_pull decoder_readBE
  decoder_readFixedString decoder_clone decoder_cloneAtMost decoder_field_bind decoder_int

lemma decoder_eta: "decoder (\<lambda>c. D c) \<Longrightarrow> decoder D"
  by simp

lemma nextAckedPacketGap_error: "nextAckedPacketGap p g = Inl e \<Longrightarrow> e \<noteq> undefined_behaviour"
  by (auto simp: nextAckedPacketGap_def bad_frame_def Let_def split: if_splits)

lemma nextAckedPacketLen_error: "nextAckedPacketLen p n = Inl e \<Longrightarrow> e \<noteq> undefined_behaviour"
  by (auto simp: nextAckedPacketLen_def bad_frame_def split: if_splits)

text \<open>The exponents for which the shifts of \<^verbatim>\<open>convertEncodedDurationToMicroseconds\<close> are defined
  whatever the delay. The exponent of the receive timestamps is narrowed to a byte before use.\<close>

definition safe_exponent :: "u8 \<Rightarrow> bool" where
  "safe_exponent e \<longleftrightarrow> 0 < e \<and> e < 64"

definition safe_params :: "CodecParameters \<Rightarrow> bool" where
  "safe_params params \<longleftrightarrow> safe_exponent (peerAckDelayExponent params)
     \<and> (case maybeAckReceiveTimestampsConfig params of None \<Rightarrow> True
          | Some config \<Rightarrow> safe_exponent (ucast (receiveTimestampsExponent config)))"

lemma convert_error:
  assumes "safe_exponent expo" and "convertEncodedDurationToMicroseconds expo d = Inl e"
  shows "e \<noteq> undefined_behaviour"
proof -
  have "unat (64 - expo) < 64" using assms(1) unat_sub [of expo 64] by (auto simp: safe_exponent_def word_less_nat_alt word_le_nat_alt)
  moreover have "unat expo < 64" using assms(1) by (simp add: safe_exponent_def word_less_nat_alt)
  ultimately show ?thesis using assms(2)
    by (auto simp: convertEncodedDurationToMicroseconds_def bad_frame_def Let_def split: if_splits)
qed

lemma decoder_ack_blocks: "decoder (decode_ack_blocks n p)"
proof (induction n arbitrary: p)
  case 0
  show ?case by (rule decoder_eta) (simp add: decoder_return)
next
  case (Suc n)
  show ?case
    by (rule decoder_eta, unfold decode_ack_blocks.simps)
      (intro decoder_intros decoder_pure Suc; erule nextAckedPacketGap_error nextAckedPacketLen_error)
qed

lemma decoder_deltas: "safe_exponent expo \<Longrightarrow> decoder (decode_deltas n expo)"
proof (induction n)
  case 0
  show ?case by (rule decoder_eta) (simp add: decoder_return)
next
  case (Suc n)
  show ?case
    by (rule decoder_eta, unfold decode_deltas.simps)
      (intro decoder_intros decoder_pure Suc.IH Suc.prems; erule convert_error [OF Suc.prems])
qed

lemma decoder_timestamp_ranges: "safe_exponent expo \<Longrightarrow> decoder (decode_timestamp_ranges n expo)"
proof (induction n)
  case 0
  show ?case by (rule decoder_eta) (simp add: decoder_return)
next
  case (Suc n)
  show ?case
    by (rule decoder_eta, unfold decode_timestamp_ranges.simps)
      (intro decoder_intros decoder_deltas Suc.IH Suc.prems)
qed

lemma decoder_ack:
  assumes "safe_params params"
  shows "decoder (\<lambda>c. decodeAckFrame c header params ft)"
proof -
  let ?e = "if ph_getHeaderForm header = Long then of_nat kDefaultAckDelayExponent else peerAckDelayExponent params"
  have e: "safe_exponent ?e" using assms by (auto simp: safe_params_def safe_exponent_def)
  show ?thesis unfolding decodeAckFrame_def Let_def
    by (intro decoder_intros decoder_pure decoder_ack_blocks; erule nextAckedPacketLen_error convert_error [OF e])
qed

lemma decoder_ack_timestamps:
  assumes "safe_params params"
  shows "decoder (\<lambda>c. decodeAckFrameWithReceivedTimestamps c header params ft)"
proof -
  let ?e = "case maybeAckReceiveTimestampsConfig params of
      Some config \<Rightarrow> ucast (receiveTimestampsExponent config) | None \<Rightarrow> of_nat kDefaultReceiveTimestampsExponent"
  have e: "safe_exponent ?e" using assms by (auto simp: safe_params_def safe_exponent_def split: option.splits)
  show ?thesis unfolding decodeAckFrameWithReceivedTimestamps_def Let_def
    by (intro decoder_intros decoder_ack [OF assms] decoder_timestamp_ranges [OF e])
qed

lemma decoder_padding: "decoder decodePaddingFrame"
  unfolding decoder_def
proof (intro allI)
  fix c
  obtain data c1 where d: "peekBytes c = (data, c1)" by fastforce
  have "cursor_at c (cur_pos c) (cursor_bytes c)" by (simp add: cursor_at_def)
  from peekBytes_at [OF this] d obtain more where at: "cursor_at c1 (cur_pos c) (cursor_bytes c)"
    and "cursor_bytes c = data @ more" by auto
  with skip_at [OF at, of "length data"] d show "case decodePaddingFrame c of Inl e \<Rightarrow> e \<noteq> undefined_behaviour
      | Inr (x, c') \<Rightarrow> cur_pos c' + length (cursor_bytes c') = cur_pos c + length (cursor_bytes c)"
    by (auto simp: decodePaddingFrame_def cursor_at_def)
qed

lemma decoder_ConnectionId: "decoder (\<lambda>c. ConnectionId_read c n)"
  unfolding ConnectionId_read_def by (intro decoder_intros decoder_throw) simp

lemma decoder_of_type:
  assumes "safe_params params" and "decode_by_type ft c header params \<noteq> None"
  shows "decoder (\<lambda>c. the (decode_by_type ft c header params))"
proof -
  note decoders = decodeAckFrameWithECN_def decodeRstStreamFrame_def decodeStopSendingFrame_def
    decodeCryptoFrame_def decodeNewTokenFrame_def decodeMaxDataFrame_def decodeMaxStreamDataFrame_def
    decodeMaxStreamsFrame_def decodeDataBlockedFrame_def decodeStreamDataBlockedFrame_def
    decodeStreamsBlockedFrame_def decodeNewConnectionIdFrame_def decodeRetireConnectionIdFrame_def
    decodePathChallengeFrame_def decodePathResponseFrame_def decodeConnectionCloseFrame_def
    decodeApplicationClose_def decodeKnobFrame_def decodeAckFrequencyFrame_def
  have "decoder (\<lambda>c. decodeAckFrameWithECN c header params)"
    unfolding decoders by (intro decoder_intros decoder_ack [OF assms(1)])
  moreover have "decoder (\<lambda>c. decodeRstStreamFrame c)" "decoder (\<lambda>c. decodeStopSendingFrame c)"
    "decoder (\<lambda>c. decodeCryptoFrame c)" "decoder (\<lambda>c. decodeNewTokenFrame c)"
    "decoder (\<lambda>c. decodeMaxDataFrame c)" "decoder (\<lambda>c. decodeMaxStreamDataFrame c)"
    "decoder (\<lambda>c. decodeMaxStreamsFrame bidi c)" "decoder (\<lambda>c. decodeDataBlockedFrame c)"
    "decoder (\<lambda>c. decodeStreamDataBlockedFrame c)" "decoder (\<lambda>c. decodeStreamsBlockedFrame bidi c)"
    "decoder (\<lambda>c. decodeNewConnectionIdFrame c)" "decoder (\<lambda>c. decodeRetireConnectionIdFrame c)"
    "decoder (\<lambda>c. decodePathChallengeFrame c)" "decoder (\<lambda>c. decodePathResponseFrame c)"
    "decoder (\<lambda>c. decodeConnectionCloseFrame c)" "decoder (\<lambda>c. decodeApplicationClose c)"
    "decoder (\<lambda>c. decodeKnobFrame c)" "decoder (\<lambda>c. decodeAckFrequencyFrame c)" for bidi
    unfolding decoders by (intro decoder_intros decoder_ConnectionId)+
  ultimately show ?thesis
    using assms(2) decoder_ack [OF assms(1), of header] decoder_ack_timestamps [OF assms(1), of header] decoder_padding
    unfolding decode_by_type_def
    by (simp add: decoder_tag decoder_return split: if_splits)
qed

section \<open>The outcome of parsing a payload\<close>

lemma catch_frame_error_Inl: "catch_frame_error r = Inl e \<Longrightarrow> r \<noteq> Inl undefined_behaviour \<Longrightarrow> e = bad_frame"
  by (auto simp: catch_frame_error_def split: sum.splits exn.splits)

lemma decode_int_error: "decode_int c \<noteq> Inl undefined_behaviour"
  using decoder_int unfolding decoder_def by (auto dest: spec [of _ c])

lemma decode_field_error: "decode_field c \<noteq> Inl undefined_behaviour"
  by (cases rule: decode_cases [of c 8]) (auto simp: decode_field_def bad_frame_def)

lemma trimStart_error: "trimStart q n \<noteq> Inl undefined_behaviour"
  by (simp add: trimStart_def split: prod.split)

lemmas no_undefined = decode_int_error decode_field_error trimStart_error

lemma decodeStreamFrame_error: "decodeStreamFrame q t g \<noteq> Inl undefined_behaviour"
  by (auto simp: decodeStreamFrame_def Let_def case_prod_beta and_then_eq_Inl no_undefined bad_frame_def
      split: option.splits if_splits)

lemma decodeDatagramFrame_error: "decodeDatagramFrame q h \<noteq> Inl undefined_behaviour"
  by (auto simp: decodeDatagramFrame_def Let_def case_prod_beta and_then_eq_Inl no_undefined bad_frame_def
      split: if_splits)

lemma by_type_error:
  assumes "bq_inv q" and "safe_params params" and "decode_by_type ft (cursor_of (bq_chain q)) header params = Some r"
    and "and_then (catch_frame_error r) (\<lambda>(f, c). and_then (trimStart q (cur_pos c)) (\<lambda>q2. Inr (f, q2))) = Inl e"
  shows "e = bad_frame"
proof -
  have r: "case r of Inl e \<Rightarrow> e \<noteq> undefined_behaviour
      | Inr (x, c') \<Rightarrow> cur_pos c' + length (cursor_bytes c') = length (bq_bytes q)"
    using decoder_of_type [OF assms(2), of ft "cursor_of (bq_chain q)" header] assms(3) cursor_of_queue [of q]
    unfolding decoder_def by (auto simp: cursor_at_def dest!: spec [of _ "cursor_of (bq_chain q)"] split: sum.splits prod.splits)
  show ?thesis
  proof (cases r)
    case (Inl e')
    then show ?thesis using r assms(4) catch_frame_error_Inl [of r]
      by (cases "catch_frame_error r") (auto simp: catch_frame_error_Inr)
  next
    case (Inr fc)
    then have "cur_pos (snd fc) \<le> length (bq_bytes q)" using r by (simp add: case_prod_beta)
    then show ?thesis using assms(4) Inr trimStart_Inr [of "cur_pos (snd fc)" q]
      by (simp add: catch_frame_error_def case_prod_beta)
  qed
qed

text \<open>The type of a frame is read exactly when the queue holds all of its bytes.\<close>

lemma frame_type_cut:
  assumes "length (bq_bytes q) < varint_length (bq_bytes q)"
  shows "\<exists>c'. decodeQuicInteger (cursor_of (bq_chain q)) 8 = Inr (None, c')"
  using decode_none [OF cursor_of_queue [of q], of 8] assms by blast

lemma frame_type_read:
  assumes "decodeQuicInteger (cursor_of (bq_chain q)) 8 = Inr (None, c')"
  shows "length (bq_bytes q) < varint_length (bq_bytes q)"
proof (rule ccontr)
  let ?n = "varint_length (bq_bytes q)"
  assume n: "\<not> length (bq_bytes q) < ?n"
  have "?n \<in> {1, 2, 4, 8}" by (auto simp: varint_length_def intro: tag_cases [of "hd (bq_bytes q)"])
  then have "\<not> 8 < (of_nat ?n :: u64)" by auto
  moreover have "bq_bytes q \<noteq> []" using n varint_length_pos [of "bq_bytes q"] by auto
  ultimately show False using decode_some [OF cursor_of_queue [of q], of ?n 8] n assms by auto
qed

lemma parseFrame_error:
  assumes "bq_inv q" and "safe_params params" and "parseFrame q header params = Inl e"
  shows "e = (if length (bq_bytes q) < varint_length (bq_bytes q) then runtime_error else bad_frame)"
proof (cases rule: decode_cases [of "cursor_of (bq_chain q)" 8])
  case (none c')
  then show ?thesis using assms(3) frame_type_read [of q] by (auto simp: parseFrame_def)
next
  case (some v n c')
  then have whole: "\<not> length (bq_bytes q) < varint_length (bq_bytes q)" using frame_type_cut [of q] by auto
  have "cur_pos c' \<le> length (bq_bytes q)" using some cursor_of_queue [of q] by (auto simp: cursor_at_def)
  then obtain q1 where q1: "trimStart q (cur_pos c') = Inr q1" by (auto simp: trimStart_Inr)
  then have inv: "bq_inv q1" using trimStart_shrinks [OF assms(1) q1] by simp
  have "e = bad_frame"
    using assms(3) some(1) q1 by_type_error [OF inv assms(2), of v header _ e]
      decodeStreamFrame_error decodeDatagramFrame_error
    by (auto simp: parseFrame_def and_then_eq_Inl dest!: catch_frame_error_Inl split: if_splits option.splits)
  then show ?thesis using whole by simp
qed

text \<open>The frames that the loop reads one after the other, and the queue it is left with.\<close>

inductive frames_read :: "PacketHeader \<Rightarrow> CodecParameters \<Rightarrow> BufQueue \<Rightarrow> QuicFrame list \<Rightarrow> BufQueue \<Rightarrow> bool"
  for header params where
  none_read: "frames_read header params q [] q"
| frame_read: "parseFrame q header params = Inr (f, q1) \<Longrightarrow> frames_read header params q1 fs q'
    \<Longrightarrow> frames_read header params q (f # fs) q'"

definition collected :: "QuicFrame list \<Rightarrow> QuicFrame list \<Rightarrow> QuicFrame list" where
  "collected frames fs = fold add_frame fs frames"

lemma decode_frames_total:
  assumes "bq_inv q" and "chainLength q \<le> fuel"
  shows "\<exists>r fs q'. decode_frames fuel q header params frames = Some r \<and> frames_read header params q fs q'
    \<and> (case r of
         Inr frames' \<Rightarrow> bq_bytes q' = [] \<and> frames' = collected frames fs
       | Inl e \<Rightarrow> bq_bytes q' \<noteq> [] \<and> (safe_params params \<longrightarrow>
           e = (if length (bq_bytes q') < varint_length (bq_bytes q') then runtime_error else bad_frame)))"
  using assms
proof (induction fuel arbitrary: q frames)
  case 0
  then show ?case
    by (auto simp: decode_frames.simps bq.len_contents collected_def intro!: exI [of _ "[]"] none_read)
next
  case (Suc n)
  show ?case
  proof (cases "chainLength q = 0")
    case True
    then show ?thesis using Suc.prems(1)
      by (auto simp: decode_frames.simps bq.len_contents collected_def intro!: exI [of _ "[]"] none_read)
  next
    case more: False
    then have ne: "bq_bytes q \<noteq> []" using Suc.prems(1) by (simp add: bq.len_contents)
    show ?thesis
    proof (cases "parseFrame q header params")
      case (Inl e)
      then have "decode_frames (Suc n) q header params frames = Some (Inl e)"
        using more by (simp add: decode_frames.simps [of "Suc n"])
      then show ?thesis using parseFrame_error [OF Suc.prems(1) _ Inl] ne none_read [of header params q]
        by (intro exI [of _ "Inl e"] exI [of _ "[]"] exI [of _ q]) simp
    next
      case (Inr fq)
      obtain f q1 where fq: "fq = (f, q1)" by fastforce
      then have "bq_inv q1" "chainLength q1 \<le> n" using parseFrame_shrinks [OF Suc.prems(1), of header params f q1] Inr Suc.prems(2) by auto
      from Suc.IH [OF this, of "add_frame f frames"] obtain r fs q' where
        "decode_frames n q1 header params (add_frame f frames) = Some r" "frames_read header params q1 fs q'"
        "case r of Inr frames' \<Rightarrow> bq_bytes q' = [] \<and> frames' = collected (add_frame f frames) fs
           | Inl e \<Rightarrow> bq_bytes q' \<noteq> [] \<and> (safe_params params \<longrightarrow>
               e = (if length (bq_bytes q') < varint_length (bq_bytes q') then runtime_error else bad_frame))"
        by blast
      then show ?thesis using Inr fq more
        by (intro exI [of _ r] exI [of _ "f # fs"] exI [of _ q'])
          (auto simp: decode_frames.simps [of "Suc n"] collected_def intro: frame_read split: sum.splits)
    qed
  qed
qed

text \<open>The queue of a payload.\<close>

lemma payload_queue: "bq_inv (bq_append bq_empty_queue buf)" "bq_bytes (bq_append bq_empty_queue buf) = concat buf"
  by (auto simp: bq.contents_append intro!: bq.invar_append)
    (simp_all add: bq_empty_queue_def bq_inv_def bq_bytes_def)


text \<open>A padding byte, then an acknowledgement that claims more blocks than the payload has.\<close>

definition demo_header :: PacketHeader where
  "demo_header = PH_Short \<lparr>sh_packetSequenceNum = 7, sh_protectionType = PT_KeyPhaseZero, sh_connectionId = []\<rparr>"

definition demo_params :: CodecParameters where
  "demo_params = \<lparr>peerAckDelayExponent = 3, cp_version = QUIC_V1, maybeAckReceiveTimestampsConfig =
     Some \<lparr>maxReceiveTimestampsPerAck = 25, receiveTimestampsExponent = 0x103\<rparr>\<rparr>"


lemma overflow_mask: "(x :: u64) AND push_bit n u64_max = 0 \<longleftrightarrow> unat x < 2 ^ n"
proof -
  have "u64_max = (- 1 :: u64)" by simp
  then have "x AND push_bit n u64_max = x AND NOT (mask n)"
    by (simp only: push_bit_minus_one_eq_not_mask)
  moreover have "x AND NOT (mask n) = 0 \<longleftrightarrow> take_bit n x = x"
    by (auto simp: bit_eq_iff bit_simps)
  moreover have "take_bit n x = x \<longleftrightarrow> unat x < 2 ^ n"
    by (metis take_bit_nat_eq_self_iff unsigned_take_bit_eq word_unat_eq_iff)
  ultimately show ?thesis by simp
qed

lemma exponent_cases:
  obtains (zero) "unat (expo :: u8) = 0" "unat (64 - expo) = 64"
  | (safe) "0 < unat expo" "unat expo < 64" "unat (64 - expo) = 64 - unat expo"
  | (full) "unat expo = 64" "unat (64 - expo) = 0"
  | (above) "64 < unat expo" "64 < unat (64 - expo)"
proof -
  have "unat (64 - expo) = (if unat expo \<le> 64 then 64 - unat expo else 64 + 256 - unat expo)"
    by (simp add: unat_sub_if')
  moreover have "unat expo < 256" using unsigned_less [of expo, where ?'a = nat] by simp
  moreover have "unat expo = 0 \<or> 0 < unat expo \<and> unat expo < 64 \<or> unat expo = 64 \<or> 64 < unat expo" by linarith
  ultimately show thesis using that by (elim disjE conjE) simp_all
qed

lemma convert_safe:
  fixes expo :: u8 and delay :: u64
  defines "k \<equiv> unat expo"
  assumes k: "0 < k" "k < 64" and sub: "unat (64 - expo) = 64 - k"
  shows "convertEncodedDurationToMicroseconds expo delay =
     (if unat delay * 2 ^ k < 2 ^ 63 then Inr (delay * 2 ^ k) else Inl bad_frame)"
proof -
  have pow: "2 ^ 64 = 2 ^ (64 - k) * (2 :: nat) ^ k" using k by (simp flip: power_add)
  have mask: "delay AND push_bit (64 - k) u64_max = 0 \<longleftrightarrow> unat delay * 2 ^ k < 2 ^ 64"
    unfolding pow by (simp only: overflow_mask) simp
  have val: "unat (push_bit k delay) = unat delay * 2 ^ k" if "unat delay * 2 ^ k < 2 ^ 64"
  proof -
    have "unat (push_bit k delay) = take_bit 64 (push_bit k (unat delay))" by (simp add: unsigned_push_bit_eq)
    also have "\<dots> = take_bit 64 (unat delay * 2 ^ k)" by (simp only: push_bit_eq_mult)
    finally show ?thesis using that by (simp only: take_bit_nat_eq_self)
  qed
  have conv: "convertEncodedDurationToMicroseconds expo delay =
      (if \<not> unat delay * 2 ^ k < 2 ^ 64 then Inl bad_frame
       else if push_bit k delay > 0x7FFFFFFFFFFFFFFF then Inl bad_frame else Inr (push_bit k delay))"
  proof -
    have "\<not> unat (64 - expo) \<ge> 64" "\<not> k \<ge> 64" using k sub by linarith+
    then show ?thesis
      by (simp only: convertEncodedDurationToMicroseconds_def Let_def k_def [symmetric] mask [symmetric] sub if_False)
  qed
  show ?thesis
  proof (cases "unat delay * 2 ^ k < 2 ^ 64")
    case fits: True
    have "push_bit k delay > 0x7FFFFFFFFFFFFFFF \<longleftrightarrow> \<not> unat delay * 2 ^ k < 2 ^ 63"
      using val [OF fits] by (simp only: word_less_nat_alt) auto
    then show ?thesis using fits conv by (simp add: push_bit_eq_mult)
  next
    case False
    then show ?thesis using conv by simp
  qed
qed

text \<open>C32: Converting an encoded duration. Every exponent from 1 to 63 is converted without an
  undefined operation, to the delay times the power of two when that fits 63 bits, and to the
  frame encoding error when it does not. With the exponent 0 that a peer may advertise for its
  acknowledgement delays the overflow check shifts a 64-bit mask by 64, which is undefined, as
  it is for every exponent above 64. At exponent 64 the check rejects every delay but 0, and the
  delay 0 is then shifted by 64.\<close>

theorem convertEncodedDuration_defined:
  "convertEncodedDurationToMicroseconds expo delay =
     (if expo = 0 \<or> expo > 64 \<or> expo = 64 \<and> delay = 0 then Inl undefined_behaviour
      else if unat delay * 2 ^ unat expo < 2 ^ 63 then Inr (delay * 2 ^ unat expo)
      else Inl (QuicTransportException FRAME_ENCODING_ERROR))"
proof (cases rule: exponent_cases [of expo])
  case zero
  then show ?thesis by (simp add: convertEncodedDurationToMicroseconds_def unat_eq_0)
next
  case above
  then show ?thesis by (simp add: convertEncodedDurationToMicroseconds_def word_less_nat_alt)
next
  case full
  then have e: "expo = 64" by (simp add: word_unat_eq_iff)
  have "delay AND u64_max = 0 \<longleftrightarrow> delay = 0" using overflow_mask [of delay 0] by (simp add: unat_eq_0)
  then show ?thesis unfolding e
    by (simp add: convertEncodedDurationToMicroseconds_def bad_frame_def unat_eq_0)
next
  case safe
  have "expo \<noteq> 0" "\<not> expo > 64" "expo \<noteq> 64" using safe by (auto simp: word_less_nat_alt)
  then show ?thesis using convert_safe [OF safe] by (simp add: bad_frame_def)
qed

section \<open>A packet of control frames\<close>

text \<open>The frames of the list written one after the other, each of them in full.\<close>

fun write_frames :: "QuicWriteFrame list \<Rightarrow> RegularQuicPacketBuilder \<Rightarrow> RegularQuicPacketBuilder option" where
  "write_frames [] b = Some b"
| "write_frames (f # fs) b =
     (case writeFrame f b of
        Inl e \<Rightarrow> None
      | Inr (n, b1) \<Rightarrow> if n = 0 then None else write_frames fs b1)"

lemma sent_not_padding: "sent_frame frame = Some f \<Longrightarrow> f \<noteq> QF_Padding p"
  by (cases frame rule: sent_frame.cases) auto

lemma add_frame_other: "(\<And>p. f \<noteq> QF_Padding p) \<Longrightarrow> add_frame f fs = fs @ [f]"
  by (auto simp: add_frame_def split: QuicFrame.split)

lemma unat_of_nat_le: "n \<le> unat (w :: 'a::len word) \<Longrightarrow> unat (of_nat n :: 'a word) = n"
  using le_less_trans [OF _ unsigned_less [of w, where ?'a = nat], of n]
  by (simp add: unsigned_of_nat take_bit_nat_eq_self)

lemma write_frames_decode:
  assumes "pb_inv b" and "write_frames frames b = Some b'"
    and "list_all (\<lambda>f. sent_frame f \<noteq> None \<and> wire_ok f) frames"
  shows "\<exists>bs. writes b b' bs \<and> length bs \<le> unat (remainingBytes b)
    \<and> (\<forall>q fuel acc. bq_inv q \<and> bq_bytes q = bs \<and> length bs \<le> fuel \<longrightarrow>
        decode_frames fuel q header params acc = Some (Inr (acc @ map (the \<circ> sent_frame) frames)))"
  using assms
proof (induction frames arbitrary: b)
  case Nil
  then show ?case
    by (intro exI [of _ "[]"]) (auto simp: writes_refl decode_frames.simps bq.len_contents)
next
  case (Cons frame frames)
  obtain n b1 where w: "writeFrame frame b = Inr (n, b1)" "n \<noteq> 0" "write_frames frames b1 = Some b'"
    using Cons.prems(2) by (auto split: sum.splits if_splits)
  obtain f where f: "sent_frame frame = Some f" "wire_ok frame" using Cons.prems(3) by auto
  obtain bs where bs: "writes b b1 bs" "length bs = n" "n \<le> unat (remainingBytes b)" "parses bs header params f"
    using frame_roundtrip [OF Cons.prems(1) w(1,2) f] by blast
  obtain bs' where bs': "writes b1 b' bs'" "length bs' \<le> unat (remainingBytes b1)"
    and dec: "\<And>q fuel acc. bq_inv q \<Longrightarrow> bq_bytes q = bs' \<Longrightarrow> length bs' \<le> fuel \<Longrightarrow>
        decode_frames fuel q header params acc = Some (Inr (acc @ map (the \<circ> sent_frame) frames))"
    using Cons.IH [OF writes_inv [OF bs(1)] w(3)] Cons.prems(3) by auto
  have "decode_frames fuel q header params acc = Some (Inr (acc @ map (the \<circ> sent_frame) (frame # frames)))"
    if q: "bq_inv q" "bq_bytes q = bs @ bs'" "length (bs @ bs') \<le> fuel" for q fuel acc
  proof -
    obtain k where k: "fuel = Suc k" "length bs' \<le> k" using q(3) w(2) bs(2) by (cases fuel) auto
    obtain q' where "parseFrame q header params = Inr (f, q')" "bq_inv q'" "bq_bytes q' = bs'"
      using bs(4) q(1,2) unfolding parses_def by blast
    moreover have "chainLength q \<noteq> 0" using q(1,2) w(2) bs(2) by (auto simp: bq.len_contents)
    ultimately show ?thesis using dec [of q' k "acc @ [f]"] k f sent_not_padding [OF f(1)]
      by (simp add: decode_frames.simps [of "Suc k"] add_frame_other)
  qed
  moreover have "unat (remainingBytes b1) = unat (remainingBytes b) - n"
    using bs(1-3) unat_sub [of "of_nat n" "remainingBytes b"] unat_of_nat_le [of n "remainingBytes b"]
    by (simp add: writes_def word_le_nat_alt)
  ultimately show ?case using writes_trans [OF bs(1) bs'(1)] bs(2,3) bs'(2) by (intro exI [of _ "bs @ bs'"]) auto
qed

text \<open>C11: A packet of control frames. However many frames are written into a fresh builder, as
  long as each fits and is within the limits of the parser, the body that the builder holds
  parses, cut into buffers in whatever way, to exactly those frames in the order in which they
  were written; the body has not outgrown the space of the packet. The frames are those without
  stream, crypto, datagram or acknowledgement data, padding, knobs and new tokens apart. The
  limits are \<open>wire_ok\<close>: the reason of a connection close frame has at most 1024 bytes; a
  transport close has a frame type of at most 0x3f, since the parser refuses a frame type of two
  bytes, and an error code that is a named one where its number has a name; an application close
  has the frame type of padding, since none is sent; a limit of streams is at most
  \<open>kMaxMaxStreams\<close>; and a new connection identifier has at most \<open>kMaxConnectionIdSize\<close> bytes
  and a token of 16 bytes.\<close>

theorem control_packet_roundtrip:
  assumes "write_frames frames (RegularQuicPacketBuilder_make space h largestAcked) = Some b"
    and "list_all (\<lambda>f. sent_frame f \<noteq> None \<and> wire_ok f) frames"
    and "concat packetData = ba_bytes (bodyAppender b)"
  shows "decodeRegularPacket header params packetData
      = Some (Inr \<lparr>rp_header = header, rp_frames = map (the \<circ> sent_frame) frames\<rparr>)
    \<and> length (concat packetData) \<le> unat space"
proof -
  let ?b = "RegularQuicPacketBuilder_make space h largestAcked"
  have inv: "pb_inv ?b" "ba_bytes (bodyAppender ?b) = []" "remainingBytes ?b = space" by (simp_all add: RegularQuicPacketBuilder_make_def)
  obtain bs where bs: "writes ?b b bs" "length bs \<le> unat (remainingBytes ?b)" and dec: "\<And>q fuel acc. bq_inv q \<Longrightarrow> bq_bytes q = bs \<Longrightarrow> length bs \<le> fuel \<Longrightarrow>
        decode_frames fuel q header params acc = Some (Inr (acc @ map (the \<circ> sent_frame) frames))"
    using write_frames_decode [OF inv(1) assms(1,2)] by blast
  have "ba_bytes (bodyAppender b) = bs" using bs(1) inv(2) by (simp add: writes_def)
  then show ?thesis
    using dec [OF payload_queue(1), of packetData] assms(3) payload_queue [of packetData] bs(2) inv(3)
    by (simp add: decodeRegularPacket_def Let_def bq.len_contents)
qed

definition demo_frames :: "QuicWriteFrame list" where
  "demo_frames = [WF_MaxData (MaxDataFrame 1000), WF_Simple (SF_StopSending (StopSendingFrame 4 7)), WF_Ping PingFrame]"

lemma write_ints_frame_ok:
  assumes "pb_inv b" and "list_all encodable ints" and "length (ints_bytes ints) \<le> unat (remainingBytes b)"
  shows "\<exists>b'. write_ints_frame ints frame b = Inr (length (ints_bytes ints), b') \<and> writes b b' (ints_bytes ints)"
proof -
  have m: "ints_size ints = Inr (length (ints_bytes ints))" using assms(2) by (simp only: ints_size_iff)
  obtain b1 where "pb_writes ints b = Inr b1" "writes b b1 (ints_bytes ints)"
    using pb_writes_correct [OF assms(1) m] by blast
  then show ?thesis using m assms(3)
    by (simp add: write_ints_frame_def packetSpaceCheck_def unat_spaceLeftIn)
qed

lemma demo_frames_written:
  "\<exists>b. write_frames demo_frames (RegularQuicPacketBuilder_make 1200 demo_header 0) = Some b
     \<and> ba_bytes (bodyAppender b) = [0x10, 0x43, 0xe8, 5, 4, 7, 1]"
proof -
  let ?b0 = "RegularQuicPacketBuilder_make 1200 demo_header 0"
  have b0: "pb_inv ?b0" "ba_bytes (bodyAppender ?b0) = []" "remainingBytes ?b0 = 1200"
    by (simp_all add: RegularQuicPacketBuilder_make_def)
  have bytes: "ints_bytes [MAX_DATA, 1000] = [0x10, 0x43, 0xe8]" "ints_bytes [STOP_SENDING, 4, 7] = [5, 4, 7]"
    "ints_bytes [PING] = [1]"
    by (simp_all add: encodeQuicInteger_def encodeOneByte_def encodeTwoBytes_def store_be_numeral)
  obtain b1 where b1: "write_ints_frame [MAX_DATA, 1000] (WF_MaxData (MaxDataFrame 1000)) ?b0 = Inr (3, b1)"
    "writes ?b0 b1 [0x10, 0x43, 0xe8]"
    using write_ints_frame_ok [OF b0(1), of "[MAX_DATA, 1000]" "WF_MaxData (MaxDataFrame 1000)"] b0(3)
    unfolding bytes by (auto simp: encodable_def numeral_3_eq_3)
  then have r1: "remainingBytes b1 = 1197" using b0(3) by (simp add: writes_def)
  obtain b2 where b2: "write_ints_frame [STOP_SENDING, 4, 7] (WF_Simple (SF_StopSending (StopSendingFrame 4 7))) b1 = Inr (3, b2)"
    "writes b1 b2 [5, 4, 7]"
    using write_ints_frame_ok [OF writes_inv [OF b1(2)], of "[STOP_SENDING, 4, 7]"
        "WF_Simple (SF_StopSending (StopSendingFrame 4 7))"] r1
    unfolding bytes by (auto simp: encodable_def numeral_3_eq_3)
  then have r2: "remainingBytes b2 = 1194" using r1 by (simp add: writes_def)
  obtain b3 where b3: "write_ints_frame [PING] (WF_Ping PingFrame) b2 = Inr (1, b3)" "writes b2 b3 [1]"
    using write_ints_frame_ok [OF writes_inv [OF b2(2)], of "[PING]" "WF_Ping PingFrame"] r2
    unfolding bytes by (auto simp: encodable_def)
  have "write_frames demo_frames ?b0 = Some b3"
    using b1(1) b2(1) b3(1) by (simp add: demo_frames_def writeFrame_def writeSimpleFrame_def)
  moreover have "ba_bytes (bodyAppender b3) = [0x10, 0x43, 0xe8, 5, 4, 7, 1]"
    using b1(2) b2(2) b3(2) b0(2) by (simp add: writes_def)
  ultimately show ?thesis by blast
qed

theorem control_packet_roundtrip_witness:
  "decodeRegularPacket demo_header demo_params [[0x10, 0x43], [0xe8, 5, 4], [], [7, 1]]
     = Some (Inr \<lparr>rp_header = demo_header, rp_frames =
         [QF_MaxData (MaxDataFrame 1000), QF_Simple (SF_StopSending (StopSendingFrame 4 7)), QF_Ping PingFrame]\<rparr>)"
proof -
  obtain b where b: "write_frames demo_frames (RegularQuicPacketBuilder_make 1200 demo_header 0) = Some b"
    "ba_bytes (bodyAppender b) = [0x10, 0x43, 0xe8, 5, 4, 7, 1]"
    using demo_frames_written by blast
  show ?thesis
    using control_packet_roundtrip [OF b(1), of "[[0x10, 0x43], [0xe8, 5, 4], [], [7, 1]]" demo_header demo_params] b(2)
    by (simp add: demo_frames_def)
qed

end
