(* ===== verification/Stream_Utilities.thy ===== *)
theory Stream_Utilities
  imports Quic_Types
begin

text \<open>
  The classification of streams by the two low bits of their identifier,
  \<^verbatim>\<open>state/quic_stream_utilities.cpp\<close>, and the arithmetic of identifiers that move in
  steps of four.
\<close>

section \<open>Classification\<close>

definition isServerStream :: "StreamId \<Rightarrow> bool" where
  "isServerStream stream \<longleftrightarrow> stream AND 0b01 \<noteq> 0"

definition isClientStream :: "StreamId \<Rightarrow> bool" where
  "isClientStream stream \<longleftrightarrow> stream AND 0b01 = 0"

definition isClientStreamGroup :: "StreamGroupId \<Rightarrow> bool" where
  "isClientStreamGroup gid \<longleftrightarrow> gid AND 0b01 = 0"

definition isServerStreamGroup :: "StreamGroupId \<Rightarrow> bool" where
  "isServerStreamGroup gid \<longleftrightarrow> gid AND 0b01 \<noteq> 0"

definition isUnidirectionalStream :: "StreamId \<Rightarrow> bool" where
  "isUnidirectionalStream stream \<longleftrightarrow> stream AND 0b10 \<noteq> 0"

definition isBidirectionalStream :: "StreamId \<Rightarrow> bool" where
  "isBidirectionalStream stream \<longleftrightarrow> \<not> isUnidirectionalStream stream"

definition isClientBidirectionalStream :: "StreamId \<Rightarrow> bool" where
  "isClientBidirectionalStream streamId \<longleftrightarrow> isClientStream streamId \<and> isBidirectionalStream streamId"

definition isServerUnidirectionalStream :: "StreamId \<Rightarrow> bool" where
  "isServerUnidirectionalStream streamId \<longleftrightarrow> isServerStream streamId \<and> isUnidirectionalStream streamId"

datatype StreamDirectionality = Unidirectional | Bidirectional

definition getStreamDirectionality :: "StreamId \<Rightarrow> StreamDirectionality" where
  "getStreamDirectionality stream = (if isUnidirectionalStream stream then Unidirectional else Bidirectional)"

definition isSendingStream :: "QuicNodeType \<Rightarrow> StreamId \<Rightarrow> bool" where
  "isSendingStream nodeType stream \<longleftrightarrow> isUnidirectionalStream stream \<and>
     ((nodeType = Client \<and> isClientStream stream) \<or> (nodeType = Server \<and> isServerStream stream))"

definition isReceivingStream :: "QuicNodeType \<Rightarrow> StreamId \<Rightarrow> bool" where
  "isReceivingStream nodeType stream \<longleftrightarrow> isUnidirectionalStream stream \<and>
     ((nodeType = Client \<and> isServerStream stream) \<or> (nodeType = Server \<and> isClientStream stream))"

definition isLocalStream :: "QuicNodeType \<Rightarrow> StreamId \<Rightarrow> bool" where
  "isLocalStream nodeType stream \<longleftrightarrow>
     (nodeType = Client \<and> isClientStream stream) \<or> (nodeType = Server \<and> isServerStream stream)"

definition isRemoteStream :: "QuicNodeType \<Rightarrow> StreamId \<Rightarrow> bool" where
  "isRemoteStream nodeType stream \<longleftrightarrow>
     (nodeType = Client \<and> isServerStream stream) \<or> (nodeType = Server \<and> isClientStream stream)"

datatype StreamInitiator = Local | Remote

definition getStreamInitiator :: "QuicNodeType \<Rightarrow> StreamId \<Rightarrow> StreamInitiator" where
  "getStreamInitiator nodeType stream = (if isLocalStream nodeType stream then Local else Remote)"

section \<open>The four kinds of streams\<close>

text \<open>The kind of a stream is its number modulo four.\<close>

definition stream_class :: "StreamId \<Rightarrow> nat" where
  "stream_class s = unat s mod 4"

lemma and_one_zero: "((w :: u64) AND 1 = 0) \<longleftrightarrow> unat w mod 4 \<in> {0, 2}"
proof -
  have "(w AND 1 = 0) \<longleftrightarrow> even (unat w)"
    using and_exp_eq_0_iff_not_bit [of w 0] bit_unsigned_iff [of w 0, where 'a = nat] by (simp add: bit_0)
  also have "\<dots> \<longleftrightarrow> unat w mod 4 = 0 \<or> unat w mod 4 = 2" by presburger
  finally show ?thesis by simp
qed

lemma and_two_zero: "((w :: u64) AND 2 = 0) \<longleftrightarrow> unat w mod 4 \<in> {0, 1}"
proof -
  have "(w AND 2 = 0) \<longleftrightarrow> \<not> bit (unat w) 1"
    using and_exp_eq_0_iff_not_bit [of w 1] by (simp add: bit_unsigned_iff)
  also have "\<dots> \<longleftrightarrow> even (unat w div 2)" by (simp add: bit_iff_odd)
  also have "\<dots> \<longleftrightarrow> unat w mod 4 = 0 \<or> unat w mod 4 = 1" by presburger
  finally show ?thesis by simp
qed

lemma class_cases: "stream_class s \<in> {0, 1, 2, 3}"
proof -
  have "stream_class s < 4" by (simp add: stream_class_def)
  then show ?thesis by auto
qed

lemmas stream_bits =
  isClientStream_def isServerStream_def isUnidirectionalStream_def isBidirectionalStream_def
  isLocalStream_def isRemoteStream_def isSendingStream_def isReceivingStream_def
  and_one_zero and_two_zero

lemma local_or_remote: "isLocalStream n s \<longleftrightarrow> \<not> isRemoteStream n s"
  by (cases n) (simp_all add: isLocalStream_def isRemoteStream_def isClientStream_def isServerStream_def)

text \<open>A stream is sending or receiving only if it is unidirectional, and never both.\<close>

lemma directions:
  "isSendingStream n s \<longleftrightarrow> isUnidirectionalStream s \<and> isLocalStream n s"
  "isReceivingStream n s \<longleftrightarrow> isUnidirectionalStream s \<and> isRemoteStream n s"
  by (simp_all add: isSendingStream_def isReceivingStream_def isLocalStream_def isRemoteStream_def)

text \<open>Two streams of one class agree in every predicate above.\<close>

lemma class_determines:
  assumes "stream_class s = stream_class t"
  shows "isUnidirectionalStream s = isUnidirectionalStream t"
    and "isClientStream s = isClientStream t"
    and "isLocalStream n s = isLocalStream n t"
    and "isRemoteStream n s = isRemoteStream n t"
  using assms by (simp_all add: stream_bits stream_class_def)

end
