(* ===== verification/Conn_State.thy ===== *)
theory Conn_State
  imports Stream_Utilities Stream_Data Headers
begin

text \<open>
  The state of a connection, \<^verbatim>\<open>state/state_data.{h,cpp}\<close>, with the parts it owns: the
  settings (\<^verbatim>\<open>state/transport_setting.h\<close>), the loss state (\<^verbatim>\<open>state/loss_state.h\<close>), the
  acknowledgement states (\<^verbatim>\<open>state/ack_states.h\<close>), the outstanding packets
  (\<^verbatim>\<open>state/outstanding_packet.h\<close>) and the members of the stream manager
  (\<^verbatim>\<open>state/quic_stream_manager.h\<close>). A record has the members that the modelled operations
  read or write. An owned pointer is an option; a hash map is a partial function and a hash
  set a set of identifiers. The stream manager keeps a pointer to the settings of its
  connection, so its operations read them from the connection.
\<close>

section \<open>Settings\<close>

record TransportSettings =
  advertisedInitialConnectionWindowSize :: u64
  advertisedInitialBidiLocalStreamWindowSize :: u64
  advertisedInitialBidiRemoteStreamWindowSize :: u64
  advertisedInitialUniStreamWindowSize :: u64
  advertisedInitialMaxStreamsBidi :: u64
  advertisedInitialMaxStreamsUni :: u64
  maxNumPTOs :: u16
  flowControlRttFrequency :: u16
  flowControlWindowFrequency :: u16
  rxPacketsBeforeAckInitThreshold :: u64
  rxPacketsBeforeAckBeforeInit :: u16
  rxPacketsBeforeAckAfterInit :: u16
  initialRtt :: int
  timeReorderingThreshDividend :: int
  timeReorderingThreshDivisor :: int
  earlyRetransmit0Rtt :: bool
  autotuneReceiveConnFlowControl :: bool
  notifyOnNewStreamsExplicitly :: bool
  advertisedMaxStreamGroups :: u64
  defaultPriority :: Priority
  priorityQueueWritesPerStream :: u64

definition TransportSettings_init :: TransportSettings where
  "TransportSettings_init =
     \<lparr>advertisedInitialConnectionWindowSize = 1024 * 1024,
      advertisedInitialBidiLocalStreamWindowSize = (64 + 1) * 1024,
      advertisedInitialBidiRemoteStreamWindowSize = (64 + 1) * 1024,
      advertisedInitialUniStreamWindowSize = (64 + 1) * 1024,
      advertisedInitialMaxStreamsBidi = 2048, advertisedInitialMaxStreamsUni = 2048,
      maxNumPTOs = 7, flowControlRttFrequency = 2, flowControlWindowFrequency = 2,
      rxPacketsBeforeAckInitThreshold = 100, rxPacketsBeforeAckBeforeInit = 10,
      rxPacketsBeforeAckAfterInit = 10, initialRtt = 50000, timeReorderingThreshDividend = 5,
      timeReorderingThreshDivisor = 4, earlyRetransmit0Rtt = False,
      autotuneReceiveConnFlowControl = False, notifyOnNewStreamsExplicitly = False,
      advertisedMaxStreamGroups = 0, defaultPriority = kDefaultPriority,
      priorityQueueWritesPerStream = 1\<rparr>"

section \<open>Flow control and pending events\<close>

record ConnectionFlowControlState =
  cfc_windowSize :: u64
  cfc_advertisedMaxOffset :: u64
  cfc_peerAdvertisedMaxOffset :: u64
  cfc_sumCurReadOffset :: u64
  cfc_sumMaxObservedOffset :: u64
  cfc_sumCurWriteOffset :: u64
  cfc_sumCurStreamBufferLen :: u64
  cfc_largestMaxOffsetReceived :: "PacketNum option"
  cfc_peerAdvertisedInitialMaxStreamOffsetBidiLocal :: u64
  cfc_peerAdvertisedInitialMaxStreamOffsetBidiRemote :: u64
  cfc_peerAdvertisedInitialMaxStreamOffsetUni :: u64
  cfc_timeOfLastFlowControlUpdate :: "TimePoint option"

definition ConnectionFlowControlState_init :: ConnectionFlowControlState where
  "ConnectionFlowControlState_init =
     \<lparr>cfc_windowSize = 0, cfc_advertisedMaxOffset = 0, cfc_peerAdvertisedMaxOffset = 0,
      cfc_sumCurReadOffset = 0, cfc_sumMaxObservedOffset = 0, cfc_sumCurWriteOffset = 0,
      cfc_sumCurStreamBufferLen = 0, cfc_largestMaxOffsetReceived = None,
      cfc_peerAdvertisedInitialMaxStreamOffsetBidiLocal = 0,
      cfc_peerAdvertisedInitialMaxStreamOffsetBidiRemote = 0,
      cfc_peerAdvertisedInitialMaxStreamOffsetUni = 0, cfc_timeOfLastFlowControlUpdate = None\<rparr>"

record PendingEvents =
  pe_resets :: "StreamId \<rightharpoonup> RstStreamFrame"
  pe_pathChallenge :: "PathChallengeFrame option"
  pe_frames :: "QuicSimpleFrame list"
  pe_knobs :: "KnobFrame list"
  pe_numProbePackets :: "PacketNumberSpace \<Rightarrow> u8"
  pe_schedulePathValidationTimeout :: bool
  pe_scheduleAckTimeout :: bool
  pe_connWindowUpdate :: bool
  pe_setLossDetectionAlarm :: bool
  pe_closeTransport :: bool
  pe_sendDataBlocked :: bool

definition PendingEvents_init :: PendingEvents where
  "PendingEvents_init =
     \<lparr>pe_resets = Map.empty, pe_pathChallenge = None, pe_frames = [], pe_knobs = [],
      pe_numProbePackets = (\<lambda>_. 0), pe_schedulePathValidationTimeout = False,
      pe_scheduleAckTimeout = False, pe_connWindowUpdate = False, pe_setLossDetectionAlarm = False,
      pe_closeTransport = False, pe_sendDataBlocked = False\<rparr>"

section \<open>Loss and acknowledgement state\<close>

datatype AlarmMethod = EarlyRetransmitOrReordering | PTO

record LossState =
  ls_lossTimes :: "PacketNumberSpace \<Rightarrow> TimePoint option"
  ls_maxAckDelay :: int
  ls_mrtt :: int
  ls_maybeMrttNoAckDelay :: "int option"
  ls_maybeLrtt :: "int option"
  ls_maybeLrttAckDelay :: "int option"
  ls_srtt :: int
  ls_lrtt :: int
  ls_rttvar :: int
  ls_lastRetransmittablePacketSentTime :: TimePoint
  ls_totalBytesRetransmitted :: u64
  ls_totalStreamBytesCloned :: u64
  ls_totalPacketsMarkedLost :: u32
  ls_totalPacketsMarkedLostByTimeout :: u32
  ls_totalPacketsMarkedLostByReorderingThreshold :: u32
  ls_reorderingThreshold :: u32
  ls_ptoCount :: u32
  ls_rtxCount :: u32
  ls_totalPTOCount :: u32
  ls_currentAlarmMethod :: AlarmMethod
  ls_attemptedEarlyRetransmit0Rtt :: bool

text \<open>\<^verbatim>\<open>kDefaultMinRtt\<close> is the largest number of microseconds.\<close>

abbreviation (input) kDefaultMinRtt :: int where
  "kDefaultMinRtt \<equiv> 2 ^ 63 - 1"

definition LossState_init :: LossState where
  "LossState_init =
     \<lparr>ls_lossTimes = (\<lambda>_. None), ls_maxAckDelay = 0, ls_mrtt = kDefaultMinRtt,
      ls_maybeMrttNoAckDelay = None, ls_maybeLrtt = None, ls_maybeLrttAckDelay = None,
      ls_srtt = 0, ls_lrtt = 0, ls_rttvar = 0, ls_lastRetransmittablePacketSentTime = 0,
      ls_totalBytesRetransmitted = 0, ls_totalStreamBytesCloned = 0,
      ls_totalPacketsMarkedLost = 0, ls_totalPacketsMarkedLostByTimeout = 0,
      ls_totalPacketsMarkedLostByReorderingThreshold = 0, ls_reorderingThreshold = 3,
      ls_ptoCount = 0, ls_rtxCount = 0, ls_totalPTOCount = 0,
      ls_currentAlarmMethod = EarlyRetransmitOrReordering,
      ls_attemptedEarlyRetransmit0Rtt = False\<rparr>"

record RecvdPacketInfo =
  rpi_pktNum :: PacketNum
  rpi_timeStamp :: TimePoint

record AckState =
  as_acks :: IntervalSet
  as_lastRecvdPacketInfo :: "RecvdPacketInfo option"
  as_recvdPacketInfos :: "RecvdPacketInfo list"
  as_largestAckScheduled :: "PacketNum option"
  as_numNonRxPacketsRecvd :: u64
  as_largestRecvdPacketTime :: "TimePoint option"
  as_largestRecvdPacketNum :: "PacketNum option"
  as_largestAckedByPeer :: "PacketNum option"
  as_largestReceivedAtLastCloseSent :: "PacketNum option"
  as_nextPacketNum :: PacketNum
  as_nonDsrPacketSequenceNumber :: u64
  as_reorderThreshold :: u64
  as_tolerance :: "u64 option"
  as_ackFrequencySequenceNumber :: "u64 option"
  as_needsToSendAckImmediately :: bool
  as_numRxPacketsRecvd :: u8
  as_latestRecvdPacketTime :: "TimePoint option"
  as_latestReceivedPacketNum :: "PacketNum option"

definition AckState_init :: "PacketNum \<Rightarrow> AckState" where
  "AckState_init startingNum =
     \<lparr>as_acks = IntervalSet_empty, as_lastRecvdPacketInfo = None, as_recvdPacketInfos = [],
      as_largestAckScheduled = None, as_numNonRxPacketsRecvd = 0, as_largestRecvdPacketTime = None,
      as_largestRecvdPacketNum = None, as_largestAckedByPeer = None,
      as_largestReceivedAtLastCloseSent = None, as_nextPacketNum = startingNum,
      as_nonDsrPacketSequenceNumber = 0, as_reorderThreshold = 0, as_tolerance = None,
      as_ackFrequencySequenceNumber = None, as_needsToSendAckImmediately = False,
      as_numRxPacketsRecvd = 0, as_latestRecvdPacketTime = None, as_latestReceivedPacketNum = None\<rparr>"

record AckStates =
  initialAckState :: "AckState option"
  handshakeAckState :: "AckState option"
  appDataAckState :: AckState
  ackStates_maxAckDelay :: int

definition AckStates_make :: "PacketNum \<Rightarrow> AckStates" where
  "AckStates_make startingNum =
     \<lparr>initialAckState = Some (AckState_init startingNum),
      handshakeAckState = Some (AckState_init startingNum),
      appDataAckState = AckState_init startingNum, ackStates_maxAckDelay = 25000\<rparr>"

section \<open>Outstanding packets\<close>

type_synonym PacketEvent = "PacketNumberSpace \<times> PacketNum"

record OutstandingPacket =
  op_packet :: RegularQuicWritePacket
  op_time :: TimePoint
  op_encodedSize :: u32
  op_lossTimeoutDividend :: "int option"
  op_lossReorderDistance :: "u32 option"
  op_associatedEvent :: "PacketEvent option"
  op_isDSRPacket :: bool
  op_nonDsrPacketSequenceNumber :: "u64 option"
  op_declaredLost :: bool

record OutstandingsInfo =
  os_packets :: "OutstandingPacket list"
  os_packetEvents :: "PacketEvent set"
  os_packetCount :: "PacketNumberSpace \<Rightarrow> u64"
  os_clonedPacketCount :: "PacketNumberSpace \<Rightarrow> u64"
  os_declaredLostCount :: u64
  os_dsrCount :: u64

definition OutstandingsInfo_reset :: OutstandingsInfo where
  "OutstandingsInfo_reset =
     \<lparr>os_packets = [], os_packetEvents = {}, os_packetCount = (\<lambda>_. 0),
      os_clonedPacketCount = (\<lambda>_. 0), os_declaredLostCount = 0, os_dsrCount = 0\<rparr>"

definition numOutstanding :: "OutstandingsInfo \<Rightarrow> u64" where
  "numOutstanding os = of_nat (length (os_packets os)) - os_declaredLostCount os"

definition numClonedPackets :: "OutstandingsInfo \<Rightarrow> u64" where
  "numClonedPackets os = os_clonedPacketCount os Initial_Space
     + os_clonedPacketCount os Handshake_Space + os_clonedPacketCount os AppData_Space"

section \<open>The members of the stream manager\<close>

record QuicStreamManager =
  sm_nodeType :: QuicNodeType
  sm_nextAcceptablePeerBidirectionalStreamId :: StreamId
  sm_nextAcceptablePeerUnidirectionalStreamId :: StreamId
  sm_nextAcceptableLocalBidirectionalStreamId :: StreamId
  sm_nextAcceptableLocalUnidirectionalStreamId :: StreamId
  sm_nextBidirectionalStreamId :: StreamId
  sm_nextBidirectionalStreamGroupId :: StreamGroupId
  sm_nextUnidirectionalStreamId :: StreamId
  sm_nextUnidirectionalStreamGroupId :: StreamGroupId
  sm_maxLocalBidirectionalStreamId :: StreamId
  sm_maxLocalUnidirectionalStreamId :: StreamId
  sm_maxRemoteBidirectionalStreamId :: StreamId
  sm_maxRemoteUnidirectionalStreamId :: StreamId
  sm_initialLocalBidirectionalStreamId :: StreamId
  sm_initialLocalUnidirectionalStreamId :: StreamId
  sm_initialRemoteBidirectionalStreamId :: StreamId
  sm_initialRemoteUnidirectionalStreamId :: StreamId
  sm_streamLimitWindowingFraction :: u64
  sm_remoteBidirectionalStreamLimitUpdate :: "u64 option"
  sm_remoteUnidirectionalStreamLimitUpdate :: "u64 option"
  sm_numControlStreams :: u64
  sm_openBidirectionalPeerStreams :: "StreamId set"
  sm_openUnidirectionalPeerStreams :: "StreamId set"
  sm_openBidirectionalLocalStreams :: "StreamId set"
  sm_openUnidirectionalLocalStreams :: "StreamId set"
  sm_openBidirectionalLocalStreamGroups :: "StreamGroupId set"
  sm_openUnidirectionalLocalStreamGroups :: "StreamGroupId set"
  sm_streams :: "StreamId \<rightharpoonup> QuicStreamState"
  sm_newPeerStreams :: "StreamId list"
  sm_newGroupedPeerStreams :: "StreamId list"
  sm_newPeerStreamGroups :: "StreamGroupId set"
  sm_peerStreamGroupsSeen :: "StreamGroupId set"
  sm_blockedStreams :: "StreamId \<rightharpoonup> StreamDataBlockedFrame"
  sm_stopSendingStreams :: "StreamId \<rightharpoonup> ApplicationErrorCode"
  sm_streamPriorityLevelsNoCtrl :: "StreamId \<rightharpoonup> u8"
  sm_windowUpdates :: "StreamId set"
  sm_flowControlUpdated :: "StreamId set"
  sm_lossStreams :: "StreamId set"
  sm_lossDSRStreams :: "StreamId set"
  sm_readableStreams :: "StreamId set"
  sm_peekableStreams :: "StreamId set"
  sm_writeQueue :: PriorityQueue
  sm_controlWriteQueue :: "StreamId set"
  sm_writableStreams :: "StreamId set"
  sm_writableDSRStreams :: "StreamId set"
  sm_txStreams :: "StreamId set"
  sm_deliverableStreams :: "StreamId set"
  sm_closedStreams :: "StreamId set"
  sm_isAppIdle :: bool
  sm_maxLocalBidirectionalStreamIdIncreased :: bool
  sm_maxLocalUnidirectionalStreamIdIncreased :: bool

section \<open>The connection\<close>

record ConnectionIdData =
  cid_connId :: ConnectionId
  cid_sequenceNumber :: u64
  cid_token :: "StatelessResetToken option"

type_synonym QuicCryptoStream = QuicStreamLike

record QuicCryptoState =
  initialStream :: QuicCryptoStream
  handshakeStream :: QuicCryptoStream
  oneRttStream :: QuicCryptoStream

text \<open>
  The congestion controller is an object behind an interface: here it is absent, or the list
  of the calls \<^verbatim>\<open>setAppIdle\<close> it has received. The write ciphers are present or not.
\<close>

record QuicConnectionState =
  nodeType :: QuicNodeType
  cryptoState :: QuicCryptoState
  congestionController :: "(bool \<times> TimePoint) list option"
  streamManager :: QuicStreamManager
  outstandings :: OutstandingsInfo
  initialWriteCipher :: bool
  handshakeWriteCipher :: bool
  oneRttWriteCipher :: bool
  peerActiveConnectionIdLimit :: u64
  clientConnectionId :: "ConnectionId option"
  serverConnectionId :: "ConnectionId option"
  selfConnectionIds :: "ConnectionIdData list"
  peerConnectionIds :: "ConnectionIdData list"
  connIdsRetiringSoon :: "ConnectionId list option"
  pendingEvents :: PendingEvents
  lossState :: LossState
  ackStates :: AckStates
  conn_flowControlState :: ConnectionFlowControlState
  outstandingPathValidation :: "PathChallengeFrame option"
  transportSettings :: TransportSettings
  pathChallengeStartTime :: TimePoint
  retransmissionPolicies :: "StreamGroupId \<rightharpoonup> bool"

text \<open>Updates of one owned part.\<close>

definition on_sm :: "(QuicStreamManager \<Rightarrow> QuicStreamManager) \<Rightarrow> QuicConnectionState \<Rightarrow> QuicConnectionState" where
  "on_sm f conn = conn\<lparr>streamManager := f (streamManager conn)\<rparr>"

definition on_pe :: "(PendingEvents \<Rightarrow> PendingEvents) \<Rightarrow> QuicConnectionState \<Rightarrow> QuicConnectionState" where
  "on_pe f conn = conn\<lparr>pendingEvents := f (pendingEvents conn)\<rparr>"

definition on_fc ::
    "(ConnectionFlowControlState \<Rightarrow> ConnectionFlowControlState) \<Rightarrow> QuicConnectionState \<Rightarrow> QuicConnectionState" where
  "on_fc f conn = conn\<lparr>conn_flowControlState := f (conn_flowControlState conn)\<rparr>"

definition on_ls :: "(LossState \<Rightarrow> LossState) \<Rightarrow> QuicConnectionState \<Rightarrow> QuicConnectionState" where
  "on_ls f conn = conn\<lparr>lossState := f (lossState conn)\<rparr>"

definition on_os :: "(OutstandingsInfo \<Rightarrow> OutstandingsInfo) \<Rightarrow> QuicConnectionState \<Rightarrow> QuicConnectionState" where
  "on_os f conn = conn\<lparr>outstandings := f (outstandings conn)\<rparr>"

lemma on_parts [simp]:
  "streamManager (on_sm f conn) = f (streamManager conn)"
  "pendingEvents (on_sm f conn) = pendingEvents conn"
  "conn_flowControlState (on_sm f conn) = conn_flowControlState conn"
  "lossState (on_sm f conn) = lossState conn"
  "outstandings (on_sm f conn) = outstandings conn"
  "transportSettings (on_sm f conn) = transportSettings conn"
  "nodeType (on_sm f conn) = nodeType conn"
  "streamManager (on_pe g conn) = streamManager conn"
  "pendingEvents (on_pe g conn) = g (pendingEvents conn)"
  "conn_flowControlState (on_pe g conn) = conn_flowControlState conn"
  "lossState (on_pe g conn) = lossState conn"
  "outstandings (on_pe g conn) = outstandings conn"
  "transportSettings (on_pe g conn) = transportSettings conn"
  "nodeType (on_pe g conn) = nodeType conn"
  "streamManager (on_fc h conn) = streamManager conn"
  "pendingEvents (on_fc h conn) = pendingEvents conn"
  "conn_flowControlState (on_fc h conn) = h (conn_flowControlState conn)"
  "lossState (on_fc h conn) = lossState conn"
  "outstandings (on_fc h conn) = outstandings conn"
  "transportSettings (on_fc h conn) = transportSettings conn"
  "nodeType (on_fc h conn) = nodeType conn"
  "streamManager (on_ls l conn) = streamManager conn"
  "pendingEvents (on_ls l conn) = pendingEvents conn"
  "conn_flowControlState (on_ls l conn) = conn_flowControlState conn"
  "lossState (on_ls l conn) = l (lossState conn)"
  "outstandings (on_ls l conn) = outstandings conn"
  "transportSettings (on_ls l conn) = transportSettings conn"
  "nodeType (on_ls l conn) = nodeType conn"
  "streamManager (on_os k conn) = streamManager conn"
  "pendingEvents (on_os k conn) = pendingEvents conn"
  "conn_flowControlState (on_os k conn) = conn_flowControlState conn"
  "lossState (on_os k conn) = lossState conn"
  "outstandings (on_os k conn) = k (outstandings conn)"
  "transportSettings (on_os k conn) = transportSettings conn"
  "nodeType (on_os k conn) = nodeType conn"
  by (simp_all add: on_sm_def on_pe_def on_fc_def on_ls_def on_os_def)

text \<open>
  A new connection: the defaults of the members, with the crypto state that both kinds of
  connection allocate. The stream manager and the random first packet number are arguments.
\<close>

definition QuicConnectionState_make :: "QuicNodeType \<Rightarrow> QuicStreamManager \<Rightarrow> PacketNum \<Rightarrow> QuicConnectionState" where
  "QuicConnectionState_make type manager startingNum =
     \<lparr>nodeType = type,
      cryptoState = \<lparr>initialStream = QuicStreamLike_init, handshakeStream = QuicStreamLike_init,
                     oneRttStream = QuicStreamLike_init\<rparr>,
      congestionController = None, streamManager = manager, outstandings = OutstandingsInfo_reset,
      initialWriteCipher = False, handshakeWriteCipher = False, oneRttWriteCipher = False,
      peerActiveConnectionIdLimit = 0, clientConnectionId = None, serverConnectionId = None,
      selfConnectionIds = [], peerConnectionIds = [], connIdsRetiringSoon = None,
      pendingEvents = PendingEvents_init, lossState = LossState_init,
      ackStates = AckStates_make startingNum, conn_flowControlState = ConnectionFlowControlState_init,
      outstandingPathValidation = None, transportSettings = TransportSettings_init,
      pathChallengeStartTime = 0, retransmissionPolicies = Map.empty\<rparr>"

section \<open>A new stream\<close>

definition StreamFlowControlState_make :: "u64 \<Rightarrow> u64 \<Rightarrow> u64 \<Rightarrow> StreamFlowControlState" where
  "StreamFlowControlState_make windowSize advertised peerAdvertised =
     \<lparr>fcs_windowSize = windowSize, fcs_advertisedMaxOffset = advertised,
      fcs_peerAdvertisedMaxOffset = peerAdvertised, fcs_timeOfLastFlowControlUpdate = None\<rparr>"

definition QuicStreamState_make :: "StreamId \<Rightarrow> QuicConnectionState \<Rightarrow> QuicStreamState" where
  "QuicStreamState_make idIn conn =
     (let ts = transportSettings conn; fc = conn_flowControlState conn;
          windowSize =
            (if isUnidirectionalStream idIn then advertisedInitialUniStreamWindowSize ts
             else if isLocalStream (nodeType conn) idIn
             then advertisedInitialBidiLocalStreamWindowSize ts
             else advertisedInitialBidiRemoteStreamWindowSize ts);
          peerAdvertisedMaxOffset =
            (if isUnidirectionalStream idIn then cfc_peerAdvertisedInitialMaxStreamOffsetUni fc
             else if isLocalStream (nodeType conn) idIn
             then cfc_peerAdvertisedInitialMaxStreamOffsetBidiRemote fc
             else cfc_peerAdvertisedInitialMaxStreamOffsetBidiLocal fc)
      in QuicStreamLike.extend QuicStreamLike_init
           \<lparr>stream_id = idIn, groupId = None, finalWriteOffset = None,
            flowControlState = StreamFlowControlState_make windowSize windowSize peerAdvertisedMaxOffset,
            streamReadError = None, streamWriteError = None,
            sendState = (if isUnidirectionalStream idIn \<and> \<not> isLocalStream (nodeType conn) idIn
                         then Send_Invalid else Send_Open),
            recvState = (if isUnidirectionalStream idIn \<and> isLocalStream (nodeType conn) idIn
                         then Recv_Invalid else Recv_Open),
            isControl = False, lastHolbTime = None, totalHolbTime = 0, holbCount = 0,
            priority = defaultPriority ts, streamPacketIdx = 0, dsrSender = False,
            writeBufMeta = WriteBufferMeta_init, retransmissionBufMetas = Map.empty,
            lossBufMetas = [], streamLossCount = 0\<rparr>)"

definition QuicStreamState_make_group ::
    "StreamId \<Rightarrow> StreamGroupId option \<Rightarrow> QuicConnectionState \<Rightarrow> QuicStreamState" where
  "QuicStreamState_make_group idIn groupIdIn conn = (QuicStreamState_make idIn conn)\<lparr>groupId := groupIdIn\<rparr>"

end
