(* ===== verification/Stream_Manager.thy ===== *)
theory Stream_Manager
  imports Conn_State
begin

text \<open>
  The stream manager, \<^verbatim>\<open>state/quic_stream_manager.{h,cpp}\<close>: which streams are open, which
  have state, and the sets of streams that have something to do. Operations that only touch
  the members of the manager map a manager to a manager; those that also read or notify the
  connection map a connection to a connection. A returned pointer to a stream is the state it
  points to, a null pointer \<open>None\<close>. The time of the clock is an argument. The callbacks for
  statistics and the observer of priorities are left out: they change no state here.
\<close>

section \<open>Stream identifiers\<close>

abbreviation (input) kStreamIncrement :: u64 where "kStreamIncrement \<equiv> 4"
abbreviation (input) kMaxStreamGroupId :: u64 where "kMaxStreamGroupId \<equiv> 128 * 4"

definition isStreamUnopened :: "StreamId \<Rightarrow> StreamId \<Rightarrow> bool" where
  "isStreamUnopened streamId nextAcceptableStreamId \<longleftrightarrow> streamId \<ge> nextAcceptableStreamId"

text \<open>
  The loop that opens every stream from \<open>start\<close> up to \<open>streamId\<close>. The list of new streams is
  absent where the code passes a null pointer. Near the largest identifier the increment
  wraps, and the loop does not end.
\<close>

partial_function (option) open_streams_loop ::
    "StreamId \<Rightarrow> StreamId \<Rightarrow> StreamId set \<Rightarrow> StreamId list option
     \<Rightarrow> (StreamId set \<times> StreamId list option) option" where
  "open_streams_loop streamId start openStreams newStreams =
     (if start \<le> streamId
      then open_streams_loop streamId (start + kStreamIncrement) (insert start openStreams)
             (map_option (\<lambda>ids. ids @ [start]) newStreams)
      else Some (openStreams, newStreams))"

definition openPeerStreamIfNotClosed ::
    "StreamId \<Rightarrow> StreamId set \<Rightarrow> StreamId \<Rightarrow> StreamId \<Rightarrow> StreamId list option
     \<Rightarrow> (LocalErrorCode \<times> StreamId set \<times> StreamId \<times> StreamId list option) result" where
  "openPeerStreamIfNotClosed streamId openStreams nextAcceptableStreamId maxStreamId newStreams =
     (if streamId < nextAcceptableStreamId
      then Inr (CREATING_EXISTING_STREAM, openStreams, nextAcceptableStreamId, newStreams)
      else if streamId \<ge> maxStreamId
      then Inr (STREAM_LIMIT_EXCEEDED, openStreams, nextAcceptableStreamId, newStreams)
      else case open_streams_loop streamId nextAcceptableStreamId openStreams newStreams of
             None \<Rightarrow> Inl loops_forever
           | Some (openStreams1, newStreams1) \<Rightarrow>
               Inr (LOCAL_NO_ERROR, openStreams1,
                    (if streamId \<ge> nextAcceptableStreamId then streamId + kStreamIncrement
                     else nextAcceptableStreamId), newStreams1))"

definition openLocalStreamIfNotClosed ::
    "StreamId \<Rightarrow> StreamId set \<Rightarrow> StreamId \<Rightarrow> StreamId
     \<Rightarrow> (LocalErrorCode \<times> StreamId set \<times> StreamId) result" where
  "openLocalStreamIfNotClosed streamId openStreams nextAcceptableStreamId maxStreamId =
     (if streamId < nextAcceptableStreamId
      then Inr (CREATING_EXISTING_STREAM, openStreams, nextAcceptableStreamId)
      else if streamId \<ge> maxStreamId
      then Inr (STREAM_LIMIT_EXCEEDED, openStreams, nextAcceptableStreamId)
      else case open_streams_loop streamId nextAcceptableStreamId openStreams None of
             None \<Rightarrow> Inl loops_forever
           | Some (openStreams1, _) \<Rightarrow>
               Inr (LOCAL_NO_ERROR, openStreams1,
                    (if streamId \<ge> nextAcceptableStreamId then streamId + kStreamIncrement
                     else nextAcceptableStreamId)))"

text \<open>
  The member that a conditional expression on the direction of a stream selects, and the
  assignment through the reference it gives.
\<close>

definition openPeerStreams :: "StreamId \<Rightarrow> QuicStreamManager \<Rightarrow> StreamId set" where
  "openPeerStreams streamId sm =
     (if isUnidirectionalStream streamId then sm_openUnidirectionalPeerStreams sm
      else sm_openBidirectionalPeerStreams sm)"

definition set_openPeerStreams :: "StreamId \<Rightarrow> StreamId set \<Rightarrow> QuicStreamManager \<Rightarrow> QuicStreamManager" where
  "set_openPeerStreams streamId v sm =
     (if isUnidirectionalStream streamId then sm\<lparr>sm_openUnidirectionalPeerStreams := v\<rparr>
      else sm\<lparr>sm_openBidirectionalPeerStreams := v\<rparr>)"

definition openLocalStreams :: "StreamId \<Rightarrow> QuicStreamManager \<Rightarrow> StreamId set" where
  "openLocalStreams streamId sm =
     (if isUnidirectionalStream streamId then sm_openUnidirectionalLocalStreams sm
      else sm_openBidirectionalLocalStreams sm)"

definition set_openLocalStreams :: "StreamId \<Rightarrow> StreamId set \<Rightarrow> QuicStreamManager \<Rightarrow> QuicStreamManager" where
  "set_openLocalStreams streamId v sm =
     (if isUnidirectionalStream streamId then sm\<lparr>sm_openUnidirectionalLocalStreams := v\<rparr>
      else sm\<lparr>sm_openBidirectionalLocalStreams := v\<rparr>)"

definition nextAcceptablePeer :: "StreamId \<Rightarrow> QuicStreamManager \<Rightarrow> StreamId" where
  "nextAcceptablePeer streamId sm =
     (if isUnidirectionalStream streamId then sm_nextAcceptablePeerUnidirectionalStreamId sm
      else sm_nextAcceptablePeerBidirectionalStreamId sm)"

definition set_nextAcceptablePeer :: "StreamId \<Rightarrow> StreamId \<Rightarrow> QuicStreamManager \<Rightarrow> QuicStreamManager" where
  "set_nextAcceptablePeer streamId v sm =
     (if isUnidirectionalStream streamId then sm\<lparr>sm_nextAcceptablePeerUnidirectionalStreamId := v\<rparr>
      else sm\<lparr>sm_nextAcceptablePeerBidirectionalStreamId := v\<rparr>)"

definition nextAcceptableLocal :: "StreamId \<Rightarrow> QuicStreamManager \<Rightarrow> StreamId" where
  "nextAcceptableLocal streamId sm =
     (if isUnidirectionalStream streamId then sm_nextAcceptableLocalUnidirectionalStreamId sm
      else sm_nextAcceptableLocalBidirectionalStreamId sm)"

definition set_nextAcceptableLocal :: "StreamId \<Rightarrow> StreamId \<Rightarrow> QuicStreamManager \<Rightarrow> QuicStreamManager" where
  "set_nextAcceptableLocal streamId v sm =
     (if isUnidirectionalStream streamId then sm\<lparr>sm_nextAcceptableLocalUnidirectionalStreamId := v\<rparr>
      else sm\<lparr>sm_nextAcceptableLocalBidirectionalStreamId := v\<rparr>)"

definition maxRemoteStreamId :: "StreamId \<Rightarrow> QuicStreamManager \<Rightarrow> StreamId" where
  "maxRemoteStreamId streamId sm =
     (if isUnidirectionalStream streamId then sm_maxRemoteUnidirectionalStreamId sm
      else sm_maxRemoteBidirectionalStreamId sm)"

definition maxLocalStreamId :: "StreamId \<Rightarrow> QuicStreamManager \<Rightarrow> StreamId" where
  "maxLocalStreamId streamId sm =
     (if isUnidirectionalStream streamId then sm_maxLocalUnidirectionalStreamId sm
      else sm_maxLocalBidirectionalStreamId sm)"

section \<open>Limits\<close>

definition setMaxLocalBidirectionalStreams :: "u64 \<Rightarrow> bool \<Rightarrow> QuicStreamManager \<Rightarrow> QuicStreamManager result" where
  "setMaxLocalBidirectionalStreams maxStreams force sm =
     (if maxStreams > kMaxMaxStreams then Inl (QuicTransportException STREAM_LIMIT_ERROR)
      else let maxStreamId = maxStreams * kStreamIncrement + sm_initialLocalBidirectionalStreamId sm
           in if force \<or> maxStreamId > sm_maxLocalBidirectionalStreamId sm
              then Inr (sm\<lparr>sm_maxLocalBidirectionalStreamId := maxStreamId,
                           sm_maxLocalBidirectionalStreamIdIncreased := True\<rparr>)
              else Inr sm)"

definition setMaxLocalUnidirectionalStreams :: "u64 \<Rightarrow> bool \<Rightarrow> QuicStreamManager \<Rightarrow> QuicStreamManager result" where
  "setMaxLocalUnidirectionalStreams maxStreams force sm =
     (if maxStreams > kMaxMaxStreams then Inl (QuicTransportException STREAM_LIMIT_ERROR)
      else let maxStreamId = maxStreams * kStreamIncrement + sm_initialLocalUnidirectionalStreamId sm
           in if force \<or> maxStreamId > sm_maxLocalUnidirectionalStreamId sm
              then Inr (sm\<lparr>sm_maxLocalUnidirectionalStreamId := maxStreamId,
                           sm_maxLocalUnidirectionalStreamIdIncreased := True\<rparr>)
              else Inr sm)"

definition setMaxRemoteBidirectionalStreamsInternal ::
    "u64 \<Rightarrow> bool \<Rightarrow> QuicStreamManager \<Rightarrow> QuicStreamManager result" where
  "setMaxRemoteBidirectionalStreamsInternal maxStreams force sm =
     (if maxStreams > kMaxMaxStreams then Inl (QuicTransportException STREAM_LIMIT_ERROR)
      else let maxStreamId = maxStreams * kStreamIncrement + sm_initialRemoteBidirectionalStreamId sm
           in if force \<or> maxStreamId > sm_maxRemoteBidirectionalStreamId sm
              then Inr (sm\<lparr>sm_maxRemoteBidirectionalStreamId := maxStreamId\<rparr>)
              else Inr sm)"

definition setMaxRemoteUnidirectionalStreamsInternal ::
    "u64 \<Rightarrow> bool \<Rightarrow> QuicStreamManager \<Rightarrow> QuicStreamManager result" where
  "setMaxRemoteUnidirectionalStreamsInternal maxStreams force sm =
     (if maxStreams > kMaxMaxStreams then Inl (QuicTransportException STREAM_LIMIT_ERROR)
      else let maxStreamId = maxStreams * kStreamIncrement + sm_initialRemoteUnidirectionalStreamId sm
           in if force \<or> maxStreamId > sm_maxRemoteUnidirectionalStreamId sm
              then Inr (sm\<lparr>sm_maxRemoteUnidirectionalStreamId := maxStreamId\<rparr>)
              else Inr sm)"

definition setMaxRemoteBidirectionalStreams :: "u64 \<Rightarrow> QuicStreamManager \<Rightarrow> QuicStreamManager result" where
  "setMaxRemoteBidirectionalStreams maxStreams = setMaxRemoteBidirectionalStreamsInternal maxStreams False"

definition setMaxRemoteUnidirectionalStreams :: "u64 \<Rightarrow> QuicStreamManager \<Rightarrow> QuicStreamManager result" where
  "setMaxRemoteUnidirectionalStreams maxStreams = setMaxRemoteUnidirectionalStreamsInternal maxStreams False"

definition consumeMaxLocalBidirectionalStreamIdIncreased :: "QuicStreamManager \<Rightarrow> bool \<times> QuicStreamManager" where
  "consumeMaxLocalBidirectionalStreamIdIncreased sm =
     (sm_maxLocalBidirectionalStreamIdIncreased sm, sm\<lparr>sm_maxLocalBidirectionalStreamIdIncreased := False\<rparr>)"

definition consumeMaxLocalUnidirectionalStreamIdIncreased :: "QuicStreamManager \<Rightarrow> bool \<times> QuicStreamManager" where
  "consumeMaxLocalUnidirectionalStreamIdIncreased sm =
     (sm_maxLocalUnidirectionalStreamIdIncreased sm, sm\<lparr>sm_maxLocalUnidirectionalStreamIdIncreased := False\<rparr>)"

definition refreshTransportSettings :: "TransportSettings \<Rightarrow> QuicStreamManager \<Rightarrow> QuicStreamManager result" where
  "refreshTransportSettings settings sm =
     and_then (setMaxRemoteBidirectionalStreamsInternal (advertisedInitialMaxStreamsBidi settings) True sm)
       (setMaxRemoteUnidirectionalStreamsInternal (advertisedInitialMaxStreamsUni settings) True)"

definition setStreamLimitWindowingFraction :: "u64 \<Rightarrow> QuicStreamManager \<Rightarrow> QuicStreamManager" where
  "setStreamLimitWindowingFraction fraction sm =
     (if fraction > 0 then sm\<lparr>sm_streamLimitWindowingFraction := fraction\<rparr> else sm)"

definition remoteBidirectionalStreamLimitUpdate :: "QuicStreamManager \<Rightarrow> u64 option \<times> QuicStreamManager" where
  "remoteBidirectionalStreamLimitUpdate sm =
     (sm_remoteBidirectionalStreamLimitUpdate sm, sm\<lparr>sm_remoteBidirectionalStreamLimitUpdate := None\<rparr>)"

definition remoteUnidirectionalStreamLimitUpdate :: "QuicStreamManager \<Rightarrow> u64 option \<times> QuicStreamManager" where
  "remoteUnidirectionalStreamLimitUpdate sm =
     (sm_remoteUnidirectionalStreamLimitUpdate sm, sm\<lparr>sm_remoteUnidirectionalStreamLimitUpdate := None\<rparr>)"

text \<open>
  How many streams can still be opened. The last of the four functions has lost its return
  statement: reading its result is undefined.
\<close>

definition openableLocalBidirectionalStreams :: "QuicStreamManager \<Rightarrow> u64" where
  "openableLocalBidirectionalStreams sm =
     (sm_maxLocalBidirectionalStreamId sm - sm_nextAcceptableLocalBidirectionalStreamId sm) div kStreamIncrement"

definition openableLocalUnidirectionalStreams :: "QuicStreamManager \<Rightarrow> u64" where
  "openableLocalUnidirectionalStreams sm =
     (sm_maxLocalUnidirectionalStreamId sm - sm_nextAcceptableLocalUnidirectionalStreamId sm) div kStreamIncrement"

definition openableRemoteBidirectionalStreams :: "QuicStreamManager \<Rightarrow> u64" where
  "openableRemoteBidirectionalStreams sm =
     (sm_maxRemoteBidirectionalStreamId sm - sm_nextAcceptablePeerBidirectionalStreamId sm) div kStreamIncrement"

definition openableRemoteUnidirectionalStreams :: "QuicStreamManager \<Rightarrow> u64 result" where
  "openableRemoteUnidirectionalStreams sm = Inl undefined_behaviour"

definition nextAcceptablePeerBidirectionalStreamId :: "QuicStreamManager \<Rightarrow> StreamId option" where
  "nextAcceptablePeerBidirectionalStreamId sm =
     (if sm_maxRemoteBidirectionalStreamId sm = sm_nextAcceptablePeerBidirectionalStreamId sm then None
      else Some (sm_nextAcceptablePeerBidirectionalStreamId sm))"

definition nextAcceptablePeerUnidirectionalStreamId :: "QuicStreamManager \<Rightarrow> StreamId option" where
  "nextAcceptablePeerUnidirectionalStreamId sm =
     (if sm_maxRemoteUnidirectionalStreamId sm = sm_nextAcceptablePeerUnidirectionalStreamId sm then None
      else Some (sm_nextAcceptablePeerUnidirectionalStreamId sm))"

definition nextAcceptableLocalBidirectionalStreamId :: "QuicStreamManager \<Rightarrow> StreamId option" where
  "nextAcceptableLocalBidirectionalStreamId sm =
     (if sm_maxLocalBidirectionalStreamId sm = sm_nextAcceptableLocalBidirectionalStreamId sm then None
      else Some (sm_nextAcceptableLocalBidirectionalStreamId sm))"

definition nextAcceptableLocalUnidirectionalStreamId :: "QuicStreamManager \<Rightarrow> StreamId option" where
  "nextAcceptableLocalUnidirectionalStreamId sm =
     (if sm_maxLocalUnidirectionalStreamId sm = sm_nextAcceptableLocalUnidirectionalStreamId sm then None
      else Some (sm_nextAcceptableLocalUnidirectionalStreamId sm))"

section \<open>Construction\<close>

definition QuicStreamManager_blank :: "QuicNodeType \<Rightarrow> QuicStreamManager" where
  "QuicStreamManager_blank type =
     (let local = (if type = Server then 1 else 0); remote = (if type = Server then 0 else 1)
      in \<lparr>sm_nodeType = type,
          sm_nextAcceptablePeerBidirectionalStreamId = remote,
          sm_nextAcceptablePeerUnidirectionalStreamId = remote + 2,
          sm_nextAcceptableLocalBidirectionalStreamId = local,
          sm_nextAcceptableLocalUnidirectionalStreamId = local + 2,
          sm_nextBidirectionalStreamId = local, sm_nextBidirectionalStreamGroupId = local,
          sm_nextUnidirectionalStreamId = local + 2, sm_nextUnidirectionalStreamGroupId = local + 2,
          sm_maxLocalBidirectionalStreamId = 0, sm_maxLocalUnidirectionalStreamId = 0,
          sm_maxRemoteBidirectionalStreamId = 0, sm_maxRemoteUnidirectionalStreamId = 0,
          sm_initialLocalBidirectionalStreamId = local,
          sm_initialLocalUnidirectionalStreamId = local + 2,
          sm_initialRemoteBidirectionalStreamId = remote,
          sm_initialRemoteUnidirectionalStreamId = remote + 2,
          sm_streamLimitWindowingFraction = 2,
          sm_remoteBidirectionalStreamLimitUpdate = None,
          sm_remoteUnidirectionalStreamLimitUpdate = None, sm_numControlStreams = 0,
          sm_openBidirectionalPeerStreams = {}, sm_openUnidirectionalPeerStreams = {},
          sm_openBidirectionalLocalStreams = {}, sm_openUnidirectionalLocalStreams = {},
          sm_openBidirectionalLocalStreamGroups = {}, sm_openUnidirectionalLocalStreamGroups = {},
          sm_streams = Map.empty, sm_newPeerStreams = [], sm_newGroupedPeerStreams = [],
          sm_newPeerStreamGroups = {}, sm_peerStreamGroupsSeen = {}, sm_blockedStreams = Map.empty,
          sm_stopSendingStreams = Map.empty, sm_streamPriorityLevelsNoCtrl = Map.empty,
          sm_windowUpdates = {}, sm_flowControlUpdated = {}, sm_lossStreams = {},
          sm_lossDSRStreams = {}, sm_readableStreams = {}, sm_peekableStreams = {},
          sm_writeQueue = PriorityQueue_init, sm_controlWriteQueue = {}, sm_writableStreams = {},
          sm_writableDSRStreams = {}, sm_txStreams = {}, sm_deliverableStreams = {},
          sm_closedStreams = {}, sm_isAppIdle = False,
          sm_maxLocalBidirectionalStreamIdIncreased = False,
          sm_maxLocalUnidirectionalStreamIdIncreased = False\<rparr>)"

definition QuicStreamManager_make :: "QuicNodeType \<Rightarrow> TransportSettings \<Rightarrow> QuicStreamManager result" where
  "QuicStreamManager_make type settings =
     and_then (refreshTransportSettings settings (QuicStreamManager_blank type))
       (\<lambda>sm. Inr (sm\<lparr>sm_writeQueue :=
          setMaxNextsPerStream (priorityQueueWritesPerStream settings) (sm_writeQueue sm)\<rparr>))"

text \<open>
  Moving a manager to another connection: every member is taken over, and every stream is
  rebuilt by a constructor that takes over every member but \<^verbatim>\<open>streamPacketIdx\<close>.
\<close>

definition QuicStreamState_migrate :: "QuicStreamState \<Rightarrow> QuicStreamState" where
  "QuicStreamState_migrate other = other\<lparr>streamPacketIdx := 0\<rparr>"

definition QuicStreamManager_migrate :: "QuicNodeType \<Rightarrow> QuicStreamManager \<Rightarrow> QuicStreamManager" where
  "QuicStreamManager_migrate type other =
     other\<lparr>sm_nodeType := type, sm_streams := map_option QuicStreamState_migrate \<circ> sm_streams other\<rparr>"

section \<open>Looking up and creating streams\<close>

definition streamExists :: "StreamId \<Rightarrow> QuicStreamManager \<Rightarrow> bool" where
  "streamExists streamId sm =
     (if isLocalStream (sm_nodeType sm) streamId then streamId \<in> openLocalStreams streamId sm
      else streamId \<in> openPeerStreams streamId sm)"

definition findStream :: "StreamId \<Rightarrow> QuicStreamManager \<Rightarrow> QuicStreamState option" where
  "findStream streamId sm = sm_streams sm streamId"

text \<open>Writing through a pointer to the state of a stream.\<close>

definition put_stream :: "QuicStreamState \<Rightarrow> QuicStreamManager \<Rightarrow> QuicStreamManager" where
  "put_stream stream sm = sm\<lparr>sm_streams := (sm_streams sm)(stream_id stream \<mapsto> stream)\<rparr>"

definition streamCount :: "QuicStreamManager \<Rightarrow> nat" where
  "streamCount sm = card (dom (sm_streams sm))"

definition hasNonCtrlStreams :: "QuicStreamManager \<Rightarrow> bool" where
  "hasNonCtrlStreams sm \<longleftrightarrow> of_nat (streamCount sm) \<noteq> sm_numControlStreams sm"

definition updateAppIdleState :: "TimePoint \<Rightarrow> QuicConnectionState \<Rightarrow> QuicConnectionState" where
  "updateAppIdleState now conn =
     (let sm = streamManager conn; currentNonCtrlStreams = hasNonCtrlStreams sm
      in if sm_isAppIdle sm \<and> \<not> currentNonCtrlStreams then conn
         else if \<not> sm_isAppIdle sm \<and> currentNonCtrlStreams then conn
         else conn\<lparr>streamManager := sm\<lparr>sm_isAppIdle := \<not> currentNonCtrlStreams\<rparr>,
                   congestionController :=
                     map_option (\<lambda>calls. calls @ [(\<not> currentNonCtrlStreams, now)]) (congestionController conn)\<rparr>)"

definition addToStreamPriorityMap :: "QuicStreamState \<Rightarrow> QuicStreamManager \<Rightarrow> QuicStreamManager result" where
  "addToStreamPriorityMap streamState sm =
     (if isControl streamState then Inr sm
      else if sm_streamPriorityLevelsNoCtrl sm (stream_id streamState) \<noteq> None
      then Inl (QuicTransportException STREAM_STATE_ERROR)
      else Inr (sm\<lparr>sm_streamPriorityLevelsNoCtrl :=
             (sm_streamPriorityLevelsNoCtrl sm)(stream_id streamState \<mapsto> pri_level (priority streamState))\<rparr>))"

text \<open>\<^verbatim>\<open>streams_.emplace\<close> with a new state, which is dropped when the stream has one.\<close>

definition emplace_stream :: "QuicStreamState \<Rightarrow> QuicStreamManager \<Rightarrow> QuicStreamState \<times> QuicStreamManager" where
  "emplace_stream stream sm =
     (case sm_streams sm (stream_id stream) of
        Some existing \<Rightarrow> (existing, sm)
      | None \<Rightarrow> (stream, put_stream stream sm))"

definition getOrCreateOpenedLocalStream ::
    "StreamId \<Rightarrow> QuicConnectionState \<Rightarrow> (QuicStreamState option \<times> QuicConnectionState) result" where
  "getOrCreateOpenedLocalStream streamId conn =
     (let sm = streamManager conn
      in if streamId \<in> openLocalStreams streamId sm
         then if sm_streams sm streamId \<noteq> None then Inl (QuicTransportException STREAM_STATE_ERROR)
              else let (stream, sm1) = emplace_stream (QuicStreamState_make streamId conn) sm
                   in and_then (addToStreamPriorityMap stream sm1)
                        (\<lambda>sm2. Inr (Some stream, conn\<lparr>streamManager := sm2\<rparr>))
         else Inr (None, conn))"

text \<open>What the application is told about a new stream of the peer.\<close>

definition note_new_peer_stream ::
    "TransportSettings \<Rightarrow> StreamId \<Rightarrow> StreamGroupId option \<Rightarrow> QuicStreamManager \<Rightarrow> QuicStreamManager" where
  "note_new_peer_stream settings streamId grp sm =
     (let sm1 = (case grp of
                   Some g \<Rightarrow> if g \<notin> sm_peerStreamGroupsSeen sm
                             then sm\<lparr>sm_newPeerStreamGroups := insert g (sm_newPeerStreamGroups sm),
                                     sm_peerStreamGroupsSeen := insert g (sm_peerStreamGroupsSeen sm)\<rparr>
                             else sm
                 | None \<Rightarrow> sm)
      in if notifyOnNewStreamsExplicitly settings
         then case grp of
                None \<Rightarrow> sm1\<lparr>sm_newPeerStreams := sm_newPeerStreams sm1 @ [streamId]\<rparr>
              | Some g \<Rightarrow> sm1\<lparr>sm_newGroupedPeerStreams := sm_newGroupedPeerStreams sm1 @ [streamId]\<rparr>
         else sm1)"

definition instantiatePeerStream ::
    "StreamId \<Rightarrow> StreamGroupId option \<Rightarrow> QuicConnectionState
     \<Rightarrow> (QuicStreamState option \<times> QuicConnectionState) result" where
  "instantiatePeerStream streamId grp conn =
     (let sm1 = note_new_peer_stream (transportSettings conn) streamId grp (streamManager conn);
          (stream, sm2) = emplace_stream (QuicStreamState_make_group streamId grp conn) sm1
      in and_then (addToStreamPriorityMap stream sm2)
           (\<lambda>sm3. Inr (Some stream, conn\<lparr>streamManager := sm3\<rparr>)))"

text \<open>The checks of the identifiers in a frame of the peer.\<close>

definition check_peer_stream ::
    "QuicNodeType \<Rightarrow> TransportSettings \<Rightarrow> StreamId \<Rightarrow> StreamGroupId option \<Rightarrow> unit result" where
  "check_peer_stream type settings streamId streamGroupId =
     (if type = Client \<and> isClientStream streamId then Inl (QuicTransportException STREAM_STATE_ERROR)
      else if type = Server \<and> isServerStream streamId then Inl (QuicTransportException STREAM_STATE_ERROR)
      else if \<not> isClientStream streamId \<and> \<not> isServerStream streamId
      then Inl (QuicTransportException STREAM_STATE_ERROR)
      else case streamGroupId of
             None \<Rightarrow> Inr ()
           | Some g \<Rightarrow>
               if type = Client \<and> isClientStreamGroup g then Inl (QuicTransportException STREAM_STATE_ERROR)
               else if type = Server \<and> isServerStreamGroup g then Inl (QuicTransportException STREAM_STATE_ERROR)
               else if g \<ge> min (advertisedMaxStreamGroups settings * 4) kMaxStreamGroupId
               then Inl (QuicTransportException STREAM_LIMIT_ERROR)
               else Inr ())"

text \<open>The collection of new streams behind the pointer that the loop appended to.\<close>

definition set_new_streams ::
    "StreamGroupId option \<Rightarrow> StreamId list option \<Rightarrow> QuicStreamManager \<Rightarrow> QuicStreamManager" where
  "set_new_streams grp newStreams sm =
     (case newStreams of
        None \<Rightarrow> sm
      | Some ids \<Rightarrow> if grp \<noteq> None then sm\<lparr>sm_newGroupedPeerStreams := ids\<rparr>
                    else sm\<lparr>sm_newPeerStreams := ids\<rparr>)"

definition getOrCreatePeerStream ::
    "StreamId \<Rightarrow> StreamGroupId option \<Rightarrow> QuicConnectionState
     \<Rightarrow> (QuicStreamState option \<times> QuicConnectionState) result" where
  "getOrCreatePeerStream streamId streamGroupId conn =
     and_then (check_peer_stream (sm_nodeType (streamManager conn)) (transportSettings conn) streamId streamGroupId)
       (\<lambda>_. let sm = streamManager conn
            in case sm_streams sm streamId of
                 Some stream \<Rightarrow> Inr (Some stream, conn)
               | None \<Rightarrow>
                   if streamId \<in> openPeerStreams streamId sm then instantiatePeerStream streamId streamGroupId conn
                   else let newPeer = (if streamGroupId \<noteq> None then sm_newGroupedPeerStreams sm
                                       else sm_newPeerStreams sm);
                            newStreams = (if notifyOnNewStreamsExplicitly (transportSettings conn) then None
                                          else Some newPeer)
                        in and_then (openPeerStreamIfNotClosed streamId (openPeerStreams streamId sm)
                                       (nextAcceptablePeer streamId sm) (maxRemoteStreamId streamId sm) newStreams)
                             (\<lambda>(openedResult, opened, next, newStreams1).
                                if openedResult = CREATING_EXISTING_STREAM then Inr (None, conn)
                                else if openedResult = STREAM_LIMIT_EXCEEDED
                                then Inl (QuicTransportException STREAM_LIMIT_ERROR)
                                else instantiatePeerStream streamId streamGroupId
                                  (conn\<lparr>streamManager := set_new_streams streamGroupId newStreams1
                                     (set_nextAcceptablePeer streamId next
                                       (set_openPeerStreams streamId opened sm))\<rparr>)))"

definition getStream ::
    "TimePoint \<Rightarrow> StreamId \<Rightarrow> StreamGroupId option \<Rightarrow> QuicConnectionState
     \<Rightarrow> (QuicStreamState option \<times> QuicConnectionState) result" where
  "getStream now streamId streamGroupId conn =
     (if isRemoteStream (sm_nodeType (streamManager conn)) streamId
      then and_then (getOrCreatePeerStream streamId streamGroupId conn)
             (\<lambda>(stream, conn1). Inr (stream, updateAppIdleState now conn1))
      else case sm_streams (streamManager conn) streamId of
             Some stream \<Rightarrow> Inr (Some stream, conn)
           | None \<Rightarrow>
               and_then (getOrCreateOpenedLocalStream streamId conn)
                 (\<lambda>(stream, conn1).
                    if stream = None \<and> isStreamUnopened streamId (nextAcceptableLocal streamId (streamManager conn1))
                    then Inl (QuicTransportException STREAM_STATE_ERROR)
                    else Inr (stream, updateAppIdleState now conn1)))"

definition createStream ::
    "TimePoint \<Rightarrow> StreamId \<Rightarrow> StreamGroupId option \<Rightarrow> QuicConnectionState
     \<Rightarrow> ((LocalErrorCode + QuicStreamState) \<times> QuicConnectionState) result" where
  "createStream now streamId streamGroupId conn =
     (let sm = streamManager conn; type = sm_nodeType sm; isUni = isUnidirectionalStream streamId
      in if type = Client \<and> \<not> isClientStream streamId then Inl (QuicTransportException STREAM_STATE_ERROR)
         else if type = Server \<and> \<not> isServerStream streamId then Inl (QuicTransportException STREAM_STATE_ERROR)
         else if (case streamGroupId of
                    None \<Rightarrow> False
                  | Some g \<Rightarrow>
                      g \<notin> (if isUni then sm_openUnidirectionalLocalStreamGroups sm
                            else sm_openBidirectionalLocalStreamGroups sm)
                      \<or> (type = Client \<and> \<not> isClientStreamGroup g)
                      \<or> (type = Server \<and> \<not> isServerStreamGroup g))
         then Inl (QuicTransportException STREAM_STATE_ERROR)
         else and_then (getOrCreateOpenedLocalStream streamId conn)
                (\<lambda>(existingStream, conn1).
                   case existingStream of
                     Some stream \<Rightarrow> Inr (Inr stream, conn1)
                   | None \<Rightarrow>
                       let sm1 = streamManager conn1
                       in and_then (openLocalStreamIfNotClosed streamId (openLocalStreams streamId sm1)
                                      (nextAcceptableLocal streamId sm1) (maxLocalStreamId streamId sm1))
                            (\<lambda>(openedResult, opened, next).
                               if openedResult \<noteq> LOCAL_NO_ERROR then Inr (Inl openedResult, conn1)
                               else let sm2 = set_nextAcceptableLocal streamId next
                                                (set_openLocalStreams streamId opened sm1);
                                        (stream, sm3) = emplace_stream
                                           (QuicStreamState_make_group streamId streamGroupId conn1) sm2
                                    in and_then (addToStreamPriorityMap stream sm3)
                                         (\<lambda>sm4. Inr (Inr stream,
                                            updateAppIdleState now (conn1\<lparr>streamManager := sm4\<rparr>))))))"

definition createNextBidirectionalStream ::
    "TimePoint \<Rightarrow> StreamGroupId option \<Rightarrow> QuicConnectionState
     \<Rightarrow> ((LocalErrorCode + QuicStreamState) \<times> QuicConnectionState) result" where
  "createNextBidirectionalStream now streamGroupId conn =
     and_then (createStream now (sm_nextBidirectionalStreamId (streamManager conn)) streamGroupId conn)
       (\<lambda>(stream, conn1).
          Inr (stream, if isl stream then conn1
                       else on_sm (\<lambda>sm. sm\<lparr>sm_nextBidirectionalStreamId :=
                              sm_nextBidirectionalStreamId sm + kStreamIncrement\<rparr>) conn1))"

definition createNextUnidirectionalStream ::
    "TimePoint \<Rightarrow> StreamGroupId option \<Rightarrow> QuicConnectionState
     \<Rightarrow> ((LocalErrorCode + QuicStreamState) \<times> QuicConnectionState) result" where
  "createNextUnidirectionalStream now streamGroupId conn =
     and_then (createStream now (sm_nextUnidirectionalStreamId (streamManager conn)) streamGroupId conn)
       (\<lambda>(stream, conn1).
          Inr (stream, if isl stream then conn1
                       else on_sm (\<lambda>sm. sm\<lparr>sm_nextUnidirectionalStreamId :=
                              sm_nextUnidirectionalStreamId sm + kStreamIncrement\<rparr>) conn1))"

definition createNextStreamGroup ::
    "TransportSettings \<Rightarrow> StreamGroupId \<Rightarrow> StreamGroupId set
     \<Rightarrow> LocalErrorCode + (StreamGroupId \<times> StreamGroupId \<times> StreamGroupId set)" where
  "createNextStreamGroup settings grp streamGroups =
     (let maxLocalStreamGroupId = min (advertisedMaxStreamGroups settings * 4) kMaxStreamGroupId
      in if grp \<ge> maxLocalStreamGroupId then Inl STREAM_LIMIT_EXCEEDED
         else Inr (grp, grp + kStreamIncrement, insert grp streamGroups))"

definition createNextBidirectionalStreamGroup ::
    "TransportSettings \<Rightarrow> QuicStreamManager \<Rightarrow> (LocalErrorCode + StreamGroupId) \<times> QuicStreamManager" where
  "createNextBidirectionalStreamGroup settings sm =
     (case createNextStreamGroup settings (sm_nextBidirectionalStreamGroupId sm)
             (sm_openBidirectionalLocalStreamGroups sm) of
        Inl e \<Rightarrow> (Inl e, sm)
      | Inr (gid, next, groups) \<Rightarrow>
          (Inr gid, sm\<lparr>sm_nextBidirectionalStreamGroupId := next,
                       sm_openBidirectionalLocalStreamGroups := groups\<rparr>))"

definition createNextUnidirectionalStreamGroup ::
    "TransportSettings \<Rightarrow> QuicStreamManager \<Rightarrow> (LocalErrorCode + StreamGroupId) \<times> QuicStreamManager" where
  "createNextUnidirectionalStreamGroup settings sm =
     (case createNextStreamGroup settings (sm_nextUnidirectionalStreamGroupId sm)
             (sm_openUnidirectionalLocalStreamGroups sm) of
        Inl e \<Rightarrow> (Inl e, sm)
      | Inr (gid, next, groups) \<Rightarrow>
          (Inr gid, sm\<lparr>sm_nextUnidirectionalStreamGroupId := next,
                       sm_openUnidirectionalLocalStreamGroups := groups\<rparr>))"

section \<open>Writable, readable and other streams\<close>

definition hasLossStreams :: "QuicStreamManager \<Rightarrow> bool" where
  "hasLossStreams sm \<longleftrightarrow> sm_lossStreams sm \<noteq> {} \<or> sm_lossDSRStreams sm \<noteq> {}"

definition hasWritable :: "QuicStreamManager \<Rightarrow> bool" where
  "hasWritable sm \<longleftrightarrow> \<not> pq_empty (sm_writeQueue sm) \<or> sm_controlWriteQueue sm \<noteq> {}"

definition hasDSRWritable :: "QuicStreamManager \<Rightarrow> bool" where
  "hasDSRWritable sm \<longleftrightarrow> sm_writableDSRStreams sm \<noteq> {}"

definition hasNonDSRWritable :: "QuicStreamManager \<Rightarrow> bool" where
  "hasNonDSRWritable sm \<longleftrightarrow> sm_writableStreams sm \<noteq> {} \<or> sm_controlWriteQueue sm \<noteq> {}"

definition addWritable :: "QuicStreamState \<Rightarrow> QuicStreamManager \<Rightarrow> QuicStreamManager" where
  "addWritable stream sm =
     (let sid = stream_id stream;
          sm1 = (if isControl stream
                 then sm\<lparr>sm_controlWriteQueue := insert sid (sm_controlWriteQueue sm)\<rparr>
                 else sm\<lparr>sm_writeQueue := insertOrUpdate sid (priority stream) (sm_writeQueue sm)\<rparr>);
          sm2 = (if hasWritableData stream
                 then sm1\<lparr>sm_writableStreams := insert sid (sm_writableStreams sm1)\<rparr> else sm1);
          sm3 = (if hasWritableBufMeta stream
                 then sm2\<lparr>sm_writableDSRStreams := insert sid (sm_writableDSRStreams sm2)\<rparr> else sm2);
          sm4 = (if lossBuffer stream \<noteq> []
                 then sm3\<lparr>sm_lossStreams := insert sid (sm_lossStreams sm3)\<rparr> else sm3)
      in if lossBufMetas stream \<noteq> []
         then sm4\<lparr>sm_lossDSRStreams := insert sid (sm_lossDSRStreams sm4)\<rparr> else sm4)"

text \<open>Taking a stream out of the queue it is scheduled in.\<close>

definition dequeue_stream :: "QuicStreamState \<Rightarrow> QuicStreamManager \<Rightarrow> QuicStreamManager" where
  "dequeue_stream stream sm =
     (if isControl stream then sm\<lparr>sm_controlWriteQueue := sm_controlWriteQueue sm - {stream_id stream}\<rparr>
      else sm\<lparr>sm_writeQueue := pq_erase (stream_id stream) (sm_writeQueue sm)\<rparr>)"

definition removeWritable :: "QuicStreamState \<Rightarrow> QuicStreamManager \<Rightarrow> QuicStreamManager" where
  "removeWritable stream sm =
     (let sm1 = dequeue_stream stream sm; sid = stream_id stream
      in sm1\<lparr>sm_writableStreams := sm_writableStreams sm1 - {sid},
             sm_writableDSRStreams := sm_writableDSRStreams sm1 - {sid},
             sm_lossStreams := sm_lossStreams sm1 - {sid},
             sm_lossDSRStreams := sm_lossDSRStreams sm1 - {sid}\<rparr>)"

definition clearWritable :: "QuicStreamManager \<Rightarrow> QuicStreamManager" where
  "clearWritable sm =
     sm\<lparr>sm_writableStreams := {}, sm_writableDSRStreams := {},
        sm_writeQueue := pq_clear (sm_writeQueue sm), sm_controlWriteQueue := {}\<rparr>"

text \<open>\<^verbatim>\<open>emplace\<close> or \<^verbatim>\<open>erase\<close>, by a condition.\<close>

definition set_member :: "bool \<Rightarrow> StreamId \<Rightarrow> StreamId set \<Rightarrow> StreamId set" where
  "set_member b sid S = (if b then insert sid S else S - {sid})"

definition updateWritableStreams :: "QuicStreamState \<Rightarrow> QuicStreamManager \<Rightarrow> QuicStreamManager" where
  "updateWritableStreams stream sm =
     (let sid = stream_id stream
      in if streamWriteError stream \<noteq> None
         then let sm1 = removeWritable stream sm
              in dequeue_stream stream
                   (sm1\<lparr>sm_writableStreams := sm_writableStreams sm1 - {sid},
                        sm_writableDSRStreams := sm_writableDSRStreams sm1 - {sid},
                        sm_lossStreams := sm_lossStreams sm1 - {sid},
                        sm_lossDSRStreams := sm_lossDSRStreams sm1 - {sid}\<rparr>)
         else let sm1 = sm\<lparr>sm_writableStreams :=
                             set_member (hasWritableData stream) sid (sm_writableStreams sm),
                           sm_writableDSRStreams :=
                             set_member (hasWritableBufMeta stream) sid (sm_writableDSRStreams sm),
                           sm_lossStreams := set_member (lossBuffer stream \<noteq> []) sid (sm_lossStreams sm),
                           sm_lossDSRStreams :=
                             set_member (lossBufMetas stream \<noteq> []) sid (sm_lossDSRStreams sm)\<rparr>
              in if hasSchedulableData stream \<or> hasSchedulableDsr stream
                 then if isControl stream
                      then sm1\<lparr>sm_controlWriteQueue := insert sid (sm_controlWriteQueue sm1)\<rparr>
                      else sm1\<lparr>sm_writeQueue := insertOrUpdate sid (priority stream) (sm_writeQueue sm1)\<rparr>
                 else dequeue_stream stream sm1)"

text \<open>The head-of-line blocking clock of a stream, and the readable and peekable streams.\<close>

definition updateHolBlockedTime :: "TimePoint \<Rightarrow> QuicStreamState \<Rightarrow> QuicStreamState" where
  "updateHolBlockedTime now stream =
     (if readBuffer stream = [] \<or> currentReadOffset stream = sb_offset (hd (readBuffer stream))
      then case lastHolbTime stream of
             None \<Rightarrow> stream
           | Some since \<Rightarrow> stream\<lparr>totalHolbTime := totalHolbTime stream + (now - since), lastHolbTime := None\<rparr>
      else if lastHolbTime stream \<noteq> None then stream
      else stream\<lparr>lastHolbTime := Some now, holbCount := holbCount stream + 1\<rparr>)"

definition updateReadableStreams ::
    "TimePoint \<Rightarrow> QuicStreamState \<Rightarrow> QuicStreamManager \<Rightarrow> QuicStreamState \<times> QuicStreamManager" where
  "updateReadableStreams now stream sm =
     (let stream1 = updateHolBlockedTime now stream
      in (stream1, sm\<lparr>sm_readableStreams :=
            set_member (hasReadableData stream1 \<or> streamReadError stream1 \<noteq> None)
              (stream_id stream1) (sm_readableStreams sm)\<rparr>))"

definition updatePeekableStreams :: "QuicStreamState \<Rightarrow> QuicStreamManager \<Rightarrow> QuicStreamManager" where
  "updatePeekableStreams stream sm =
     sm\<lparr>sm_peekableStreams :=
       set_member (hasPeekableData stream \<or> streamReadError stream \<noteq> None)
         (stream_id stream) (sm_peekableStreams sm)\<rparr>"

definition queueBlocked :: "StreamId \<Rightarrow> u64 \<Rightarrow> QuicStreamManager \<Rightarrow> QuicStreamManager" where
  "queueBlocked streamId offset sm =
     (if sm_blockedStreams sm streamId \<noteq> None then sm
      else sm\<lparr>sm_blockedStreams :=
             (sm_blockedStreams sm)(streamId \<mapsto> StreamDataBlockedFrame streamId offset)\<rparr>)"

definition removeBlocked :: "StreamId \<Rightarrow> QuicStreamManager \<Rightarrow> QuicStreamManager" where
  "removeBlocked streamId sm = sm\<lparr>sm_blockedStreams := (sm_blockedStreams sm)(streamId := None)\<rparr>"

definition pendingWindowUpdate :: "StreamId \<Rightarrow> QuicStreamManager \<Rightarrow> bool" where
  "pendingWindowUpdate streamId sm \<longleftrightarrow> streamId \<in> sm_windowUpdates sm"

definition queueWindowUpdate :: "StreamId \<Rightarrow> QuicStreamManager \<Rightarrow> QuicStreamManager" where
  "queueWindowUpdate streamId sm = sm\<lparr>sm_windowUpdates := insert streamId (sm_windowUpdates sm)\<rparr>"

definition removeWindowUpdate :: "StreamId \<Rightarrow> QuicStreamManager \<Rightarrow> QuicStreamManager" where
  "removeWindowUpdate streamId sm = sm\<lparr>sm_windowUpdates := sm_windowUpdates sm - {streamId}\<rparr>"

definition addClosed :: "StreamId \<Rightarrow> QuicStreamManager \<Rightarrow> QuicStreamManager" where
  "addClosed streamId sm = sm\<lparr>sm_closedStreams := insert streamId (sm_closedStreams sm)\<rparr>"

definition addDeliverable :: "StreamId \<Rightarrow> QuicStreamManager \<Rightarrow> QuicStreamManager" where
  "addDeliverable streamId sm = sm\<lparr>sm_deliverableStreams := insert streamId (sm_deliverableStreams sm)\<rparr>"

definition removeDeliverable :: "StreamId \<Rightarrow> QuicStreamManager \<Rightarrow> QuicStreamManager" where
  "removeDeliverable streamId sm = sm\<lparr>sm_deliverableStreams := sm_deliverableStreams sm - {streamId}\<rparr>"

definition addTx :: "StreamId \<Rightarrow> QuicStreamManager \<Rightarrow> QuicStreamManager" where
  "addTx streamId sm = sm\<lparr>sm_txStreams := insert streamId (sm_txStreams sm)\<rparr>"

definition removeTx :: "StreamId \<Rightarrow> QuicStreamManager \<Rightarrow> QuicStreamManager" where
  "removeTx streamId sm = sm\<lparr>sm_txStreams := sm_txStreams sm - {streamId}\<rparr>"

definition queueFlowControlUpdated :: "StreamId \<Rightarrow> QuicStreamManager \<Rightarrow> QuicStreamManager" where
  "queueFlowControlUpdated streamId sm = sm\<lparr>sm_flowControlUpdated := insert streamId (sm_flowControlUpdated sm)\<rparr>"

definition removeFlowControlUpdated :: "StreamId \<Rightarrow> QuicStreamManager \<Rightarrow> QuicStreamManager" where
  "removeFlowControlUpdated streamId sm = sm\<lparr>sm_flowControlUpdated := sm_flowControlUpdated sm - {streamId}\<rparr>"

definition addStopSending :: "StreamId \<Rightarrow> ApplicationErrorCode \<Rightarrow> QuicStreamManager \<Rightarrow> QuicStreamManager" where
  "addStopSending streamId error sm =
     (if sm_stopSendingStreams sm streamId \<noteq> None then sm
      else sm\<lparr>sm_stopSendingStreams := (sm_stopSendingStreams sm)(streamId \<mapsto> error)\<rparr>)"

definition clearStopSending :: "QuicStreamManager \<Rightarrow> QuicStreamManager" where
  "clearStopSending sm = sm\<lparr>sm_stopSendingStreams := Map.empty\<rparr>"

text \<open>
  The first element of a hash set is what its iteration order makes it: the order is the
  argument \<open>first\<close>, which gives an element of every set that has one.
\<close>

definition pop_first :: "(StreamId set \<Rightarrow> StreamId) \<Rightarrow> StreamId set \<Rightarrow> StreamId option \<times> StreamId set" where
  "pop_first first S = (if S = {} then (None, S) else (Some (first S), S - {first S}))"

definition popDeliverable ::
    "(StreamId set \<Rightarrow> StreamId) \<Rightarrow> QuicStreamManager \<Rightarrow> StreamId option \<times> QuicStreamManager" where
  "popDeliverable first sm =
     (let (ret, S) = pop_first first (sm_deliverableStreams sm) in (ret, sm\<lparr>sm_deliverableStreams := S\<rparr>))"

definition popTx :: "(StreamId set \<Rightarrow> StreamId) \<Rightarrow> QuicStreamManager \<Rightarrow> StreamId option \<times> QuicStreamManager" where
  "popTx first sm =
     (let (ret, S) = pop_first first (sm_txStreams sm) in (ret, sm\<lparr>sm_txStreams := S\<rparr>))"

definition popFlowControlUpdated ::
    "(StreamId set \<Rightarrow> StreamId) \<Rightarrow> QuicStreamManager \<Rightarrow> StreamId option \<times> QuicStreamManager" where
  "popFlowControlUpdated first sm =
     (let (ret, S) = pop_first first (sm_flowControlUpdated sm) in (ret, sm\<lparr>sm_flowControlUpdated := S\<rparr>))"

text \<open>\<^verbatim>\<open>swapStreams\<close>: the collected streams, and an empty collection.\<close>

definition consumeNewPeerStreams :: "QuicStreamManager \<Rightarrow> StreamId list \<times> QuicStreamManager" where
  "consumeNewPeerStreams sm = (sm_newPeerStreams sm, sm\<lparr>sm_newPeerStreams := []\<rparr>)"

definition consumeNewGroupedPeerStreams :: "QuicStreamManager \<Rightarrow> StreamId list \<times> QuicStreamManager" where
  "consumeNewGroupedPeerStreams sm = (sm_newGroupedPeerStreams sm, sm\<lparr>sm_newGroupedPeerStreams := []\<rparr>)"

definition consumeNewPeerStreamGroups :: "QuicStreamManager \<Rightarrow> StreamGroupId set \<times> QuicStreamManager" where
  "consumeNewPeerStreamGroups sm = (sm_newPeerStreamGroups sm, sm\<lparr>sm_newPeerStreamGroups := {}\<rparr>)"

definition clearActionable :: "QuicStreamManager \<Rightarrow> QuicStreamManager" where
  "clearActionable sm =
     sm\<lparr>sm_deliverableStreams := {}, sm_txStreams := {}, sm_readableStreams := {},
        sm_peekableStreams := {}, sm_flowControlUpdated := {}\<rparr>"

definition clearOpenStreams :: "QuicStreamManager \<Rightarrow> QuicStreamManager" where
  "clearOpenStreams sm =
     sm\<lparr>sm_openBidirectionalLocalStreams := {}, sm_openUnidirectionalLocalStreams := {},
        sm_openBidirectionalPeerStreams := {}, sm_openUnidirectionalPeerStreams := {},
        sm_openBidirectionalLocalStreamGroups := {}, sm_openUnidirectionalLocalStreamGroups := {},
        sm_peerStreamGroupsSeen := {}, sm_streams := Map.empty\<rparr>"

section \<open>Priorities and control streams\<close>

definition setStreamPriority :: "StreamId \<Rightarrow> Priority \<Rightarrow> QuicStreamManager \<Rightarrow> (bool \<times> QuicStreamManager) result" where
  "setStreamPriority sid newPriority sm =
     (case findStream sid sm of
        None \<Rightarrow> Inr (False, sm)
      | Some stream \<Rightarrow>
          if priority stream = newPriority then Inr (False, sm)
          else let sm1 = sm\<lparr>sm_streams := (sm_streams sm)(sid \<mapsto> stream\<lparr>priority := newPriority\<rparr>)\<rparr>
               in and_then
                    (if \<not> isControl stream
                     then if sm_streamPriorityLevelsNoCtrl sm1 sid = None
                          then Inl (QuicTransportException STREAM_STATE_ERROR)
                          else Inr (sm1\<lparr>sm_streamPriorityLevelsNoCtrl :=
                                 (sm_streamPriorityLevelsNoCtrl sm1)(sid \<mapsto> pri_level newPriority)\<rparr>)
                     else Inr sm1)
                    (\<lambda>sm2. Inr (True, sm2\<lparr>sm_writeQueue := updateIfExist sid newPriority (sm_writeQueue sm2)\<rparr>)))"

definition setStreamAsControl ::
    "TimePoint \<Rightarrow> QuicStreamState \<Rightarrow> QuicConnectionState \<Rightarrow> QuicStreamState \<times> QuicConnectionState" where
  "setStreamAsControl now stream conn =
     (if isControl stream then (stream, updateAppIdleState now conn)
      else let stream1 = stream\<lparr>isControl := True\<rparr>
           in (stream1, updateAppIdleState now
                 (on_sm (\<lambda>sm. put_stream stream1
                    (sm\<lparr>sm_numControlStreams := sm_numControlStreams sm + 1,
                        sm_streamPriorityLevelsNoCtrl :=
                          (sm_streamPriorityLevelsNoCtrl sm)(stream_id stream := None)\<rparr>)) conn)))"

text \<open>The least level of the map, or the default; the loop stops early at level 0.\<close>

definition getHighestPriorityLevel :: "QuicStreamManager \<Rightarrow> u8" where
  "getHighestPriorityLevel sm = Min (insert 7 (ran (sm_streamPriorityLevelsNoCtrl sm)))"

section \<open>Removing a closed stream\<close>

definition forget_stream :: "QuicStreamState \<Rightarrow> QuicStreamManager \<Rightarrow> QuicStreamManager" where
  "forget_stream stream sm =
     (let sid = stream_id stream;
          sm1 = removeWritable stream (sm\<lparr>sm_readableStreams := sm_readableStreams sm - {sid},
                                          sm_peekableStreams := sm_peekableStreams sm - {sid}\<rparr>)
      in sm1\<lparr>sm_blockedStreams := (sm_blockedStreams sm1)(sid := None),
             sm_deliverableStreams := sm_deliverableStreams sm1 - {sid},
             sm_txStreams := sm_txStreams sm1 - {sid},
             sm_windowUpdates := sm_windowUpdates sm1 - {sid},
             sm_stopSendingStreams := (sm_stopSendingStreams sm1)(sid := None),
             sm_flowControlUpdated := sm_flowControlUpdated sm1 - {sid}\<rparr>)"

text \<open>
  The credit of the peer after one of its streams is closed: a stream limit update is due
  when the streams closed since the last one reach the window. A fraction of zero, which
  the setter refuses, would divide by zero.
\<close>

definition stream_credit :: "TransportSettings \<Rightarrow> StreamId \<Rightarrow> QuicStreamManager \<Rightarrow> (u64 \<times> u64) result" where
  "stream_credit settings streamId sm =
     (let isUni = isUnidirectionalStream streamId;
          initialStreamLimit = (if isUni then advertisedInitialMaxStreamsUni settings
                                else advertisedInitialMaxStreamsBidi settings)
      in if sm_streamLimitWindowingFraction sm = 0 then Inl undefined_behaviour
         else and_then (if isUni then openableRemoteUnidirectionalStreams sm
                        else Inr (openableRemoteBidirectionalStreams sm))
                (\<lambda>openableRemoteStreams.
                   Inr (initialStreamLimit div sm_streamLimitWindowingFraction sm,
                        initialStreamLimit - openableRemoteStreams
                          - of_nat (card (openPeerStreams streamId sm)))))"

definition update_remote_limit ::
    "TransportSettings \<Rightarrow> StreamId \<Rightarrow> QuicStreamManager \<Rightarrow> QuicStreamManager result" where
  "update_remote_limit settings streamId sm =
     and_then (stream_credit settings streamId sm)
       (\<lambda>(streamWindow, streamCredit).
          if streamCredit \<ge> streamWindow
          then if isUnidirectionalStream streamId
               then let maxStreams = (sm_maxRemoteUnidirectionalStreamId sm
                          - sm_initialRemoteUnidirectionalStreamId sm) div kStreamIncrement
                    in and_then (setMaxRemoteUnidirectionalStreams (maxStreams + streamCredit) sm)
                         (\<lambda>sm1. Inr (sm1\<lparr>sm_remoteUnidirectionalStreamLimitUpdate :=
                            Some (maxStreams + streamCredit)\<rparr>))
               else let maxStreams = (sm_maxRemoteBidirectionalStreamId sm
                          - sm_initialRemoteBidirectionalStreamId sm) div kStreamIncrement
                    in and_then (setMaxRemoteBidirectionalStreams (maxStreams + streamCredit) sm)
                         (\<lambda>sm1. Inr (sm1\<lparr>sm_remoteBidirectionalStreamLimitUpdate :=
                            Some (maxStreams + streamCredit)\<rparr>))
          else Inr sm)"

definition removeClosedStream :: "TimePoint \<Rightarrow> StreamId \<Rightarrow> QuicConnectionState \<Rightarrow> QuicConnectionState result" where
  "removeClosedStream now streamId conn =
     (case sm_streams (streamManager conn) streamId of
        None \<Rightarrow> Inr conn
      | Some stream \<Rightarrow>
          let sm1 = forget_stream stream (streamManager conn)
          in and_then
               (if \<not> isControl stream
                then if sm_streamPriorityLevelsNoCtrl sm1 streamId = None
                     then Inl (QuicTransportException STREAM_STATE_ERROR)
                     else Inr (sm1\<lparr>sm_streamPriorityLevelsNoCtrl :=
                            (sm_streamPriorityLevelsNoCtrl sm1)(streamId := None)\<rparr>)
                else Inr (sm1\<lparr>sm_numControlStreams := sm_numControlStreams sm1 - 1\<rparr>))
               (\<lambda>sm2. let sm3 = sm2\<lparr>sm_streams := (sm_streams sm2)(streamId := None)\<rparr>
                     in and_then
                          (if isRemoteStream (sm_nodeType sm3) streamId
                           then update_remote_limit (transportSettings conn) streamId
                                  (set_openPeerStreams streamId (openPeerStreams streamId sm3 - {streamId}) sm3)
                           else Inr (set_openLocalStreams streamId (openLocalStreams streamId sm3 - {streamId}) sm3))
                          (\<lambda>sm4. Inr (updateAppIdleState now (conn\<lparr>streamManager := sm4\<rparr>)))))"

end
