(* ===== verification/Stream_Opening.thy ===== *)
theory Stream_Opening
  imports Stream_Manager
begin

text \<open>
  What the stream manager guarantees about opening and closing streams: the loop that opens
  skipped streams, the invariant of the manager (streams with state are open, open streams
  have been seen, the priority map covers the streams that are not control streams), that
  every operation keeps it, what each branch of opening a stream of the peer does, and the
  limit on concurrently open streams.
\<close>

section \<open>The loop over skipped streams\<close>

lemma unat_plus4: "unat s + 4 < 2 ^ 64 \<Longrightarrow> unat (s + 4 :: u64) = unat s + 4"
  by (simp add: unat_word_ariths)

text \<open>The streams of one kind from \<open>start\<close> up to \<open>streamId\<close>.\<close>

definition class_range :: "StreamId \<Rightarrow> StreamId \<Rightarrow> StreamId set" where
  "class_range start streamId = {s. start \<le> s \<and> s \<le> streamId \<and> stream_class s = stream_class start}"

lemma class_range_empty: "\<not> start \<le> streamId \<Longrightarrow> class_range start streamId = {}"
  by (auto simp: class_range_def)

lemma mod4_diff:
  assumes "n \<le> m" and "m mod 4 = n mod (4 :: nat)"
  obtains k where "m = n + 4 * k"
proof -
  have "4 dvd m - n" using assms by (simp add: mod_eq_dvd_iff_nat)
  then obtain k where "m - n = 4 * k" by (elim dvdE)
  then have "m = n + 4 * k" using assms(1) by simp
  then show thesis by (rule that)
qed

lemma mod4_next:
  "n \<le> m \<and> m mod 4 = n mod 4 \<longleftrightarrow> m = n \<or> (n + 4 \<le> m \<and> m mod 4 = (n + 4) mod (4 :: nat))"
proof (intro iffI)
  assume "n \<le> m \<and> m mod 4 = n mod 4"
  moreover from this obtain k where "m = n + 4 * k" using mod4_diff by blast
  ultimately show "m = n \<or> (n + 4 \<le> m \<and> m mod 4 = (n + 4) mod 4)" by (cases k) auto
qed auto

lemma class_range_step:
  assumes "start \<le> streamId" and "unat streamId + 4 < 2 ^ 64"
  shows "class_range start streamId = insert start (class_range (start + 4) streamId)"
proof -
  have n: "unat (start + 4) = unat start + 4"
    using assms by (intro unat_plus4) (simp add: word_le_nat_alt)
  have "s \<in> class_range start streamId \<longleftrightarrow> s = start \<or> s \<in> class_range (start + 4) streamId" for s
    using assms(1) mod4_next [of "unat start" "unat s"]
    by (auto simp: class_range_def word_le_nat_alt n stream_class_def word_unat_eq_iff)
  then show ?thesis by auto
qed

lemma open_streams_loop_opens:
  assumes "unat streamId + 4 < 2 ^ 64"
  shows "\<exists>l. open_streams_loop streamId start S news =
            Some (S \<union> class_range start streamId, map_option (\<lambda>ids. ids @ l) news)
          \<and> set l = class_range start streamId \<and> sorted_wrt (<) l"
proof (induction "unat streamId + 4 - unat start" arbitrary: start S news rule: less_induct)
  case less
  show ?case
  proof (cases "start \<le> streamId")
    case False
    then show ?thesis
      by (subst open_streams_loop.simps) (simp add: class_range_empty option.map_ident)
  next
    case True
    have n: "unat (start + 4) = unat start + 4"
      using assms True by (intro unat_plus4) (simp add: word_le_nat_alt)
    have "unat streamId + 4 - unat (start + 4) < unat streamId + 4 - unat start"
      using True n by (simp add: word_le_nat_alt)
    from less [OF this, of "insert start S" "map_option (\<lambda>ids. ids @ [start]) news"]
    obtain l where l: "open_streams_loop streamId (start + 4) (insert start S) (map_option (\<lambda>ids. ids @ [start]) news) =
        Some (insert start S \<union> class_range (start + 4) streamId,
              map_option (\<lambda>ids. ids @ l) (map_option (\<lambda>ids. ids @ [start]) news))"
      and set: "set l = class_range (start + 4) streamId" and sorted: "sorted_wrt (<) l" by blast
    have "\<forall>s \<in> set l. start < s"
      unfolding set using n by (auto simp: class_range_def word_le_nat_alt word_less_nat_alt)
    then have "sorted_wrt (<) (start # l)" using sorted by simp
    moreover have "open_streams_loop streamId start S news =
        Some (S \<union> class_range start streamId, map_option (\<lambda>ids. ids @ (start # l)) news)"
      using True l class_range_step [OF True assms]
      by (subst open_streams_loop.simps) (simp add: option.map_comp comp_def)
    ultimately show ?thesis using set class_range_step [OF True assms] by (intro exI [of _ "start # l"]) simp
  qed
qed


section \<open>The invariant\<close>

text \<open>
  One kind of streams: the next acceptable identifier and the open streams are of the kind,
  open streams lie below the next one, and the numbers stay far from the wrap-around.
\<close>

definition kind_inv :: "nat \<Rightarrow> StreamId \<Rightarrow> StreamId \<Rightarrow> StreamId set \<Rightarrow> bool" where
  "kind_inv k next maxId opened \<longleftrightarrow>
     stream_class next = k \<and> unat next < 2 ^ 63 \<and> unat maxId \<le> 2 ^ 62 + 3
   \<and> (\<forall>s \<in> opened. stream_class s = k \<and> s < next)"

definition peer_inv :: "QuicStreamManager \<Rightarrow> bool" where
  "peer_inv sm \<longleftrightarrow> (\<forall>sid. isRemoteStream (sm_nodeType sm) sid \<longrightarrow>
     kind_inv (stream_class sid) (nextAcceptablePeer sid sm) (maxRemoteStreamId sid sm) (openPeerStreams sid sm))"

definition local_inv :: "QuicStreamManager \<Rightarrow> bool" where
  "local_inv sm \<longleftrightarrow> (\<forall>sid. isLocalStream (sm_nodeType sm) sid \<longrightarrow>
     kind_inv (stream_class sid) (nextAcceptableLocal sid sm) (maxLocalStreamId sid sm) (openLocalStreams sid sm))"

definition streams_inv :: "QuicStreamManager \<Rightarrow> bool" where
  "streams_inv sm \<longleftrightarrow> (\<forall>sid s. sm_streams sm sid = Some s \<longrightarrow> stream_id s = sid \<and> streamExists sid sm)"

definition control_streams :: "QuicStreamManager \<Rightarrow> StreamId set" where
  "control_streams sm = {sid. \<exists>s. sm_streams sm sid = Some s \<and> isControl s}"

definition priority_inv :: "QuicStreamManager \<Rightarrow> bool" where
  "priority_inv sm \<longleftrightarrow> dom (sm_streamPriorityLevelsNoCtrl sm) = dom (sm_streams sm) - control_streams sm
   \<and> unat (sm_numControlStreams sm) = card (control_streams sm)"

definition initial_inv :: "QuicStreamManager \<Rightarrow> bool" where
  "initial_inv sm \<longleftrightarrow>
     (let l = (if sm_nodeType sm = Server then 1 else 0); r = (if sm_nodeType sm = Server then 0 else 1)
      in sm_initialLocalBidirectionalStreamId sm = l \<and> sm_initialLocalUnidirectionalStreamId sm = l + 2
       \<and> sm_initialRemoteBidirectionalStreamId sm = r \<and> sm_initialRemoteUnidirectionalStreamId sm = r + 2
       \<and> stream_class (sm_nextBidirectionalStreamId sm) = unat l
       \<and> stream_class (sm_nextUnidirectionalStreamId sm) = unat l + 2
       \<and> sm_streamLimitWindowingFraction sm \<noteq> 0)"

definition sm_inv :: "QuicStreamManager \<Rightarrow> bool" where
  "sm_inv sm \<longleftrightarrow> initial_inv sm \<and> peer_inv sm \<and> local_inv sm \<and> streams_inv sm \<and> priority_inv sm"

lemmas sm_inv_defs = sm_inv_def initial_inv_def peer_inv_def local_inv_def streams_inv_def
  priority_inv_def control_streams_def

lemmas kind_accessors = openPeerStreams_def openLocalStreams_def nextAcceptablePeer_def
  nextAcceptableLocal_def maxRemoteStreamId_def maxLocalStreamId_def

text \<open>The members that the invariant and the accessors depend on.\<close>

definition sm_core where
  "sm_core sm =
     (sm_nodeType sm, sm_streams sm, sm_streamPriorityLevelsNoCtrl sm, sm_numControlStreams sm,
      (sm_nextAcceptablePeerBidirectionalStreamId sm, sm_nextAcceptablePeerUnidirectionalStreamId sm,
       sm_nextAcceptableLocalBidirectionalStreamId sm, sm_nextAcceptableLocalUnidirectionalStreamId sm),
      (sm_maxRemoteBidirectionalStreamId sm, sm_maxRemoteUnidirectionalStreamId sm,
       sm_maxLocalBidirectionalStreamId sm, sm_maxLocalUnidirectionalStreamId sm),
      (sm_openBidirectionalPeerStreams sm, sm_openUnidirectionalPeerStreams sm,
       sm_openBidirectionalLocalStreams sm, sm_openUnidirectionalLocalStreams sm),
      (sm_initialRemoteBidirectionalStreamId sm, sm_initialRemoteUnidirectionalStreamId sm,
       sm_initialLocalBidirectionalStreamId sm, sm_initialLocalUnidirectionalStreamId sm),
      sm_nextBidirectionalStreamId sm, sm_nextUnidirectionalStreamId sm, sm_streamLimitWindowingFraction sm)"

lemma core_eq:
  assumes "sm_core a = sm_core b"
  shows "sm_nodeType a = sm_nodeType b" "sm_streams a = sm_streams b"
    "openPeerStreams t a = openPeerStreams t b" "openLocalStreams t a = openLocalStreams t b"
    "nextAcceptablePeer t a = nextAcceptablePeer t b" "nextAcceptableLocal t a = nextAcceptableLocal t b"
    "maxRemoteStreamId t a = maxRemoteStreamId t b" "maxLocalStreamId t a = maxLocalStreamId t b"
    "streamExists t a = streamExists t b" "priority_inv a = priority_inv b" "initial_inv a = initial_inv b"
  using assms
  by (simp_all add: sm_core_def kind_accessors streamExists_def priority_inv_def control_streams_def initial_inv_def)

lemma core_inv: "sm_core a = sm_core b \<Longrightarrow> sm_inv a = sm_inv b"
  by (simp add: sm_inv_def peer_inv_def local_inv_def streams_inv_def core_eq [of a b])

lemma QuicStreamState_make_simps [simp]:
  "stream_id (QuicStreamState_make sid conn) = sid"
  "isControl (QuicStreamState_make sid conn) = False"
  "stream_id (QuicStreamState_make_group sid grp conn) = sid"
  "isControl (QuicStreamState_make_group sid grp conn) = False"
  by (simp_all add: QuicStreamState_make_def QuicStreamState_make_group_def QuicStreamLike.extend_def Let_def)

text \<open>A new state for an open stream that has none.\<close>

definition add_new :: "QuicStreamState \<Rightarrow> QuicStreamManager \<Rightarrow> QuicStreamManager" where
  "add_new s sm = sm\<lparr>sm_streams := (sm_streams sm)(stream_id s \<mapsto> s),
     sm_streamPriorityLevelsNoCtrl :=
       (sm_streamPriorityLevelsNoCtrl sm)(stream_id s \<mapsto> pri_level (priority s))\<rparr>"

lemma add_new_simps [simp]:
  "sm_nodeType (add_new s sm) = sm_nodeType sm"
  "openPeerStreams t (add_new s sm) = openPeerStreams t sm"
  "openLocalStreams t (add_new s sm) = openLocalStreams t sm"
  "nextAcceptablePeer t (add_new s sm) = nextAcceptablePeer t sm"
  "nextAcceptableLocal t (add_new s sm) = nextAcceptableLocal t sm"
  "maxRemoteStreamId t (add_new s sm) = maxRemoteStreamId t sm"
  "maxLocalStreamId t (add_new s sm) = maxLocalStreamId t sm"
  "streamExists t (add_new s sm) = streamExists t sm"
  by (simp_all add: add_new_def kind_accessors streamExists_def)

lemma streamExists_mono:
  assumes "streamExists t sm" and "sm_nodeType sm' = sm_nodeType sm"
    and "openPeerStreams t sm \<subseteq> openPeerStreams t sm'" and "openLocalStreams t sm \<subseteq> openLocalStreams t sm'"
  shows "streamExists t sm'"
  using assms by (auto simp: streamExists_def split: if_splits)

lemma emplace_new:
  assumes "priority_inv sm" and "sm_streams sm (stream_id s) = None" and "\<not> isControl s"
  shows "emplace_stream s sm = (s, put_stream s sm)"
    and "addToStreamPriorityMap s (put_stream s sm) = Inr (add_new s sm)"
proof -
  show "emplace_stream s sm = (s, put_stream s sm)" using assms(2) by (simp add: emplace_stream_def)
  have "stream_id s \<notin> dom (sm_streamPriorityLevelsNoCtrl sm)"
    using assms(1,2) by (auto simp: priority_inv_def)
  then show "addToStreamPriorityMap s (put_stream s sm) = Inr (add_new s sm)"
    using assms(3) by (auto simp: addToStreamPriorityMap_def put_stream_def add_new_def)
qed

lemma initial_inv_add_new [simp]: "initial_inv (add_new s sm) = initial_inv sm"
  by (simp add: initial_inv_def add_new_def)

lemma inv_add_new:
  assumes inv: "sm_inv sm" and new: "sm_streams sm (stream_id s) = None" "\<not> isControl s"
    and "open": "streamExists (stream_id s) sm"
  shows "sm_inv (add_new s sm)"
proof -
  have c: "control_streams (add_new s sm) = control_streams sm"
    using new by (auto simp: control_streams_def add_new_def)
  have "priority_inv (add_new s sm)"
    using inv new c by (auto simp: sm_inv_def priority_inv_def control_streams_def add_new_def)
  moreover have "streams_inv (add_new s sm)"
    using inv "open" by (simp add: sm_inv_def streams_inv_def) (simp add: add_new_def)
  moreover have "initial_inv (add_new s sm)" "peer_inv (add_new s sm)" "local_inv (add_new s sm)"
    using inv by (simp_all add: sm_inv_def peer_inv_def local_inv_def)
  ultimately show ?thesis using inv by (simp add: sm_inv_def)
qed

text \<open>Opening every stream of a kind up to one that is acceptable.\<close>

definition open_peer :: "StreamId \<Rightarrow> QuicStreamManager \<Rightarrow> QuicStreamManager" where
  "open_peer sid sm = set_nextAcceptablePeer sid (sid + 4)
     (set_openPeerStreams sid (openPeerStreams sid sm \<union> class_range (nextAcceptablePeer sid sm) sid) sm)"

definition open_local :: "StreamId \<Rightarrow> QuicStreamManager \<Rightarrow> QuicStreamManager" where
  "open_local sid sm = set_nextAcceptableLocal sid (sid + 4)
     (set_openLocalStreams sid (openLocalStreams sid sm \<union> class_range (nextAcceptableLocal sid sm) sid) sm)"

lemma kind_inv_open:
  assumes "kind_inv k next maxId opened" and "next \<le> sid" and "sid < maxId" and "stream_class sid = k"
  shows "kind_inv k (sid + 4) maxId (opened \<union> class_range next sid)"
    and "unat (sid + 4) = unat sid + 4" and "unat sid + 4 < 2 ^ 64"
proof -
  have lt: "unat sid < 2 ^ 62 + 3"
    using assms by (simp add: kind_inv_def word_less_nat_alt)
  then show n: "unat sid + 4 < 2 ^ 64" by simp
  then show n4: "unat (sid + 4) = unat sid + 4" by (rule unat_plus4)
  have "stream_class (sid + 4) = k" using assms(4) n4 by (simp add: stream_class_def)
  moreover have "stream_class s = k \<and> s < sid + 4" if "s \<in> opened \<union> class_range next sid" for s
    using that assms n4 by (auto simp: kind_inv_def class_range_def word_less_nat_alt word_le_nat_alt)
  ultimately show "kind_inv k (sid + 4) maxId (opened \<union> class_range next sid)"
    using assms(1) lt n4 by (simp add: kind_inv_def)
qed

lemma class_predicates:
  "isUnidirectionalStream s \<longleftrightarrow> stream_class s \<in> {2, 3}"
  "isRemoteStream n s \<longleftrightarrow> stream_class s \<in> (if n = Client then {1, 3} else {0, 2})"
  "isLocalStream n s \<longleftrightarrow> stream_class s \<in> (if n = Client then {0, 2} else {1, 3})"
  using class_cases [of s] by (cases n; simp add: stream_bits stream_class_def; force)+

lemma same_direction:
  "isRemoteStream n s \<Longrightarrow> isRemoteStream n t \<Longrightarrow> isUnidirectionalStream s = isUnidirectionalStream t
    \<longleftrightarrow> stream_class s = stream_class t"
  "isLocalStream n s \<Longrightarrow> isLocalStream n t \<Longrightarrow> isUnidirectionalStream s = isUnidirectionalStream t
    \<longleftrightarrow> stream_class s = stream_class t"
  by (cases n; auto simp: class_predicates)+

lemma open_peer_simps [simp]:
  "sm_nodeType (open_peer sid sm) = sm_nodeType sm"
  "sm_streams (open_peer sid sm) = sm_streams sm"
  "openPeerStreams sid (open_peer sid sm) = openPeerStreams sid sm \<union> class_range (nextAcceptablePeer sid sm) sid"
  "nextAcceptablePeer sid (open_peer sid sm) = sid + 4"
  "openLocalStreams t (open_peer sid sm) = openLocalStreams t sm"
  "nextAcceptableLocal t (open_peer sid sm) = nextAcceptableLocal t sm"
  "maxRemoteStreamId t (open_peer sid sm) = maxRemoteStreamId t sm"
  "maxLocalStreamId t (open_peer sid sm) = maxLocalStreamId t sm"
  by (simp_all add: open_peer_def set_nextAcceptablePeer_def set_openPeerStreams_def kind_accessors)

lemma open_local_simps [simp]:
  "sm_nodeType (open_local sid sm) = sm_nodeType sm"
  "sm_streams (open_local sid sm) = sm_streams sm"
  "openLocalStreams sid (open_local sid sm) = openLocalStreams sid sm \<union> class_range (nextAcceptableLocal sid sm) sid"
  "nextAcceptableLocal sid (open_local sid sm) = sid + 4"
  "openPeerStreams t (open_local sid sm) = openPeerStreams t sm"
  "nextAcceptablePeer t (open_local sid sm) = nextAcceptablePeer t sm"
  "maxRemoteStreamId t (open_local sid sm) = maxRemoteStreamId t sm"
  "maxLocalStreamId t (open_local sid sm) = maxLocalStreamId t sm"
  by (simp_all add: open_local_def set_nextAcceptableLocal_def set_openLocalStreams_def kind_accessors)

lemma open_peer_frame [simp]:
  "initial_inv (open_peer sid sm) = initial_inv sm"
  "priority_inv (open_peer sid sm) = priority_inv sm"
  by (simp_all add: initial_inv_def priority_inv_def control_streams_def open_peer_def
      set_nextAcceptablePeer_def set_openPeerStreams_def)

lemma open_peer_other:
  assumes "isUnidirectionalStream t \<noteq> isUnidirectionalStream sid"
  shows "openPeerStreams t (open_peer sid sm) = openPeerStreams t sm"
    and "nextAcceptablePeer t (open_peer sid sm) = nextAcceptablePeer t sm"
  using assms
  by (auto simp: open_peer_def set_nextAcceptablePeer_def set_openPeerStreams_def kind_accessors)

lemma open_local_frame [simp]:
  "initial_inv (open_local sid sm) = initial_inv sm"
  "priority_inv (open_local sid sm) = priority_inv sm"
  by (simp_all add: initial_inv_def priority_inv_def control_streams_def open_local_def
      set_nextAcceptableLocal_def set_openLocalStreams_def)

lemma open_local_other:
  assumes "isUnidirectionalStream t \<noteq> isUnidirectionalStream sid"
  shows "openLocalStreams t (open_local sid sm) = openLocalStreams t sm"
    and "nextAcceptableLocal t (open_local sid sm) = nextAcceptableLocal t sm"
  using assms
  by (auto simp: open_local_def set_nextAcceptableLocal_def set_openLocalStreams_def kind_accessors)

lemma accessors_same_direction:
  assumes "isUnidirectionalStream t = isUnidirectionalStream sid"
  shows "openPeerStreams t sm = openPeerStreams sid sm" "nextAcceptablePeer t sm = nextAcceptablePeer sid sm"
    "openLocalStreams t sm = openLocalStreams sid sm" "nextAcceptableLocal t sm = nextAcceptableLocal sid sm"
    "maxRemoteStreamId t sm = maxRemoteStreamId sid sm" "maxLocalStreamId t sm = maxLocalStreamId sid sm"
  using assms by (simp_all add: kind_accessors)

lemma openPeerStreams_grow: "openPeerStreams t sm \<subseteq> openPeerStreams t (open_peer sid sm)"
  using open_peer_other(1) [of t sid sm] accessors_same_direction(1) [of t sid]
  by (cases "isUnidirectionalStream t = isUnidirectionalStream sid") auto

lemma openLocalStreams_grow: "openLocalStreams t sm \<subseteq> openLocalStreams t (open_local sid sm)"
  using open_local_other(1) [of t sid sm] accessors_same_direction(3) [of t sid]
  by (cases "isUnidirectionalStream t = isUnidirectionalStream sid") auto

lemma inv_open_peer:
  assumes inv: "sm_inv sm" and remote: "isRemoteStream (sm_nodeType sm) sid"
    and bounds: "nextAcceptablePeer sid sm \<le> sid" "sid < maxRemoteStreamId sid sm"
  shows "sm_inv (open_peer sid sm)"
proof -
  have k: "kind_inv (stream_class sid) (nextAcceptablePeer sid sm) (maxRemoteStreamId sid sm) (openPeerStreams sid sm)"
    using inv remote by (simp add: sm_inv_def peer_inv_def)
  have "kind_inv (stream_class t) (nextAcceptablePeer t (open_peer sid sm)) (maxRemoteStreamId t sm)
          (openPeerStreams t (open_peer sid sm))" if t: "isRemoteStream (sm_nodeType sm) t" for t
  proof (cases "isUnidirectionalStream t = isUnidirectionalStream sid")
    case True
    then show ?thesis
      using kind_inv_open(1) [OF k bounds refl] same_direction(1) [OF t remote]
      by (simp add: accessors_same_direction [OF True])
  next
    case False
    then show ?thesis using inv t by (simp add: open_peer_other sm_inv_def peer_inv_def)
  qed
  then have "peer_inv (open_peer sid sm)" by (simp add: peer_inv_def)
  moreover have "streams_inv (open_peer sid sm)"
    using inv streamExists_mono [OF _ _ openPeerStreams_grow, of _ sm sid]
    by (simp add: sm_inv_def streams_inv_def)
  moreover have "local_inv (open_peer sid sm)" using inv by (simp add: sm_inv_def local_inv_def)
  ultimately show ?thesis using inv by (simp add: sm_inv_def)
qed

lemma inv_open_local:
  assumes inv: "sm_inv sm" and loc: "isLocalStream (sm_nodeType sm) sid"
    and bounds: "nextAcceptableLocal sid sm \<le> sid" "sid < maxLocalStreamId sid sm"
  shows "sm_inv (open_local sid sm)"
proof -
  have k: "kind_inv (stream_class sid) (nextAcceptableLocal sid sm) (maxLocalStreamId sid sm) (openLocalStreams sid sm)"
    using inv loc by (simp add: sm_inv_def local_inv_def)
  have "kind_inv (stream_class t) (nextAcceptableLocal t (open_local sid sm)) (maxLocalStreamId t sm)
          (openLocalStreams t (open_local sid sm))" if t: "isLocalStream (sm_nodeType sm) t" for t
  proof (cases "isUnidirectionalStream t = isUnidirectionalStream sid")
    case True
    then show ?thesis
      using kind_inv_open(1) [OF k bounds refl] same_direction(2) [OF t loc]
      by (simp add: accessors_same_direction [OF True])
  next
    case False
    then show ?thesis using inv t by (simp add: open_local_other sm_inv_def local_inv_def)
  qed
  then have "local_inv (open_local sid sm)" by (simp add: local_inv_def)
  moreover have "streams_inv (open_local sid sm)"
    using inv streamExists_mono [OF _ _ _ openLocalStreams_grow, of _ sm sid]
    by (simp add: sm_inv_def streams_inv_def)
  moreover have "peer_inv (open_local sid sm)" using inv by (simp add: sm_inv_def peer_inv_def)
  ultimately show ?thesis using inv by (simp add: sm_inv_def)
qed

section \<open>Opening a stream of the peer\<close>

lemma note_core: "sm_core (note_new_peer_stream settings sid grp sm) = sm_core sm"
  by (simp add: note_new_peer_stream_def Let_def sm_core_def split: option.split)

lemma set_new_streams_core: "sm_core (set_new_streams grp news sm) = sm_core sm"
  by (simp add: set_new_streams_def sm_core_def split: option.split)

lemmas note_frame [simp] = core_inv [OF note_core] core_eq [OF note_core]
lemmas set_new_streams_frame [simp] = core_inv [OF set_new_streams_core] core_eq [OF set_new_streams_core]

text \<open>The streams of a connection after a state was added for one of them.\<close>

lemma instantiatePeerStream_adds:
  assumes inv: "sm_inv (streamManager conn)" and "sm_streams (streamManager conn) sid = None"
    and "streamExists sid (streamManager conn)"
  obtains s sm where "instantiatePeerStream sid grp conn = Inr (Some s, conn\<lparr>streamManager := sm\<rparr>)"
    and "s = QuicStreamState_make_group sid grp conn"
    and "sm_inv sm" and "sm_streams sm = (sm_streams (streamManager conn))(sid \<mapsto> s)"
    and "\<And>t. openPeerStreams t sm = openPeerStreams t (streamManager conn)"
    and "\<And>t. nextAcceptablePeer t sm = nextAcceptablePeer t (streamManager conn)"
    and "\<And>t. maxRemoteStreamId t sm = maxRemoteStreamId t (streamManager conn)"
    and "sm_nodeType sm = sm_nodeType (streamManager conn)"
proof -
  let ?s = "QuicStreamState_make_group sid grp conn"
    and ?sm = "note_new_peer_stream (transportSettings conn) sid grp (streamManager conn)"
  have sm: "sm_inv ?sm" "sm_streams ?sm (stream_id ?s) = None" "streamExists (stream_id ?s) ?sm"
    using assms by simp_all
  then have "priority_inv ?sm" by (simp add: sm_inv_def)
  from emplace_new [OF this sm(2)]
  have "instantiatePeerStream sid grp conn = Inr (Some ?s, conn\<lparr>streamManager := add_new ?s ?sm\<rparr>)"
    by (simp add: instantiatePeerStream_def and_then_def)
  moreover have "sm_streams (add_new ?s ?sm) = (sm_streams (streamManager conn))(sid \<mapsto> ?s)"
    by (simp add: add_new_def)
  ultimately show thesis using that inv_add_new [OF sm(1,2) _ sm(3)] by simp
qed

lemma peer_kind:
  "sm_inv sm \<Longrightarrow> isRemoteStream (sm_nodeType sm) sid \<Longrightarrow>
    kind_inv (stream_class sid) (nextAcceptablePeer sid sm) (maxRemoteStreamId sid sm) (openPeerStreams sid sm)"
  by (simp add: sm_inv_def peer_inv_def)

lemma local_kind:
  "sm_inv sm \<Longrightarrow> isLocalStream (sm_nodeType sm) sid \<Longrightarrow>
    kind_inv (stream_class sid) (nextAcceptableLocal sid sm) (maxLocalStreamId sid sm) (openLocalStreams sid sm)"
  by (simp add: sm_inv_def local_inv_def)

lemma remote_exists: "isRemoteStream (sm_nodeType sm) sid \<Longrightarrow> streamExists sid sm \<longleftrightarrow> sid \<in> openPeerStreams sid sm"
  by (simp add: streamExists_def local_or_remote)

lemma self_in_range: "next \<le> sid \<Longrightarrow> stream_class next = stream_class sid \<Longrightarrow> sid \<in> class_range next sid"
  by (simp add: class_range_def)

text \<open>The branch that opens new streams.\<close>

lemma openPeerStreamIfNotClosed_opens:
  assumes inv: "sm_inv sm" and remote: "isRemoteStream (sm_nodeType sm) sid"
    and bounds: "nextAcceptablePeer sid sm \<le> sid" "sid < maxRemoteStreamId sid sm"
  obtains news' where "openPeerStreamIfNotClosed sid (openPeerStreams sid sm) (nextAcceptablePeer sid sm)
        (maxRemoteStreamId sid sm) news =
      Inr (LOCAL_NO_ERROR, openPeerStreams sid sm \<union> class_range (nextAcceptablePeer sid sm) sid, sid + 4, news')"
proof -
  note kind = kind_inv_open [OF peer_kind [OF inv remote] bounds refl]
  from open_streams_loop_opens [OF kind(3), of "nextAcceptablePeer sid sm" "openPeerStreams sid sm" news]
  obtain l where "open_streams_loop sid (nextAcceptablePeer sid sm) (openPeerStreams sid sm) news =
      Some (openPeerStreams sid sm \<union> class_range (nextAcceptablePeer sid sm) sid, map_option (\<lambda>ids. ids @ l) news)"
    by blast
  moreover have "\<not> sid < nextAcceptablePeer sid sm" "\<not> maxRemoteStreamId sid sm \<le> sid"
    using bounds by (simp_all add: not_less not_le)
  ultimately show thesis
    using bounds(1) by (intro that [of "map_option (\<lambda>ids. ids @ l) news"]) (simp add: openPeerStreamIfNotClosed_def)
qed

text \<open>What a lookup of a peer stream has done when it gives a stream.\<close>

definition peer_lookup_done ::
    "StreamId \<Rightarrow> QuicConnectionState \<Rightarrow> QuicStreamState \<Rightarrow> QuicConnectionState \<Rightarrow> bool" where
  "peer_lookup_done sid conn s conn' \<longleftrightarrow>
     (let sm = streamManager conn; sm' = streamManager conn'; next = nextAcceptablePeer sid sm
      in stream_id s = sid \<and> sm_inv sm'
       \<and> sm_streams sm' = (sm_streams sm)(sid \<mapsto> s)
       \<and> openPeerStreams sid sm' = openPeerStreams sid sm \<union> class_range next sid
       \<and> nextAcceptablePeer sid sm' = (if sid < next then next else sid + 4)
       \<and> sid \<in> openPeerStreams sid sm'
       \<and> sm_nodeType sm' = sm_nodeType sm \<and> (\<forall>t. maxRemoteStreamId t sm' = maxRemoteStreamId t sm)
       \<and> (\<forall>t. isUnidirectionalStream t \<noteq> isUnidirectionalStream sid \<longrightarrow>
             openPeerStreams t sm' = openPeerStreams t sm \<and> nextAcceptablePeer t sm' = nextAcceptablePeer t sm))"

lemma getOrCreatePeerStream_cases:
  assumes inv: "sm_inv (streamManager conn)" and remote: "isRemoteStream (sm_nodeType (streamManager conn)) sid"
    and ok: "check_peer_stream (sm_nodeType (streamManager conn)) (transportSettings conn) sid grp = Inr ()"
  shows "case getOrCreatePeerStream sid grp conn of
      Inl e \<Rightarrow> e = QuicTransportException STREAM_LIMIT_ERROR
             \<and> nextAcceptablePeer sid (streamManager conn) \<le> sid \<and> maxRemoteStreamId sid (streamManager conn) \<le> sid
    | Inr (None, conn') \<Rightarrow> conn' = conn \<and> sid < nextAcceptablePeer sid (streamManager conn)
             \<and> sid \<notin> openPeerStreams sid (streamManager conn)
    | Inr (Some s, conn') \<Rightarrow> peer_lookup_done sid conn s conn' \<and> transportSettings conn' = transportSettings conn
             \<and> (sid \<in> openPeerStreams sid (streamManager conn) \<or> sid < maxRemoteStreamId sid (streamManager conn))"
proof -
  let ?sm = "streamManager conn" and ?next = "nextAcceptablePeer sid (streamManager conn)"
  have below: "sid < ?next" if "sid \<in> openPeerStreams sid ?sm"
    using peer_kind [OF inv remote] that by (simp add: kind_inv_def)
  then have empty: "class_range ?next sid = {}" if "sid \<in> openPeerStreams sid ?sm"
    using that by (intro class_range_empty) simp
  show ?thesis
  proof (cases "sm_streams ?sm sid")
    case (Some s)
    then have "stream_id s = sid" "sid \<in> openPeerStreams sid ?sm"
      using inv remote_exists [OF remote] by (auto simp: sm_inv_def streams_inv_def)
    moreover from Some have "(sm_streams ?sm)(sid \<mapsto> s) = sm_streams ?sm" by auto
    ultimately show ?thesis using Some ok inv below empty
      by (simp add: getOrCreatePeerStream_def and_then_def peer_lookup_done_def)
  next
    case None
    show ?thesis
    proof (cases "sid \<in> openPeerStreams sid ?sm")
      case True
      with remote_exists [OF remote] have "streamExists sid ?sm" by simp
      with inv None obtain s sm where
        "instantiatePeerStream sid grp conn = Inr (Some s, conn\<lparr>streamManager := sm\<rparr>)"
        and "s = QuicStreamState_make_group sid grp conn" and "sm_inv sm"
        and "sm_streams sm = (sm_streams ?sm)(sid \<mapsto> s)"
        and "\<And>t. openPeerStreams t sm = openPeerStreams t ?sm"
        and "\<And>t. nextAcceptablePeer t sm = nextAcceptablePeer t ?sm"
        and "\<And>t. maxRemoteStreamId t sm = maxRemoteStreamId t ?sm"
        and "sm_nodeType sm = sm_nodeType ?sm"
        by (rule instantiatePeerStream_adds [where grp = grp]) simp
      then show ?thesis using True below [OF True] empty [OF True] None ok
        by (simp add: getOrCreatePeerStream_def and_then_def peer_lookup_done_def)
    next
      case closed: False
      show ?thesis
      proof (cases "?next \<le> sid \<and> sid < maxRemoteStreamId sid ?sm")
        case False
        then show ?thesis using None ok closed
          by (auto simp: getOrCreatePeerStream_def and_then_def openPeerStreamIfNotClosed_def Let_def not_le not_less)
      next
        case True
        define news where "news = (if notifyOnNewStreamsExplicitly (transportSettings conn) then None
            else Some (if grp \<noteq> None then sm_newGroupedPeerStreams ?sm else sm_newPeerStreams ?sm))"
        from openPeerStreamIfNotClosed_opens [OF inv remote, of news] True
        obtain news' where opened: "openPeerStreamIfNotClosed sid (openPeerStreams sid ?sm) ?next
            (maxRemoteStreamId sid ?sm) news =
            Inr (LOCAL_NO_ERROR, openPeerStreams sid ?sm \<union> class_range ?next sid, sid + 4, news')" by blast
        let ?conn = "conn\<lparr>streamManager := set_new_streams grp news' (open_peer sid ?sm)\<rparr>"
        have run: "getOrCreatePeerStream sid grp conn = instantiatePeerStream sid grp ?conn"
          using None ok closed opened
          by (cases grp; cases "notifyOnNewStreamsExplicitly (transportSettings conn)")
            (simp_all add: getOrCreatePeerStream_def and_then_def news_def open_peer_def Let_def)
        have "sm_inv (streamManager ?conn)" using inv_open_peer [OF inv remote] True by simp
        moreover have "sm_streams (streamManager ?conn) sid = None" using None by simp
        moreover have self: "sid \<in> class_range ?next sid"
          using True peer_kind [OF inv remote] by (intro self_in_range) (simp_all add: kind_inv_def)
        then have "streamExists sid (streamManager ?conn)"
          using remote_exists [of "open_peer sid ?sm" sid] remote by simp
        ultimately obtain s sm where
          "instantiatePeerStream sid grp ?conn = Inr (Some s, ?conn\<lparr>streamManager := sm\<rparr>)"
          and "s = QuicStreamState_make_group sid grp ?conn" and "sm_inv sm"
          and "sm_streams sm = (sm_streams ?sm)(sid \<mapsto> s)"
          and "\<And>t. openPeerStreams t sm = openPeerStreams t (open_peer sid ?sm)"
          and "\<And>t. nextAcceptablePeer t sm = nextAcceptablePeer t (open_peer sid ?sm)"
          and "\<And>t. maxRemoteStreamId t sm = maxRemoteStreamId t ?sm"
          and "sm_nodeType sm = sm_nodeType ?sm"
          by (rule instantiatePeerStream_adds [where grp = grp]) simp
        moreover have "\<not> sid < ?next" using True by (simp add: not_less)
        ultimately show ?thesis unfolding run using True self
          by (simp add: peer_lookup_done_def Let_def open_peer_other)
      qed
    qed
  qed
qed

section \<open>The other operations keep the invariant\<close>

lemma updateAppIdleState_simps [simp]:
  "sm_core (streamManager (updateAppIdleState now conn)) = sm_core (streamManager conn)"
  "transportSettings (updateAppIdleState now conn) = transportSettings conn"
  "nodeType (updateAppIdleState now conn) = nodeType conn"
  "conn_flowControlState (updateAppIdleState now conn) = conn_flowControlState conn"
  by (simp_all add: updateAppIdleState_def Let_def sm_core_def)

lemmas app_idle_frame [simp] =
  core_inv [OF updateAppIdleState_simps(1)] core_eq [OF updateAppIdleState_simps(1)]

lemma getOrCreateOpenedLocalStream_inv:
  assumes inv: "sm_inv (streamManager conn)" and "isLocalStream (sm_nodeType (streamManager conn)) sid"
    and run: "getOrCreateOpenedLocalStream sid conn = Inr (st, conn')"
  shows "sm_inv (streamManager conn')"
    and "st = None \<Longrightarrow> conn' = conn \<and> sid \<notin> openLocalStreams sid (streamManager conn)"
    and "transportSettings conn' = transportSettings conn"
proof -
  let ?sm = "streamManager conn" and ?s = "QuicStreamState_make sid conn"
  have exists: "streamExists sid ?sm" if "sid \<in> openLocalStreams sid ?sm"
    using that assms(2) by (simp add: streamExists_def)
  have "sm_inv (streamManager conn') \<and> (st = None \<longrightarrow> conn' = conn \<and> sid \<notin> openLocalStreams sid ?sm)
      \<and> transportSettings conn' = transportSettings conn"
  proof (cases "sid \<in> openLocalStreams sid ?sm \<and> sm_streams ?sm sid = None")
    case True
    have pri: "priority_inv ?sm" using inv by (simp add: sm_inv_def)
    from True have none: "sm_streams ?sm (stream_id ?s) = None" by simp
    have "sm_inv (add_new ?s ?sm)" using inv_add_new [OF inv none] exists True by simp
    then show ?thesis using run emplace_new [OF pri none] True
      by (auto simp: getOrCreateOpenedLocalStream_def and_then_def)
  next
    case False
    then show ?thesis using run inv by (auto simp: getOrCreateOpenedLocalStream_def Let_def split: if_splits)
  qed
  then show "sm_inv (streamManager conn')"
    and "st = None \<Longrightarrow> conn' = conn \<and> sid \<notin> openLocalStreams sid ?sm"
    and "transportSettings conn' = transportSettings conn" by blast+
qed

lemma check_remote:
  "check_peer_stream type settings sid grp = Inr u \<Longrightarrow> isRemoteStream type sid"
  by (cases type) (auto simp: check_peer_stream_def isRemoteStream_def isClientStream_def isServerStream_def
      split: if_splits)

lemma getOrCreatePeerStream_inv:
  assumes inv: "sm_inv (streamManager conn)" and run: "getOrCreatePeerStream sid grp conn = Inr (st, conn')"
  shows "sm_inv (streamManager conn')" and "transportSettings conn' = transportSettings conn"
proof -
  have ok: "check_peer_stream (sm_nodeType (streamManager conn)) (transportSettings conn) sid grp = Inr ()"
    using run by (cases "check_peer_stream (sm_nodeType (streamManager conn)) (transportSettings conn) sid grp")
      (simp_all add: getOrCreatePeerStream_def and_then_def)
  have "sm_inv (streamManager conn') \<and> transportSettings conn' = transportSettings conn"
    using getOrCreatePeerStream_cases [OF inv check_remote [OF ok] ok] inv unfolding run
    by (cases st) (auto simp: peer_lookup_done_def Let_def)
  then show "sm_inv (streamManager conn')" and "transportSettings conn' = transportSettings conn" by simp_all
qed

lemma getStream_inv:
  assumes inv: "sm_inv (streamManager conn)" and run: "getStream now sid grp conn = Inr (st, conn')"
  shows "sm_inv (streamManager conn')" and "transportSettings conn' = transportSettings conn"
proof -
  have "sm_inv (streamManager conn') \<and> transportSettings conn' = transportSettings conn"
  proof (cases "isRemoteStream (sm_nodeType (streamManager conn)) sid")
    case True
    with run obtain conn1 where "getOrCreatePeerStream sid grp conn = Inr (st, conn1)"
      and "conn' = updateAppIdleState now conn1"
      by (auto simp: getStream_def elim!: and_then_InrE)
    then show ?thesis using getOrCreatePeerStream_inv [OF inv, of sid grp st conn1] by simp
  next
    case False
    then have "isLocalStream (sm_nodeType (streamManager conn)) sid" by (simp add: local_or_remote)
    note kept = getOrCreateOpenedLocalStream_inv(1,3) [OF inv this]
    from run False have "conn' = conn \<or> (\<exists>conn1. getOrCreateOpenedLocalStream sid conn = Inr (st, conn1)
        \<and> conn' = updateAppIdleState now conn1)"
      by (auto simp: getStream_def elim!: and_then_InrE split: option.splits if_splits)
    then show ?thesis using kept inv by auto
  qed
  then show "sm_inv (streamManager conn')" and "transportSettings conn' = transportSettings conn" by simp_all
qed

lemma openLocalStreamIfNotClosed_opens:
  assumes inv: "sm_inv sm" and loc: "isLocalStream (sm_nodeType sm) sid"
    and run: "openLocalStreamIfNotClosed sid (openLocalStreams sid sm) (nextAcceptableLocal sid sm)
        (maxLocalStreamId sid sm) = Inr (LOCAL_NO_ERROR, opened, next)"
  shows "nextAcceptableLocal sid sm \<le> sid" and "sid < maxLocalStreamId sid sm" and "next = sid + 4"
    and "opened = openLocalStreams sid sm \<union> class_range (nextAcceptableLocal sid sm) sid"
proof -
  show bounds: "nextAcceptableLocal sid sm \<le> sid" "sid < maxLocalStreamId sid sm"
    using run by (auto simp: openLocalStreamIfNotClosed_def split: if_splits)
  note kind = kind_inv_open [OF local_kind [OF inv loc] bounds refl]
  from open_streams_loop_opens [OF kind(3), of "nextAcceptableLocal sid sm" "openLocalStreams sid sm" None]
  have "open_streams_loop sid (nextAcceptableLocal sid sm) (openLocalStreams sid sm) None =
      Some (openLocalStreams sid sm \<union> class_range (nextAcceptableLocal sid sm) sid, None)" by auto
  then show "next = sid + 4" "opened = openLocalStreams sid sm \<union> class_range (nextAcceptableLocal sid sm) sid"
    using run bounds by (auto simp: openLocalStreamIfNotClosed_def split: if_splits)
qed

text \<open>The part of the creation that opens the stream.\<close>

lemma create_local_inv:
  fixes grp :: "StreamGroupId option"
  assumes inv: "sm_inv (streamManager conn)" and loc: "isLocalStream (sm_nodeType (streamManager conn)) sid"
    and closed: "sid \<notin> openLocalStreams sid (streamManager conn)"
    and opens: "openLocalStreamIfNotClosed sid (openLocalStreams sid (streamManager conn))
        (nextAcceptableLocal sid (streamManager conn)) (maxLocalStreamId sid (streamManager conn)) =
        Inr (LOCAL_NO_ERROR, opened, next)"
  defines "s \<equiv> QuicStreamState_make_group sid grp conn"
    and "sm \<equiv> set_nextAcceptableLocal sid next (set_openLocalStreams sid opened (streamManager conn))"
  shows "emplace_stream s sm = (s, put_stream s sm)"
    and "addToStreamPriorityMap s (put_stream s sm) = Inr (add_new s sm)" and "sm_inv (add_new s sm)"
proof -
  let ?sm = "streamManager conn"
  note opens = openLocalStreamIfNotClosed_opens [OF inv loc opens]
  have sm: "sm = open_local sid ?sm" using opens(3,4) by (simp add: sm_def open_local_def)
  have inv1: "sm_inv sm" unfolding sm by (rule inv_open_local [OF inv loc opens(1,2)])
  have "sm_streams ?sm sid = None"
    using inv closed loc by (cases "sm_streams ?sm sid") (auto simp: sm_inv_def streams_inv_def streamExists_def)
  then have none: "sm_streams sm (stream_id s) = None" by (simp add: sm s_def)
  have "stream_class (nextAcceptableLocal sid ?sm) = stream_class sid"
    using local_kind [OF inv loc] by (simp add: kind_inv_def)
  from self_in_range [OF opens(1) this] have "streamExists (stream_id s) sm"
    using loc by (simp add: s_def sm streamExists_def)
  moreover have "priority_inv sm" using inv1 by (simp add: sm_inv_def)
  ultimately show "emplace_stream s sm = (s, put_stream s sm)" "addToStreamPriorityMap s (put_stream s sm) = Inr (add_new s sm)"
    and "sm_inv (add_new s sm)"
    using emplace_new [of sm s] inv_add_new [OF inv1 none] none by (simp_all add: s_def)
qed

lemma createStream_inv:
  assumes inv: "sm_inv (streamManager conn)" and run: "createStream now sid grp conn = Inr (st, conn')"
  shows "sm_inv (streamManager conn')" and "transportSettings conn' = transportSettings conn"
proof -
  have loc: "isLocalStream (sm_nodeType (streamManager conn)) sid"
    using run by (cases "sm_nodeType (streamManager conn)")
      (auto simp: createStream_def Let_def isLocalStream_def split: if_splits)
  from run obtain ex conn1 where got: "getOrCreateOpenedLocalStream sid conn = Inr (ex, conn1)"
    and rest: "(case ex of Some stream \<Rightarrow> Inr (Inr stream, conn1)
      | None \<Rightarrow> let sm1 = streamManager conn1
          in and_then (openLocalStreamIfNotClosed sid (openLocalStreams sid sm1) (nextAcceptableLocal sid sm1)
                         (maxLocalStreamId sid sm1))
               (\<lambda>(openedResult, opened, next).
                  if openedResult \<noteq> LOCAL_NO_ERROR then Inr (Inl openedResult, conn1)
                  else let sm2 = set_nextAcceptableLocal sid next (set_openLocalStreams sid opened sm1);
                           (stream, sm3) = emplace_stream (QuicStreamState_make_group sid grp conn1) sm2
                       in and_then (addToStreamPriorityMap stream sm3)
                            (\<lambda>sm4. Inr (Inr stream, updateAppIdleState now (conn1\<lparr>streamManager := sm4\<rparr>)))))
      = Inr (st, conn')"
    by (auto simp: createStream_def Let_def elim!: and_then_InrE split: if_splits)
  note kept = getOrCreateOpenedLocalStream_inv [OF inv loc got]
  have "sm_inv (streamManager conn') \<and> transportSettings conn' = transportSettings conn"
  proof (cases ex)
    case (Some s)
    with rest kept show ?thesis by simp
  next
    case None
    with kept(2) have same: "conn1 = conn" and closed: "sid \<notin> openLocalStreams sid (streamManager conn)" by simp_all
    from rest None same obtain res opened "next"
      where opens: "openLocalStreamIfNotClosed sid (openLocalStreams sid (streamManager conn))
          (nextAcceptableLocal sid (streamManager conn)) (maxLocalStreamId sid (streamManager conn)) =
          Inr (res, opened, next)"
      by (auto simp: Let_def elim!: and_then_InrE)
    show ?thesis
    proof (cases "res = LOCAL_NO_ERROR")
      case True
      note made = create_local_inv [OF inv loc closed opens [unfolded True], of grp]
      then show ?thesis using rest None same opens True by (auto simp: Let_def)
    next
      case False
      then show ?thesis using rest None same opens inv by (auto simp: Let_def)
    qed
  qed
  then show "sm_inv (streamManager conn')" and "transportSettings conn' = transportSettings conn" by simp_all
qed

lemma class_plus4_wrap: "stream_class (s + 4) = stream_class s"
proof -
  have "unat (s + 4) = (unat s + 4) mod 2 ^ 64" by (simp add: unat_word_ariths)
  moreover have "(unat s + 4) mod 2 ^ 64 mod 4 = (unat s + 4) mod 4"
    by (simp add: mod_mod_cancel)
  ultimately show ?thesis by (simp add: stream_class_def)
qed

lemma inv_next_id:
  "sm_inv (sm\<lparr>sm_nextBidirectionalStreamId := sm_nextBidirectionalStreamId sm + 4\<rparr>) = sm_inv sm"
  "sm_inv (sm\<lparr>sm_nextUnidirectionalStreamId := sm_nextUnidirectionalStreamId sm + 4\<rparr>) = sm_inv sm"
  by (simp_all add: sm_inv_defs kind_accessors streamExists_def class_plus4_wrap)

lemma createNextBidirectionalStream_inv:
  assumes "sm_inv (streamManager conn)" and "createNextBidirectionalStream now grp conn = Inr (st, conn')"
  shows "sm_inv (streamManager conn')" and "transportSettings conn' = transportSettings conn"
proof -
  from assms(2) obtain conn1
    where run: "createStream now (sm_nextBidirectionalStreamId (streamManager conn)) grp conn = Inr (st, conn1)"
      and conn': "conn' = (if isl st then conn1 else on_sm (\<lambda>sm. sm\<lparr>sm_nextBidirectionalStreamId :=
                              sm_nextBidirectionalStreamId sm + 4\<rparr>) conn1)"
    by (auto simp: createNextBidirectionalStream_def elim!: and_then_InrE)
  show "sm_inv (streamManager conn')" and "transportSettings conn' = transportSettings conn"
    using createStream_inv [OF assms(1) run] by (simp_all add: conn' inv_next_id)
qed

lemma createNextUnidirectionalStream_inv:
  assumes "sm_inv (streamManager conn)" and "createNextUnidirectionalStream now grp conn = Inr (st, conn')"
  shows "sm_inv (streamManager conn')" and "transportSettings conn' = transportSettings conn"
proof -
  from assms(2) obtain conn1
    where run: "createStream now (sm_nextUnidirectionalStreamId (streamManager conn)) grp conn = Inr (st, conn1)"
      and conn': "conn' = (if isl st then conn1 else on_sm (\<lambda>sm. sm\<lparr>sm_nextUnidirectionalStreamId :=
                              sm_nextUnidirectionalStreamId sm + 4\<rparr>) conn1)"
    by (auto simp: createNextUnidirectionalStream_def elim!: and_then_InrE)
  show "sm_inv (streamManager conn')" and "transportSettings conn' = transportSettings conn"
    using createStream_inv [OF assms(1) run] by (simp_all add: conn' inv_next_id)
qed

text \<open>Limits.\<close>

lemma unat_max_id:
  assumes "\<not> maxStreams > kMaxMaxStreams" and "unat i \<le> 3"
  shows "unat (maxStreams * 4 + i :: u64) = 4 * unat maxStreams + unat i"
    and "unat (maxStreams * 4 + i) \<le> 2 ^ 62 + 3"
proof -
  have m: "unat maxStreams \<le> 2 ^ 60" using assms(1) by (simp add: word_less_nat_alt not_less)
  have "4 * unat maxStreams + unat i \<le> 2 ^ 62 + 3" using m assms(2) by simp
  then show "unat (maxStreams * 4 + i) = 4 * unat maxStreams + unat i"
    by (simp add: unat_word_ariths mod_add_left_eq)
  with m assms(2) show "unat (maxStreams * 4 + i) \<le> 2 ^ 62 + 3" by simp
qed

lemma set_max_frame:
  "initial_inv (sm\<lparr>sm_maxRemoteBidirectionalStreamId := v\<rparr>) = initial_inv sm"
  "streams_inv (sm\<lparr>sm_maxRemoteBidirectionalStreamId := v\<rparr>) = streams_inv sm"
  "priority_inv (sm\<lparr>sm_maxRemoteBidirectionalStreamId := v\<rparr>) = priority_inv sm"
  "local_inv (sm\<lparr>sm_maxRemoteBidirectionalStreamId := v\<rparr>) = local_inv sm"
  "initial_inv (sm\<lparr>sm_maxRemoteUnidirectionalStreamId := v\<rparr>) = initial_inv sm"
  "streams_inv (sm\<lparr>sm_maxRemoteUnidirectionalStreamId := v\<rparr>) = streams_inv sm"
  "priority_inv (sm\<lparr>sm_maxRemoteUnidirectionalStreamId := v\<rparr>) = priority_inv sm"
  "local_inv (sm\<lparr>sm_maxRemoteUnidirectionalStreamId := v\<rparr>) = local_inv sm"
  "initial_inv (sm\<lparr>sm_maxLocalBidirectionalStreamId := v\<rparr>) = initial_inv sm"
  "streams_inv (sm\<lparr>sm_maxLocalBidirectionalStreamId := v\<rparr>) = streams_inv sm"
  "priority_inv (sm\<lparr>sm_maxLocalBidirectionalStreamId := v\<rparr>) = priority_inv sm"
  "peer_inv (sm\<lparr>sm_maxLocalBidirectionalStreamId := v\<rparr>) = peer_inv sm"
  "initial_inv (sm\<lparr>sm_maxLocalUnidirectionalStreamId := v\<rparr>) = initial_inv sm"
  "streams_inv (sm\<lparr>sm_maxLocalUnidirectionalStreamId := v\<rparr>) = streams_inv sm"
  "priority_inv (sm\<lparr>sm_maxLocalUnidirectionalStreamId := v\<rparr>) = priority_inv sm"
  "peer_inv (sm\<lparr>sm_maxLocalUnidirectionalStreamId := v\<rparr>) = peer_inv sm"
  by (simp_all add: initial_inv_def streams_inv_def streamExists_def priority_inv_def control_streams_def
      peer_inv_def local_inv_def kind_accessors)

lemma inv_set_max:
  assumes inv: "sm_inv sm" and "unat v \<le> 2 ^ 62 + 3"
  shows "sm_inv (sm\<lparr>sm_maxRemoteBidirectionalStreamId := v\<rparr>)"
    and "sm_inv (sm\<lparr>sm_maxRemoteUnidirectionalStreamId := v\<rparr>)"
    and "sm_inv (sm\<lparr>sm_maxLocalBidirectionalStreamId := v\<rparr>)"
    and "sm_inv (sm\<lparr>sm_maxLocalUnidirectionalStreamId := v\<rparr>)"
proof -
  have k: "kind_inv k n v opened" if "kind_inv k n m opened" for k n m opened
    using that assms(2) by (simp add: kind_inv_def)
  note p = peer_kind [OF inv] and l = local_kind [OF inv]
  have "peer_inv (sm\<lparr>sm_maxRemoteBidirectionalStreamId := v\<rparr>)"
      "peer_inv (sm\<lparr>sm_maxRemoteUnidirectionalStreamId := v\<rparr>)"
    unfolding peer_inv_def
    by (auto simp: kind_accessors intro: k dest!: p split: if_splits)
  moreover have "local_inv (sm\<lparr>sm_maxLocalBidirectionalStreamId := v\<rparr>)"
      "local_inv (sm\<lparr>sm_maxLocalUnidirectionalStreamId := v\<rparr>)"
    unfolding local_inv_def
    by (auto simp: kind_accessors intro: k dest!: l split: if_splits)
  ultimately show "sm_inv (sm\<lparr>sm_maxRemoteBidirectionalStreamId := v\<rparr>)"
    and "sm_inv (sm\<lparr>sm_maxRemoteUnidirectionalStreamId := v\<rparr>)"
    and "sm_inv (sm\<lparr>sm_maxLocalBidirectionalStreamId := v\<rparr>)"
    and "sm_inv (sm\<lparr>sm_maxLocalUnidirectionalStreamId := v\<rparr>)"
    using inv by (simp_all add: sm_inv_def set_max_frame)
qed

lemma initial_small:
  assumes "sm_inv sm"
  shows "unat (sm_initialRemoteBidirectionalStreamId sm) \<le> 3" "unat (sm_initialRemoteUnidirectionalStreamId sm) \<le> 3"
    "unat (sm_initialLocalBidirectionalStreamId sm) \<le> 3" "unat (sm_initialLocalUnidirectionalStreamId sm) \<le> 3"
  using assms by (simp_all add: sm_inv_def initial_inv_def Let_def split: if_splits)

lemma core_flags:
  "sm_core (sm\<lparr>sm_maxLocalBidirectionalStreamIdIncreased := b\<rparr>) = sm_core sm"
  "sm_core (sm\<lparr>sm_maxLocalUnidirectionalStreamIdIncreased := b\<rparr>) = sm_core sm"
  "sm_core (sm\<lparr>sm_remoteBidirectionalStreamLimitUpdate := u\<rparr>) = sm_core sm"
  "sm_core (sm\<lparr>sm_remoteUnidirectionalStreamLimitUpdate := u\<rparr>) = sm_core sm"
  by (simp_all add: sm_core_def)

lemmas inv_flags = core_flags [THEN core_inv]

lemma setMax_inv:
  assumes inv: "sm_inv sm"
  shows "setMaxLocalBidirectionalStreams m f sm = Inr sm' \<Longrightarrow> sm_inv sm'"
    and "setMaxLocalUnidirectionalStreams m f sm = Inr sm' \<Longrightarrow> sm_inv sm'"
    and "setMaxRemoteBidirectionalStreamsInternal m f sm = Inr sm' \<Longrightarrow> sm_inv sm'"
    and "setMaxRemoteUnidirectionalStreamsInternal m f sm = Inr sm' \<Longrightarrow> sm_inv sm'"
  using inv inv_set_max [OF inv] unat_max_id(2) [OF _ initial_small(1) [OF inv], of m]
    unat_max_id(2) [OF _ initial_small(2) [OF inv], of m] unat_max_id(2) [OF _ initial_small(3) [OF inv], of m]
    unat_max_id(2) [OF _ initial_small(4) [OF inv], of m]
  by (auto simp: setMaxLocalBidirectionalStreams_def setMaxLocalUnidirectionalStreams_def
      setMaxRemoteBidirectionalStreamsInternal_def setMaxRemoteUnidirectionalStreamsInternal_def
      Let_def inv_flags split: if_splits)

text \<open>Removing the state of a stream and its place among the open streams.\<close>

lemma core_removeWritable [simp]: "sm_core (removeWritable s sm) = sm_core sm"
  by (simp add: removeWritable_def dequeue_stream_def Let_def sm_core_def)

lemma core_forget [simp]: "sm_core (forget_stream s sm) = sm_core sm"
proof -
  have "sm_core (forget_stream s sm) = sm_core (removeWritable s
      (sm\<lparr>sm_readableStreams := sm_readableStreams sm - {stream_id s},
          sm_peekableStreams := sm_peekableStreams sm - {stream_id s}\<rparr>))"
    by (simp add: forget_stream_def Let_def sm_core_def)
  also have "\<dots> = sm_core (sm\<lparr>sm_readableStreams := sm_readableStreams sm - {stream_id s},
          sm_peekableStreams := sm_peekableStreams sm - {stream_id s}\<rparr>)" by simp
  finally show ?thesis by (simp add: sm_core_def)
qed

definition drop_state :: "StreamId \<Rightarrow> QuicStreamManager \<Rightarrow> QuicStreamManager" where
  "drop_state sid sm = sm\<lparr>sm_streams := (sm_streams sm)(sid := None),
     sm_streamPriorityLevelsNoCtrl := (sm_streamPriorityLevelsNoCtrl sm)(sid := None),
     sm_numControlStreams := (if sid \<in> control_streams sm then sm_numControlStreams sm - 1
                              else sm_numControlStreams sm)\<rparr>"

lemma drop_state_frame [simp]:
  "openPeerStreams t (drop_state sid sm) = openPeerStreams t sm"
  "openLocalStreams t (drop_state sid sm) = openLocalStreams t sm"
  "nextAcceptablePeer t (drop_state sid sm) = nextAcceptablePeer t sm"
  "nextAcceptableLocal t (drop_state sid sm) = nextAcceptableLocal t sm"
  "maxRemoteStreamId t (drop_state sid sm) = maxRemoteStreamId t sm"
  "maxLocalStreamId t (drop_state sid sm) = maxLocalStreamId t sm"
  "streamExists t (drop_state sid sm) = streamExists t sm"
  "initial_inv (drop_state sid sm) = initial_inv sm"
  "sm_nodeType (drop_state sid sm) = sm_nodeType sm"
  "sm_streams (drop_state sid sm) = (sm_streams sm)(sid := None)"
  by (simp_all add: drop_state_def kind_accessors streamExists_def initial_inv_def)

lemma control_drop: "control_streams (drop_state sid sm) = control_streams sm - {sid}"
  by (auto simp: control_streams_def drop_state_def split: if_splits)

lemma inv_drop_state:
  assumes inv: "sm_inv sm"
  shows "sm_inv (drop_state sid sm)"
proof -
  have pri: "priority_inv sm" using inv by (simp add: sm_inv_def)
  have fin: "finite (control_streams sm)" by (rule finite)
  have "unat (sm_numControlStreams (drop_state sid sm)) = card (control_streams sm - {sid})"
  proof (cases "sid \<in> control_streams sm")
    case True
    with fin have "0 < card (control_streams sm)" by (auto simp: card_gt_0_iff)
    then have "1 \<le> sm_numControlStreams sm"
      using pri by (simp add: priority_inv_def word_le_nat_alt)
    then show ?thesis using True pri fin
      by (simp add: drop_state_def priority_inv_def unat_sub card_Diff_singleton)
  next
    case False
    then show ?thesis using pri by (simp add: drop_state_def priority_inv_def)
  qed
  moreover have "dom (sm_streamPriorityLevelsNoCtrl (drop_state sid sm)) =
      dom (sm_streams (drop_state sid sm)) - (control_streams sm - {sid})"
    using pri by (auto simp: drop_state_def priority_inv_def)
  ultimately have "priority_inv (drop_state sid sm)" by (simp add: priority_inv_def control_drop)
  moreover have "streams_inv (drop_state sid sm)" using inv by (simp add: sm_inv_def streams_inv_def)
  ultimately show ?thesis using inv by (simp add: sm_inv_def peer_inv_def local_inv_def)
qed

definition close_peer :: "StreamId \<Rightarrow> QuicStreamManager \<Rightarrow> QuicStreamManager" where
  "close_peer sid sm = set_openPeerStreams sid (openPeerStreams sid sm - {sid}) sm"

definition close_local :: "StreamId \<Rightarrow> QuicStreamManager \<Rightarrow> QuicStreamManager" where
  "close_local sid sm = set_openLocalStreams sid (openLocalStreams sid sm - {sid}) sm"

lemma close_peer_simps [simp]:
  "openPeerStreams t (close_peer sid sm) =
     (if isUnidirectionalStream t = isUnidirectionalStream sid then openPeerStreams t sm - {sid}
      else openPeerStreams t sm)"
  "openLocalStreams t (close_peer sid sm) = openLocalStreams t sm"
  "nextAcceptablePeer t (close_peer sid sm) = nextAcceptablePeer t sm"
  "nextAcceptableLocal t (close_peer sid sm) = nextAcceptableLocal t sm"
  "maxRemoteStreamId t (close_peer sid sm) = maxRemoteStreamId t sm"
  "maxLocalStreamId t (close_peer sid sm) = maxLocalStreamId t sm"
  "sm_nodeType (close_peer sid sm) = sm_nodeType sm"
  "sm_streams (close_peer sid sm) = sm_streams sm"
  "initial_inv (close_peer sid sm) = initial_inv sm"
  "priority_inv (close_peer sid sm) = priority_inv sm"
  by (simp_all add: close_peer_def set_openPeerStreams_def kind_accessors initial_inv_def priority_inv_def
      control_streams_def)

lemma close_local_simps [simp]:
  "openLocalStreams t (close_local sid sm) =
     (if isUnidirectionalStream t = isUnidirectionalStream sid then openLocalStreams t sm - {sid}
      else openLocalStreams t sm)"
  "openPeerStreams t (close_local sid sm) = openPeerStreams t sm"
  "nextAcceptablePeer t (close_local sid sm) = nextAcceptablePeer t sm"
  "nextAcceptableLocal t (close_local sid sm) = nextAcceptableLocal t sm"
  "maxRemoteStreamId t (close_local sid sm) = maxRemoteStreamId t sm"
  "maxLocalStreamId t (close_local sid sm) = maxLocalStreamId t sm"
  "sm_nodeType (close_local sid sm) = sm_nodeType sm"
  "sm_streams (close_local sid sm) = sm_streams sm"
  "initial_inv (close_local sid sm) = initial_inv sm"
  "priority_inv (close_local sid sm) = priority_inv sm"
  by (simp_all add: close_local_def set_openLocalStreams_def kind_accessors initial_inv_def priority_inv_def
      control_streams_def)

lemma kind_inv_subset: "kind_inv k n m S \<Longrightarrow> T \<subseteq> S \<Longrightarrow> kind_inv k n m T"
  by (auto simp: kind_inv_def)

lemma inv_close:
  assumes inv: "sm_inv sm" and gone: "sm_streams sm sid = None"
  shows "sm_inv (close_peer sid sm)" and "sm_inv (close_local sid sm)"
proof -
  have "stream_id s = t \<and> streamExists t (close_peer sid sm) \<and> streamExists t (close_local sid sm)"
    if "sm_streams sm t = Some s" for t s
  proof -
    have "t \<noteq> sid" using that gone by auto
    moreover have "stream_id s = t \<and> streamExists t sm" using inv that by (simp add: sm_inv_def streams_inv_def)
    ultimately show ?thesis by (auto simp: streamExists_def split: if_splits)
  qed
  moreover have "peer_inv (close_peer sid sm)" "local_inv (close_local sid sm)"
    by (auto simp: peer_inv_def local_inv_def
        intro: kind_inv_subset [OF peer_kind [OF inv]] kind_inv_subset [OF local_kind [OF inv]])
  ultimately show "sm_inv (close_peer sid sm)" and "sm_inv (close_local sid sm)"
    using inv by (simp_all add: sm_inv_def streams_inv_def peer_inv_def local_inv_def)
qed

lemma update_remote_limit_inv:
  assumes "sm_inv sm" and "update_remote_limit settings sid sm = Inr sm'"
  shows "sm_inv sm'"
  using assms(2) setMax_inv(3,4) [OF assms(1)] assms(1)
  by (auto simp: update_remote_limit_def setMaxRemoteBidirectionalStreams_def
      setMaxRemoteUnidirectionalStreams_def Let_def inv_flags elim!: and_then_InrE split: if_splits)

lemma removeClosedStream_cases:
  assumes inv: "sm_inv (streamManager conn)" and s: "sm_streams (streamManager conn) sid = Some s"
  defines "sm \<equiv> drop_state sid (forget_stream s (streamManager conn))"
  shows "removeClosedStream now sid conn =
      and_then (if isRemoteStream (sm_nodeType (streamManager conn)) sid
                then update_remote_limit (transportSettings conn) sid (close_peer sid sm)
                else Inr (close_local sid sm))
        (\<lambda>sm'. Inr (updateAppIdleState now (conn\<lparr>streamManager := sm'\<rparr>)))"
    and "sm_inv sm" and "sm_streams sm sid = None"
proof -
  let ?f = "forget_stream s (streamManager conn)"
  have f: "sm_inv ?f" "sm_streams ?f = sm_streams (streamManager conn)"
    using core_inv [OF core_forget] core_eq(2) [OF core_forget] inv by simp_all
  then show "sm_inv sm" "sm_streams sm sid = None" by (simp_all add: sm_def inv_drop_state)
  have pri: "priority_inv ?f" using f by (simp add: sm_inv_def)
  have c: "sid \<in> control_streams ?f \<longleftrightarrow> isControl s" using s f(2) by (simp add: control_streams_def)
  have "sid \<in> dom (sm_streamPriorityLevelsNoCtrl ?f) \<longleftrightarrow> \<not> isControl s"
    using pri s f(2) c by (simp add: priority_inv_def domI)
  then have "sm_streamPriorityLevelsNoCtrl ?f sid = None \<longleftrightarrow> isControl s" by (auto simp: dom_def)
  moreover have "sm = (if isControl s then ?f\<lparr>sm_numControlStreams := sm_numControlStreams ?f - 1,
        sm_streams := (sm_streams ?f)(sid := None)\<rparr>
      else ?f\<lparr>sm_streamPriorityLevelsNoCtrl := (sm_streamPriorityLevelsNoCtrl ?f)(sid := None),
        sm_streams := (sm_streams ?f)(sid := None)\<rparr>)"
    using calculation c by (auto simp: sm_def drop_state_def fun_upd_idem)
  moreover have "sm_nodeType ?f = sm_nodeType (streamManager conn)" by (rule core_eq(1) [OF core_forget])
  ultimately show "removeClosedStream now sid conn =
      and_then (if isRemoteStream (sm_nodeType (streamManager conn)) sid
                then update_remote_limit (transportSettings conn) sid (close_peer sid sm)
                else Inr (close_local sid sm))
        (\<lambda>sm'. Inr (updateAppIdleState now (conn\<lparr>streamManager := sm'\<rparr>)))"
    using s by (cases "isControl s") (auto simp: removeClosedStream_def Let_def close_peer_def close_local_def)
qed

lemma removeClosedStream_inv:
  assumes inv: "sm_inv (streamManager conn)" and run: "removeClosedStream now sid conn = Inr conn'"
  shows "sm_inv (streamManager conn')" and "transportSettings conn' = transportSettings conn"
proof -
  have "sm_inv (streamManager conn') \<and> transportSettings conn' = transportSettings conn"
  proof (cases "sm_streams (streamManager conn) sid")
    case None
    then show ?thesis using run inv by (simp add: removeClosedStream_def)
  next
    case (Some s)
    note facts = removeClosedStream_cases [OF inv Some]
    then show ?thesis using run inv_close [OF facts(2,3)] update_remote_limit_inv
      by (auto elim!: and_then_InrE split: if_splits)
  qed
  then show "sm_inv (streamManager conn')" and "transportSettings conn' = transportSettings conn" by simp_all
qed

text \<open>Changes of the contents of a stream, its priority, and its being a control stream.\<close>

lemma put_stream_frame [simp]:
  "openPeerStreams t (put_stream s sm) = openPeerStreams t sm"
  "openLocalStreams t (put_stream s sm) = openLocalStreams t sm"
  "nextAcceptablePeer t (put_stream s sm) = nextAcceptablePeer t sm"
  "nextAcceptableLocal t (put_stream s sm) = nextAcceptableLocal t sm"
  "maxRemoteStreamId t (put_stream s sm) = maxRemoteStreamId t sm"
  "maxLocalStreamId t (put_stream s sm) = maxLocalStreamId t sm"
  "streamExists t (put_stream s sm) = streamExists t sm"
  "initial_inv (put_stream s sm) = initial_inv sm"
  "sm_nodeType (put_stream s sm) = sm_nodeType sm"
  "sm_streams (put_stream s sm) = (sm_streams sm)(stream_id s \<mapsto> s)"
  by (simp_all add: put_stream_def kind_accessors streamExists_def initial_inv_def)

lemma stream_known: "sm_inv sm \<Longrightarrow> sm_streams sm sid = Some s \<Longrightarrow> stream_id s = sid \<and> streamExists sid sm"
  by (simp add: sm_inv_def streams_inv_def)

lemma inv_put_stream:
  assumes inv: "sm_inv sm" and s: "sm_streams sm (stream_id s') = Some s" and "isControl s' = isControl s"
  shows "sm_inv (put_stream s' sm)"
proof -
  have "control_streams (put_stream s' sm) = control_streams sm"
    using s assms(3) by (auto simp: control_streams_def)
  moreover have "dom (sm_streams (put_stream s' sm)) = dom (sm_streams sm)" using s by auto
  ultimately have "priority_inv (put_stream s' sm)"
    using inv by (simp add: sm_inv_def priority_inv_def) (simp add: put_stream_def)
  moreover have "streams_inv (put_stream s' sm)" using inv s by (auto simp: sm_inv_def streams_inv_def)
  ultimately show ?thesis using inv by (simp add: sm_inv_def peer_inv_def local_inv_def)
qed

lemma kind_inv_bound: "kind_inv k n m S \<Longrightarrow> sid \<in> S \<Longrightarrow> unat sid < 2 ^ 63"
  unfolding kind_inv_def word_less_nat_alt by (meson less_trans)

lemma open_bounded:
  assumes inv: "sm_inv sm" and ex: "streamExists sid sm"
  shows "unat sid < 2 ^ 63"
proof (cases "isLocalStream (sm_nodeType sm) sid")
  case True
  from kind_inv_bound [OF local_kind [OF inv True]] ex True show ?thesis by (simp add: streamExists_def)
next
  case False
  then have "isRemoteStream (sm_nodeType sm) sid" by (simp add: local_or_remote)
  from kind_inv_bound [OF peer_kind [OF inv this]] ex False show ?thesis by (simp add: streamExists_def)
qed

lemma control_bound:
  assumes inv: "sm_inv sm"
  shows "card (control_streams sm) \<le> 2 ^ 63"
proof -
  have "streamExists sid sm" if "sid \<in> control_streams sm" for sid
    using inv that by (auto simp: control_streams_def sm_inv_def streams_inv_def)
  then have "unat ` control_streams sm \<subseteq> {..<2 ^ 63}" using open_bounded [OF inv] by auto
  then have "card (unat ` control_streams sm) \<le> card {..<2 ^ 63 :: nat}" by (rule card_mono [rotated]) simp
  moreover have "card (unat ` control_streams sm) = card (control_streams sm)"
    by (rule card_image) (simp add: inj_on_def word_unat_eq_iff)
  ultimately show ?thesis by simp
qed

text \<open>A stream becomes a control stream.\<close>

definition mark_control :: "QuicStreamState \<Rightarrow> QuicStreamManager \<Rightarrow> QuicStreamManager" where
  "mark_control s sm = put_stream (s\<lparr>isControl := True\<rparr>)
     (sm\<lparr>sm_numControlStreams := sm_numControlStreams sm + 1,
         sm_streamPriorityLevelsNoCtrl := (sm_streamPriorityLevelsNoCtrl sm)(stream_id s := None)\<rparr>)"

lemma mark_control_frame [simp]:
  "openPeerStreams t (mark_control s sm) = openPeerStreams t sm"
  "openLocalStreams t (mark_control s sm) = openLocalStreams t sm"
  "nextAcceptablePeer t (mark_control s sm) = nextAcceptablePeer t sm"
  "nextAcceptableLocal t (mark_control s sm) = nextAcceptableLocal t sm"
  "maxRemoteStreamId t (mark_control s sm) = maxRemoteStreamId t sm"
  "maxLocalStreamId t (mark_control s sm) = maxLocalStreamId t sm"
  "streamExists t (mark_control s sm) = streamExists t sm"
  "initial_inv (mark_control s sm) = initial_inv sm"
  "sm_nodeType (mark_control s sm) = sm_nodeType sm"
  "sm_streams (mark_control s sm) = (sm_streams sm)(stream_id s \<mapsto> s\<lparr>isControl := True\<rparr>)"
  by (simp_all add: mark_control_def put_stream_def kind_accessors streamExists_def initial_inv_def)

lemma inv_mark_control:
  assumes inv: "sm_inv sm" and s: "sm_streams sm (stream_id s) = Some s" and c: "\<not> isControl s"
  shows "sm_inv (mark_control s sm)"
proof -
  have ctl: "control_streams (mark_control s sm) = insert (stream_id s) (control_streams sm)"
    by (auto simp: control_streams_def)
  have new: "stream_id s \<notin> control_streams sm" using s c by (simp add: control_streams_def)
  have pri: "priority_inv sm" using inv by (simp add: sm_inv_def)
  have "unat (sm_numControlStreams sm) \<le> 2 ^ 63"
    using pri control_bound [OF inv] by (simp add: priority_inv_def)
  then have "unat (sm_numControlStreams (mark_control s sm)) = unat (sm_numControlStreams sm) + 1"
    by (simp add: mark_control_def put_stream_def unat_word_ariths)
  moreover have "dom (sm_streamPriorityLevelsNoCtrl (mark_control s sm)) =
      dom (sm_streams sm) - insert (stream_id s) (control_streams sm)"
    using pri by (auto simp: priority_inv_def mark_control_def put_stream_def)
  moreover have "dom (sm_streams (mark_control s sm)) = dom (sm_streams sm)" using s by auto
  ultimately have "priority_inv (mark_control s sm)"
    using pri new by (simp add: priority_inv_def ctl)
  moreover have "streamExists (stream_id s) sm" using stream_known [OF inv s] ..
  then have "streams_inv (mark_control s sm)"
    using stream_known [OF inv] by (auto simp: streams_inv_def)
  ultimately show ?thesis using inv by (simp add: sm_inv_def peer_inv_def local_inv_def)
qed

lemma setStreamAsControl_inv:
  assumes inv: "sm_inv (streamManager conn)" and s: "sm_streams (streamManager conn) (stream_id s) = Some s"
    and run: "setStreamAsControl now s conn = (s', conn')"
  shows "sm_inv (streamManager conn')" and "transportSettings conn' = transportSettings conn"
proof -
  have "conn' = snd (setStreamAsControl now s conn)" using run by simp
  also have "\<dots> = updateAppIdleState now (if isControl s then conn else on_sm (mark_control s) conn)"
    by (simp add: setStreamAsControl_def mark_control_def on_sm_def Let_def)
  finally have conn': "conn' = updateAppIdleState now (if isControl s then conn else on_sm (mark_control s) conn)" .
  show "sm_inv (streamManager conn')"
    unfolding conn' using inv inv_mark_control [OF inv s] by (cases "isControl s") simp_all
  show "transportSettings conn' = transportSettings conn"
    unfolding conn' by simp
qed

text \<open>The priority of a stream: the stream and its entry in the map change together.\<close>

lemma inv_priority_entry:
  assumes "sm_inv sm" and "sm_streamPriorityLevelsNoCtrl sm sid \<noteq> None"
  shows "sm_inv (sm\<lparr>sm_streamPriorityLevelsNoCtrl := (sm_streamPriorityLevelsNoCtrl sm)(sid \<mapsto> l)\<rparr>)"
proof -
  let ?sm = "sm\<lparr>sm_streamPriorityLevelsNoCtrl := (sm_streamPriorityLevelsNoCtrl sm)(sid \<mapsto> l)\<rparr>"
  have "dom ((sm_streamPriorityLevelsNoCtrl sm)(sid \<mapsto> l)) = dom (sm_streamPriorityLevelsNoCtrl sm)"
    using assms(2) by auto
  then have "priority_inv ?sm = priority_inv sm" by (simp add: priority_inv_def control_streams_def)
  moreover have "initial_inv ?sm = initial_inv sm" "peer_inv ?sm = peer_inv sm" "local_inv ?sm = local_inv sm"
    "streams_inv ?sm = streams_inv sm"
    by (simp_all add: initial_inv_def peer_inv_def local_inv_def streams_inv_def streamExists_def kind_accessors)
  ultimately show ?thesis using assms(1) by (simp add: sm_inv_def)
qed

lemma core_writeQueue: "sm_core (sm\<lparr>sm_writeQueue := q\<rparr>) = sm_core sm"
  by (simp add: sm_core_def)

lemma setStreamPriority_total:
  assumes inv: "sm_inv sm"
  shows "\<exists>b sm'. setStreamPriority sid newPriority sm = Inr (b, sm') \<and> sm_inv sm'"
proof (cases "sm_streams sm sid")
  case None
  then have "setStreamPriority sid newPriority sm = Inr (False, sm)" by (simp add: setStreamPriority_def findStream_def)
  then show ?thesis using inv by blast
next
  case (Some s)
  have sid: "stream_id s = sid" using inv Some by (simp add: sm_inv_def streams_inv_def)
  let ?s = "s\<lparr>priority := newPriority\<rparr>"
  have upd: "sm\<lparr>sm_streams := (sm_streams sm)(sid \<mapsto> ?s)\<rparr> = put_stream ?s sm" using sid by (simp add: put_stream_def)
  have inv1: "sm_inv (put_stream ?s sm)" using inv_put_stream [OF inv, of ?s s] Some sid by simp
  have entry: "sm_streamPriorityLevelsNoCtrl (put_stream ?s sm) sid \<noteq> None" if "\<not> isControl s"
  proof -
    have "sid \<in> dom (sm_streamPriorityLevelsNoCtrl sm)"
      using inv Some that by (auto simp: sm_inv_def priority_inv_def control_streams_def)
    then show ?thesis by (auto simp: put_stream_def)
  qed
  define sm1 where "sm1 = (if isControl s then put_stream ?s sm
    else (put_stream ?s sm)\<lparr>sm_streamPriorityLevelsNoCtrl :=
      (sm_streamPriorityLevelsNoCtrl (put_stream ?s sm))(sid \<mapsto> pri_level newPriority)\<rparr>)"
  have "sm_inv sm1" using inv1 inv_priority_entry [OF inv1 entry] by (simp add: sm1_def)
  then have inv2: "sm_inv (sm1\<lparr>sm_writeQueue := updateIfExist sid newPriority (sm_writeQueue sm1)\<rparr>)"
    by (simp add: core_inv [OF core_writeQueue])
  show ?thesis
  proof (cases "priority s = newPriority")
    case True
    then have "setStreamPriority sid newPriority sm = Inr (False, sm)"
      using Some by (simp add: setStreamPriority_def findStream_def)
    then show ?thesis using inv by blast
  next
    case False
    then have "setStreamPriority sid newPriority sm =
        Inr (True, sm1\<lparr>sm_writeQueue := updateIfExist sid newPriority (sm_writeQueue sm1)\<rparr>)"
      unfolding setStreamPriority_def findStream_def using Some upd entry sm1_def
      by (cases "isControl s") (auto simp: Let_def)
    then show ?thesis using inv2 by blast
  qed
qed

end
