(* ===== verification/Stream_Limits.thy ===== *)
theory Stream_Limits
  imports Stream_Opening
begin

text \<open>
  The stream manager over time: the states it reaches by its operations in any order, the
  invariant in all of them, and the limit on the streams the peer has open.
\<close>

section \<open>Reachable states\<close>

text \<open>
  A step is an operation of a running connection that succeeds: looking up, creating and
  closing streams, the limits of the peer, priorities, control streams, stream groups and the
  sets of streams with work to do. The other components change the contents of a stream they
  have a pointer to, but not its identifier or whether it is a control stream. New transport
  settings and the clearing of all streams at the end of a connection are not steps.
\<close>

inductive manager_step :: "QuicConnectionState \<Rightarrow> QuicConnectionState \<Rightarrow> bool" where
  get: "getStream now sid grp conn = Inr (st, conn') \<Longrightarrow> manager_step conn conn'"
| create_bidi: "createNextBidirectionalStream now grp conn = Inr (res, conn') \<Longrightarrow> manager_step conn conn'"
| create_uni: "createNextUnidirectionalStream now grp conn = Inr (res, conn') \<Longrightarrow> manager_step conn conn'"
| remove: "removeClosedStream now sid conn = Inr conn' \<Longrightarrow> manager_step conn conn'"
| limit_bidi: "setMaxLocalBidirectionalStreams m force (streamManager conn) = Inr sm \<Longrightarrow>
    manager_step conn (conn\<lparr>streamManager := sm\<rparr>)"
| limit_uni: "setMaxLocalUnidirectionalStreams m force (streamManager conn) = Inr sm \<Longrightarrow>
    manager_step conn (conn\<lparr>streamManager := sm\<rparr>)"
| priority: "setStreamPriority sid newPriority (streamManager conn) = Inr (b, sm) \<Longrightarrow>
    manager_step conn (conn\<lparr>streamManager := sm\<rparr>)"
| control: "sm_streams (streamManager conn) (stream_id s) = Some s \<Longrightarrow>
    setStreamAsControl now s conn = (s', conn') \<Longrightarrow> manager_step conn conn'"
| content: "sm_streams (streamManager conn) (stream_id s') = Some s \<Longrightarrow> isControl s' = isControl s \<Longrightarrow>
    manager_step conn (on_sm (put_stream s') conn)"
| writable: "manager_step conn (on_sm (updateWritableStreams s) conn)"
| peekable: "manager_step conn (on_sm (updatePeekableStreams s) conn)"
| readable: "manager_step conn (on_sm (\<lambda>sm. snd (updateReadableStreams now s sm)) conn)"
| group_bidi: "manager_step conn
    (on_sm (\<lambda>sm. snd (createNextBidirectionalStreamGroup (transportSettings conn) sm)) conn)"
| group_uni: "manager_step conn
    (on_sm (\<lambda>sm. snd (createNextUnidirectionalStreamGroup (transportSettings conn) sm)) conn)"

inductive manager_reachable :: "QuicConnectionState \<Rightarrow> bool" where
  start: "QuicStreamManager_make type (transportSettings conn) = Inr (streamManager conn) \<Longrightarrow>
    manager_reachable conn"
| step: "manager_reachable conn \<Longrightarrow> manager_step conn conn' \<Longrightarrow> manager_reachable conn'"

section \<open>The invariant holds in every reachable state\<close>

lemma core_members [simp]:
  "sm_core (sm\<lparr>sm_writableStreams := S\<rparr>) = sm_core sm"
  "sm_core (sm\<lparr>sm_writableDSRStreams := S\<rparr>) = sm_core sm"
  "sm_core (sm\<lparr>sm_lossStreams := S\<rparr>) = sm_core sm"
  "sm_core (sm\<lparr>sm_lossDSRStreams := S\<rparr>) = sm_core sm"
  "sm_core (sm\<lparr>sm_controlWriteQueue := S\<rparr>) = sm_core sm"
  "sm_core (sm\<lparr>sm_readableStreams := S\<rparr>) = sm_core sm"
  "sm_core (sm\<lparr>sm_peekableStreams := S\<rparr>) = sm_core sm"
  "sm_core (sm\<lparr>sm_openBidirectionalLocalStreamGroups := S\<rparr>) = sm_core sm"
  "sm_core (sm\<lparr>sm_openUnidirectionalLocalStreamGroups := S\<rparr>) = sm_core sm"
  "sm_core (sm\<lparr>sm_nextBidirectionalStreamGroupId := g\<rparr>) = sm_core sm"
  "sm_core (sm\<lparr>sm_nextUnidirectionalStreamGroupId := g\<rparr>) = sm_core sm"
  "sm_core (sm\<lparr>sm_writeQueue := q\<rparr>) = sm_core sm"
  by (simp_all add: sm_core_def)

lemma core_updates:
  "sm_core (updateWritableStreams s sm) = sm_core sm"
  "sm_core (updatePeekableStreams s sm) = sm_core sm"
  "sm_core (snd (updateReadableStreams now s sm)) = sm_core sm"
  "sm_core (snd (createNextBidirectionalStreamGroup settings sm)) = sm_core sm"
  "sm_core (snd (createNextUnidirectionalStreamGroup settings sm)) = sm_core sm"
  by (simp_all add: updateWritableStreams_def dequeue_stream_def updatePeekableStreams_def
      updateReadableStreams_def createNextBidirectionalStreamGroup_def
      createNextUnidirectionalStreamGroup_def Let_def split: sum.split prod.split)

lemmas inv_updates = core_updates [THEN core_inv]

lemma manager_step_inv:
  assumes "manager_step conn conn'" and inv: "sm_inv (streamManager conn)"
  shows "sm_inv (streamManager conn') \<and> transportSettings conn' = transportSettings conn"
  using assms
proof (cases rule: manager_step.cases)
  case (priority sid newPriority b sm)
  then show ?thesis using setStreamPriority_total [OF inv, of sid newPriority] by auto
next
  case (content s' s)
  then show ?thesis using inv_put_stream [OF inv] by simp
qed (use inv setMax_inv(1,2) [OF inv] getStream_inv [OF inv] createNextBidirectionalStream_inv [OF inv]
      createNextUnidirectionalStream_inv [OF inv] removeClosedStream_inv [OF inv] setStreamAsControl_inv [OF inv]
      in \<open>simp_all add: inv_updates\<close>)

lemma blank_inv: "sm_inv (QuicStreamManager_blank type)"
proof -
  have c: "kind_inv k n 0 {}" if "stream_class n = k" "unat n < 2 ^ 63" for k n
    using that by (simp add: kind_inv_def)
  have "stream_class 0 = 0" "stream_class 1 = 1" "stream_class 2 = 2" "stream_class 3 = 3"
    by (simp_all add: stream_class_def)
  then show ?thesis
    by (cases type)
      (auto simp: sm_inv_defs QuicStreamManager_blank_def kind_accessors class_predicates intro!: c)
qed

lemma QuicStreamManager_make_inv:
  assumes "QuicStreamManager_make type settings = Inr sm"
  shows "sm_inv sm"
proof -
  from assms obtain sm1 sm2 q
    where 1: "setMaxRemoteBidirectionalStreamsInternal (advertisedInitialMaxStreamsBidi settings) True
        (QuicStreamManager_blank type) = Inr sm1"
      and 2: "setMaxRemoteUnidirectionalStreamsInternal (advertisedInitialMaxStreamsUni settings) True sm1 = Inr sm2"
      and "sm = sm2\<lparr>sm_writeQueue := q\<rparr>"
    by (auto simp: QuicStreamManager_make_def refreshTransportSettings_def elim!: and_then_InrE)
  moreover have "sm_inv sm2" by (rule setMax_inv(4) [OF setMax_inv(3) [OF blank_inv 1] 2])
  ultimately show ?thesis by (simp add: core_inv [OF core_writeQueue])
qed

lemma reachable_inv: "manager_reachable conn \<Longrightarrow> sm_inv (streamManager conn)"
  by (induction rule: manager_reachable.induct)
    (use QuicStreamManager_make_inv manager_step_inv in blast)+

section \<open>Bidirectional streams of the peer\<close>

text \<open>The streams of a kind between two identifiers, counted.\<close>

lemma card_class_range:
  assumes "lo \<le> sid" and "stream_class lo = stream_class sid" and "unat sid + 4 < 2 ^ 64"
  shows "card (class_range lo sid) = (unat sid - unat lo) div 4 + 1"
proof -
  have "unat ` class_range lo sid = (\<lambda>i. unat lo + 4 * i) ` {0..(unat sid - unat lo) div 4}"
  proof (intro set_eqI iffI)
    fix n assume "n \<in> unat ` class_range lo sid"
    then have n: "unat lo \<le> n" "n \<le> unat sid" "n mod 4 = unat lo mod 4"
      by (auto simp: class_range_def word_le_nat_alt stream_class_def)
    then obtain i where i: "n = unat lo + 4 * i" using mod4_diff by blast
    moreover have "i \<le> (unat sid - unat lo) div 4" using n(2) i by (simp add: less_eq_div_iff_mult_less_eq)
    ultimately show "n \<in> (\<lambda>i. unat lo + 4 * i) ` {0..(unat sid - unat lo) div 4}" by auto
  next
    fix n assume "n \<in> (\<lambda>i. unat lo + 4 * i) ` {0..(unat sid - unat lo) div 4}"
    then obtain i where i: "n = unat lo + 4 * i" "i \<le> (unat sid - unat lo) div 4" by auto
    then have le: "n \<le> unat sid" using assms(1) by (auto simp: word_le_nat_alt)
    then have "unat (of_nat n :: u64) = n" using assms(3) by (intro unat_of_nat_u64) simp
    moreover have "(of_nat n :: u64) \<in> class_range lo sid"
      using calculation i le by (simp add: class_range_def word_le_nat_alt stream_class_def)
    ultimately show "n \<in> unat ` class_range lo sid" by force
  qed
  moreover have "card (unat ` class_range lo sid) = card (class_range lo sid)"
    by (rule card_image) (simp add: inj_on_def word_unat_eq_iff)
  moreover have "card ((\<lambda>i. unat lo + 4 * i) ` {0..(unat sid - unat lo) div 4}) = (unat sid - unat lo) div 4 + 1"
    by (subst card_image) (simp_all add: inj_on_def)
  ultimately show ?thesis by simp
qed

text \<open>
  What the peer may still open and what it has open together never exceed the limit that
  was advertised first.
\<close>

definition credit_inv :: "u64 \<Rightarrow> StreamId \<Rightarrow> StreamId \<Rightarrow> StreamId set \<Rightarrow> bool" where
  "credit_inv limit next maxId opened \<longleftrightarrow>
     next \<le> maxId \<and> stream_class maxId = stream_class next
   \<and> (unat maxId - unat next) div 4 + card opened \<le> unat limit"

definition bidi_side :: "QuicStreamManager \<Rightarrow> StreamId \<times> StreamId \<times> StreamId set" where
  "bidi_side sm = (sm_nextAcceptablePeerBidirectionalStreamId sm, sm_maxRemoteBidirectionalStreamId sm,
     sm_openBidirectionalPeerStreams sm)"

definition bidi_credit :: "QuicConnectionState \<Rightarrow> bool" where
  "bidi_credit conn \<longleftrightarrow>
     (let limit = advertisedInitialMaxStreamsBidi (transportSettings conn)
      in unat limit \<le> 2 ^ 60
       \<and> (case bidi_side (streamManager conn) of (next, maxId, opened) \<Rightarrow> credit_inv limit next maxId opened))"

lemma credit_open:
  assumes "credit_inv limit next maxId opened" and "kind_inv k next maxId opened"
    and "next \<le> sid" and "sid < maxId" and "stream_class sid = k"
  shows "credit_inv limit (sid + 4) maxId (opened \<union> class_range next sid)"
proof -
  note kind = kind_inv_open [OF assms(2-5)]
  have cls: "stream_class next = k" "stream_class maxId = k" using assms(1,2) by (simp_all add: credit_inv_def kind_inv_def)
  have lt: "unat sid < unat maxId" "unat next \<le> unat sid" using assms(3,4) by (simp_all add: word_less_nat_alt word_le_nat_alt)
  have mods: "unat sid mod 4 = unat maxId mod 4" "unat next mod 4 = unat maxId mod 4"
    using cls assms(5) by (simp_all add: stream_class_def)
  obtain i where i: "unat sid = unat next + 4 * i" using mod4_diff [of "unat next" "unat sid"] lt(2) mods by auto
  obtain j where "unat maxId = unat sid + 4 * j" using mod4_diff [of "unat sid" "unat maxId"] lt(1) mods by auto
  then obtain j where j: "unat maxId = unat sid + 4 + 4 * j" using lt(1) by (cases j) auto
  then have le: "unat sid + 4 \<le> unat maxId" by simp
  have "opened \<inter> class_range next sid = {}"
    using assms(2) by (auto simp: kind_inv_def class_range_def)
  then have "card (opened \<union> class_range next sid) = card opened + ((unat sid - unat next) div 4 + 1)"
    using card_class_range [OF assms(3) _ kind(3)] cls assms(5) by (simp add: card_Un_disjoint)
  moreover have "(unat maxId - (unat sid + 4)) div 4 + ((unat sid - unat next) div 4 + 1) = (unat maxId - unat next) div 4"
    by (simp add: i j)
  ultimately show ?thesis using assms(1) le kind(2) kind(1) cls
    by (simp add: credit_inv_def kind_inv_def word_le_nat_alt)
qed

text \<open>Most operations leave the bidirectional streams of the peer alone.\<close>

lemma core_side: "sm_core a = sm_core b \<Longrightarrow> bidi_side a = bidi_side b"
  by (simp add: sm_core_def bidi_side_def)

lemma side_members [simp]:
  "bidi_side (put_stream s sm) = bidi_side sm"
  "bidi_side (set_openLocalStreams sid S sm) = bidi_side sm"
  "bidi_side (set_nextAcceptableLocal sid v sm) = bidi_side sm"
  "bidi_side (sm\<lparr>sm_nextBidirectionalStreamId := v\<rparr>) = bidi_side sm"
  "bidi_side (sm\<lparr>sm_nextUnidirectionalStreamId := v\<rparr>) = bidi_side sm"
  "bidi_side (sm\<lparr>sm_streams := f\<rparr>) = bidi_side sm"
  "bidi_side (sm\<lparr>sm_streamPriorityLevelsNoCtrl := g\<rparr>) = bidi_side sm"
  "bidi_side (sm\<lparr>sm_numControlStreams := v\<rparr>) = bidi_side sm"
  "bidi_side (sm\<lparr>sm_writeQueue := q\<rparr>) = bidi_side sm"
  "bidi_side (sm\<lparr>sm_remoteBidirectionalStreamLimitUpdate := u\<rparr>) = bidi_side sm"
  "bidi_side (drop_state sid sm) = bidi_side sm"
  "bidi_side (streamManager (updateAppIdleState now conn)) = bidi_side (streamManager conn)"
  by (simp_all add: bidi_side_def put_stream_def set_openLocalStreams_def set_nextAcceptableLocal_def
      drop_state_def updateAppIdleState_def Let_def)

lemma side_emplace:
  "emplace_stream s sm = (s', sm') \<Longrightarrow> bidi_side sm' = bidi_side sm"
  "addToStreamPriorityMap s sm = Inr sm' \<Longrightarrow> bidi_side sm' = bidi_side sm"
  by (auto simp: emplace_stream_def addToStreamPriorityMap_def split: option.splits if_splits)

lemma side_opened_local:
  "getOrCreateOpenedLocalStream sid conn = Inr (st, conn') \<Longrightarrow>
   bidi_side (streamManager conn') = bidi_side (streamManager conn)"
  by (auto simp: getOrCreateOpenedLocalStream_def Let_def side_emplace elim!: and_then_InrE
      split: if_splits prod.splits)

lemma side_createStream:
  assumes "createStream now sid grp conn = Inr (st, conn')"
  shows "bidi_side (streamManager conn') = bidi_side (streamManager conn)"
  using assms
  by (auto simp: createStream_def Let_def side_emplace side_opened_local elim!: and_then_InrE
      split: if_splits prod.splits option.splits)

lemma side_createNext:
  "createNextBidirectionalStream now grp conn = Inr (st, conn') \<Longrightarrow>
   bidi_side (streamManager conn') = bidi_side (streamManager conn)"
  "createNextUnidirectionalStream now grp conn = Inr (st, conn') \<Longrightarrow>
   bidi_side (streamManager conn') = bidi_side (streamManager conn)"
  by (auto simp: createNextBidirectionalStream_def createNextUnidirectionalStream_def
      side_createStream elim!: and_then_InrE)

lemma side_local_limits:
  "setMaxLocalBidirectionalStreams m force sm = Inr sm' \<Longrightarrow> bidi_side sm' = bidi_side sm"
  "setMaxLocalUnidirectionalStreams m force sm = Inr sm' \<Longrightarrow> bidi_side sm' = bidi_side sm"
  by (auto simp: setMaxLocalBidirectionalStreams_def setMaxLocalUnidirectionalStreams_def bidi_side_def
      Let_def split: if_splits)

lemma side_priority:
  "setStreamPriority sid newPriority sm = Inr (b, sm') \<Longrightarrow> bidi_side sm' = bidi_side sm"
  "setStreamAsControl now s conn = (s', conn') \<Longrightarrow>
   bidi_side (streamManager conn') = bidi_side (streamManager conn)"
  by (auto simp: setStreamPriority_def setStreamAsControl_def Let_def elim!: and_then_InrE
      split: if_splits option.splits)

lemma bidi_credit_cong:
  assumes "bidi_credit conn" and "transportSettings conn' = transportSettings conn"
    and "bidi_side (streamManager conn') = bidi_side (streamManager conn)"
  shows "bidi_credit conn'"
  using assms by (simp add: bidi_credit_def)

lemma bidi_side_of:
  "\<not> isUnidirectionalStream t \<Longrightarrow>
   bidi_side sm = (nextAcceptablePeer t sm, maxRemoteStreamId t sm, openPeerStreams t sm)"
  by (simp add: bidi_side_def kind_accessors)

text \<open>Looking up a stream of the peer uses up credit for the streams it opens.\<close>

lemma credit_lookup:
  assumes inv: "sm_inv (streamManager conn)" and credit: "bidi_credit conn"
    and run: "getOrCreatePeerStream sid grp conn = Inr (st, conn')"
  shows "bidi_credit conn'"
proof -
  let ?sm = "streamManager conn" and ?sm' = "streamManager conn'"
  have ok: "check_peer_stream (sm_nodeType ?sm) (transportSettings conn) sid grp = Inr ()"
    using run by (cases "check_peer_stream (sm_nodeType ?sm) (transportSettings conn) sid grp")
      (simp_all add: getOrCreatePeerStream_def and_then_def)
  note remote = check_remote [OF ok]
  note res = getOrCreatePeerStream_cases [OF inv remote ok, unfolded run]
  show ?thesis
  proof (cases st)
    case None
    with res credit show ?thesis by simp
  next
    case (Some s)
    with res have looked: "peer_lookup_done sid conn s conn'" and settings: "transportSettings conn' = transportSettings conn"
      and cause: "sid \<in> openPeerStreams sid ?sm \<or> sid < maxRemoteStreamId sid ?sm" by simp_all
    note kind = peer_kind [OF inv remote]
    show ?thesis
    proof (cases "isUnidirectionalStream sid \<or> sid < nextAcceptablePeer sid ?sm")
      case True
      have 0: "\<not> isUnidirectionalStream 0" by (simp add: class_predicates stream_class_def)
      have "class_range (nextAcceptablePeer sid ?sm) sid = {}" if "sid < nextAcceptablePeer sid ?sm"
        using that by (intro class_range_empty) simp
      then have "bidi_side ?sm' = bidi_side ?sm"
        using True looked 0 bidi_side_of [OF 0] bidi_side_of [of sid]
        by (cases "isUnidirectionalStream sid") (simp_all add: peer_lookup_done_def Let_def)
      then show ?thesis by (rule bidi_credit_cong [OF credit settings])
    next
      case False
      then have bidi: "\<not> isUnidirectionalStream sid" and le: "nextAcceptablePeer sid ?sm \<le> sid" by (simp_all add: not_less)
      with cause kind have "sid < maxRemoteStreamId sid ?sm" by (auto simp: kind_inv_def)
      from credit_open [OF _ kind le this refl] credit have "credit_inv (advertisedInitialMaxStreamsBidi (transportSettings conn))
          (sid + 4) (maxRemoteStreamId sid ?sm) (openPeerStreams sid ?sm \<union> class_range (nextAcceptablePeer sid ?sm) sid)"
        by (simp add: bidi_credit_def Let_def bidi_side_of [OF bidi])
      then show ?thesis using credit looked settings False
        by (simp add: bidi_credit_def Let_def bidi_side_of [OF bidi] peer_lookup_done_def)
    qed
  qed
qed

lemma credit_getStream:
  assumes inv: "sm_inv (streamManager conn)" and credit: "bidi_credit conn"
    and run: "getStream now sid grp conn = Inr (st, conn')"
  shows "bidi_credit conn'"
proof (cases "isRemoteStream (sm_nodeType (streamManager conn)) sid")
  case True
  with run obtain conn1 where got: "getOrCreatePeerStream sid grp conn = Inr (st, conn1)"
    and "conn' = updateAppIdleState now conn1"
    by (auto simp: getStream_def elim!: and_then_InrE)
  then show ?thesis using bidi_credit_cong [OF credit_lookup [OF inv credit got], of conn'] by simp
next
  case False
  then have "bidi_side (streamManager conn') = bidi_side (streamManager conn)"
    using run by (auto simp: getStream_def side_opened_local elim!: and_then_InrE split: option.splits if_splits)
  then show ?thesis using bidi_credit_cong [OF credit] getStream_inv(2) [OF inv run] by simp
qed

text \<open>Closing a stream of the peer gives credit back.\<close>

lemma credit_close:
  assumes "credit_inv limit next maxId opened"
  shows "credit_inv limit next maxId (opened - {sid})"
proof -
  have "card (opened - {sid}) \<le> card opened" by (intro card_mono) auto
  then show ?thesis using assms by (simp add: credit_inv_def)
qed

lemma credit_number:
  assumes "credit_inv limit next maxId opened"
  shows "unat ((maxId - next) div 4) = (unat maxId - unat next) div 4"
    and "unat (limit - (maxId - next) div 4 - of_nat (card opened))
         + (unat maxId - unat next) div 4 + card opened = unat limit"
proof -
  have le: "next \<le> maxId" and sum: "(unat maxId - unat next) div 4 + card opened \<le> unat limit"
    using assms by (simp_all add: credit_inv_def)
  show o: "unat ((maxId - next) div 4) = (unat maxId - unat next) div 4"
    using le by (simp add: unat_div unat_sub)
  have "card opened \<le> unat limit" using sum by simp
  then have "card opened < 2 ^ LENGTH(64)" by (rule le_less_trans) (rule unsigned_less)
  then have n: "unat (of_nat (card opened) :: u64) = card opened" by (intro unat_of_nat_u64) simp
  have 1: "(maxId - next) div 4 \<le> limit" using o sum by (simp add: word_le_nat_alt)
  have 2: "unat (limit - (maxId - next) div 4) = unat limit - (unat maxId - unat next) div 4"
    using 1 o by (simp add: unat_sub)
  then have "of_nat (card opened) \<le> limit - (maxId - next) div 4" using n sum by (simp add: word_le_nat_alt)
  then show "unat (limit - (maxId - next) div 4 - of_nat (card opened))
         + (unat maxId - unat next) div 4 + card opened = unat limit"
    using 2 n sum by (simp add: unat_sub)
qed

lemma credit_raise:
  assumes credit: "credit_inv limit next maxId opened"
    and raised: "unat maxId' = unat maxId + 4 * unat (limit - (maxId - next) div 4 - of_nat (card opened))"
  shows "credit_inv limit next maxId' opened"
    and "(unat maxId' - unat next) div 4 + card opened = unat limit"
proof -
  have le: "unat next \<le> unat maxId" and c: "stream_class maxId = stream_class next"
    using credit by (simp_all add: credit_inv_def word_le_nat_alt)
  let ?c = "unat (limit - (maxId - next) div 4 - of_nat (card opened))"
  have "unat maxId' - unat next = (unat maxId - unat next) + ?c * 4" using le raised by simp
  then have "(unat maxId' - unat next) div 4 = (unat maxId - unat next) div 4 + ?c"
    by (simp only: div_mult_self1 [of 4])
  then show full: "(unat maxId' - unat next) div 4 + card opened = unat limit"
    using credit_number(2) [OF credit] by simp
  have "stream_class maxId' = stream_class next" using c raised by (simp add: stream_class_def)
  then show "credit_inv limit next maxId' opened"
    using full le raised by (simp add: credit_inv_def word_le_nat_alt)
qed

lemma max_number:
  assumes "stream_class maxId = unat r" and "unat r \<le> 3"
  shows "unat maxId = unat r + 4 * unat ((maxId - r) div 4)"
proof -
  have mod: "unat maxId mod 4 = unat r" using assms(1) by (simp add: stream_class_def)
  then have "r \<le> maxId" using mod_less_eq_dividend [of "unat maxId" 4] by (simp add: word_le_nat_alt)
  then have "unat ((maxId - r) div 4) = (unat maxId - unat r) div 4" by (simp add: unat_div unat_sub)
  moreover have "4 * ((unat maxId - unat r) div 4) = unat maxId - unat r"
    using dvd_minus_mod [of 4 "unat maxId"] mod by (intro dvd_mult_div_cancel) simp
  moreover have "unat r \<le> unat maxId" using \<open>r \<le> maxId\<close> by (simp add: word_le_nat_alt)
  ultimately show ?thesis by simp
qed

lemma update_limit_runs:
  assumes "stream_credit settings sid sm = Inr (w, c)" and "\<not> isUnidirectionalStream sid" and "c \<ge> w"
  defines "m \<equiv> (sm_maxRemoteBidirectionalStreamId sm - sm_initialRemoteBidirectionalStreamId sm) div 4"
  defines "new \<equiv> (m + c) * 4 + sm_initialRemoteBidirectionalStreamId sm"
  assumes "\<not> m + c > kMaxMaxStreams"
    and same: "\<not> new > sm_maxRemoteBidirectionalStreamId sm \<Longrightarrow> new = sm_maxRemoteBidirectionalStreamId sm"
  shows "update_remote_limit settings sid sm =
    Inr (sm\<lparr>sm_maxRemoteBidirectionalStreamId := new, sm_remoteBidirectionalStreamLimitUpdate := Some (m + c)\<rparr>)"
proof -
  have "setMaxRemoteBidirectionalStreams (m + c) sm = Inr (sm\<lparr>sm_maxRemoteBidirectionalStreamId := new\<rparr>)"
    unfolding setMaxRemoteBidirectionalStreams_def setMaxRemoteBidirectionalStreamsInternal_def Let_def
      new_def [symmetric]
    using assms(6) same by (auto intro!: QuicStreamManager.equality)
  then show ?thesis using assms(1-3) by (simp add: update_remote_limit_def m_def [symmetric] Let_def)
qed

lemma update_limit_bidi:
  assumes inv: "sm_inv sm" and remote: "isRemoteStream (sm_nodeType sm) sid" and bidi: "\<not> isUnidirectionalStream sid"
    and small: "unat (advertisedInitialMaxStreamsBidi settings) \<le> 2 ^ 60"
    and side: "bidi_side sm = (next, maxId, opened)"
    and credit: "credit_inv (advertisedInitialMaxStreamsBidi settings) next maxId opened"
  shows "case update_remote_limit settings sid sm of
      Inl e \<Rightarrow> e = QuicTransportException STREAM_LIMIT_ERROR
    | Inr sm' \<Rightarrow> \<exists>maxId'. bidi_side sm' = (next, maxId', opened)
        \<and> credit_inv (advertisedInitialMaxStreamsBidi settings) next maxId' opened
        \<and> (maxId' = maxId \<and> unat (advertisedInitialMaxStreamsBidi settings) - ((unat maxId - unat next) div 4 + card opened)
              < unat (advertisedInitialMaxStreamsBidi settings) div unat (sm_streamLimitWindowingFraction sm)
           \<or> (unat maxId' - unat next) div 4 + card opened = unat (advertisedInitialMaxStreamsBidi settings)
             \<and> (\<exists>n. sm_remoteBidirectionalStreamLimitUpdate sm' = Some n
                   \<and> maxId' = n * 4 + sm_initialRemoteBidirectionalStreamId sm))"
proof -
  let ?L = "advertisedInitialMaxStreamsBidi settings" and ?r = "sm_initialRemoteBidirectionalStreamId sm"
  let ?c = "?L - (maxId - next) div 4 - of_nat (card opened)" and ?w = "?L div sm_streamLimitWindowingFraction sm"
  let ?m = "(maxId - ?r) div 4"
  have parts: "sm_nextAcceptablePeerBidirectionalStreamId sm = next" "sm_maxRemoteBidirectionalStreamId sm = maxId"
    "sm_openBidirectionalPeerStreams sm = opened"
    using side by (simp_all add: bidi_side_def)
  have "sm_streamLimitWindowingFraction sm \<noteq> 0" using inv by (simp add: sm_inv_def initial_inv_def Let_def)
  then have cr: "stream_credit settings sid sm = Inr (?w, ?c)"
    using bidi parts by (simp add: stream_credit_def openableRemoteBidirectionalStreams_def openPeerStreams_def Let_def)
  note num = credit_number(2) [OF credit]
  have kind: "kind_inv (stream_class sid) next maxId opened"
    using peer_kind [OF inv remote] side bidi_side_of [OF bidi] by simp
  then have cls: "stream_class maxId = unat ?r"
    using credit inv remote bidi by (cases "sm_nodeType sm") (auto simp: kind_inv_def credit_inv_def class_predicates sm_inv_def initial_inv_def
        Let_def split: if_splits)
  note r3 = initial_small(1) [OF inv]
  note mx = max_number [OF cls r3]
  show ?thesis
  proof (cases "?c \<ge> ?w")
    case False
    then have "update_remote_limit settings sid sm = Inr sm" using cr by (simp add: update_remote_limit_def)
    moreover have "unat ?c < unat ?L div unat (sm_streamLimitWindowingFraction sm)"
      using False by (simp add: word_le_nat_alt not_le unat_div)
    moreover have "unat ?L - ((unat maxId - unat next) div 4 + card opened) = unat ?c" using num by simp
    ultimately show ?thesis using side credit by simp
  next
    case window: True
    show ?thesis
    proof (cases "?m + ?c > kMaxMaxStreams")
      case True
      then have "update_remote_limit settings sid sm = Inl (QuicTransportException STREAM_LIMIT_ERROR)"
        using cr bidi window parts
        by (simp add: update_remote_limit_def setMaxRemoteBidirectionalStreams_def
            setMaxRemoteBidirectionalStreamsInternal_def)
      then show ?thesis by simp
    next
      case False
      let ?new = "(?m + ?c) * 4 + ?r"
      have "unat ?m \<le> 2 ^ 60" using kind mx by (simp add: kind_inv_def)
      moreover have "unat ?c \<le> 2 ^ 60" using num small by simp
      ultimately have "unat (?m + ?c) = unat ?m + unat ?c" by (intro unat_add_no_wrap) simp
      then have raised: "unat ?new = unat maxId + 4 * unat ?c"
        using unat_max_id(1) [OF False r3] mx by simp
      note full = credit_raise [OF credit raised]
      have same: "?new = maxId" if "\<not> ?new > maxId"
        using that raised by (simp add: word_less_nat_alt word_unat_eq_iff)
      define sm' where "sm' = sm\<lparr>sm_maxRemoteBidirectionalStreamId := ?new,
          sm_remoteBidirectionalStreamLimitUpdate := Some (?m + ?c)\<rparr>"
      have "update_remote_limit settings sid sm = Inr sm'"
        using update_limit_runs [OF cr bidi window] False same unfolding sm'_def parts by simp
      moreover have "bidi_side sm' = (next, ?new, opened)" using parts by (simp add: sm'_def bidi_side_def)
      moreover have "sm_remoteBidirectionalStreamLimitUpdate sm' = Some (?m + ?c)" by (simp add: sm'_def)
      ultimately show ?thesis using full by auto
    qed
  qed
qed

text \<open>Closing a bidirectional stream of the peer, in full.\<close>

lemma core_limits:
  assumes "sm_core a = sm_core b"
  shows "sm_streamLimitWindowingFraction a = sm_streamLimitWindowingFraction b"
    and "sm_initialRemoteBidirectionalStreamId a = sm_initialRemoteBidirectionalStreamId b"
  using assms by (simp_all add: sm_core_def)

lemma closing_frame:
  "sm_streamLimitWindowingFraction (close_peer sid (drop_state sid sm)) = sm_streamLimitWindowingFraction sm"
  "sm_initialRemoteBidirectionalStreamId (close_peer sid (drop_state sid sm)) = sm_initialRemoteBidirectionalStreamId sm"
  by (simp_all add: close_peer_def set_openPeerStreams_def drop_state_def)

lemma streams_update_remote_limit:
  "update_remote_limit settings sid sm = Inr sm' \<Longrightarrow> sm_streams sm' = sm_streams sm"
  by (auto simp: update_remote_limit_def setMaxRemoteBidirectionalStreams_def setMaxRemoteUnidirectionalStreams_def
      setMaxRemoteBidirectionalStreamsInternal_def setMaxRemoteUnidirectionalStreamsInternal_def Let_def
      elim!: and_then_InrE split: if_splits)

lemma close_peer_bidi:
  assumes inv: "sm_inv (streamManager conn)" and credit: "bidi_credit conn"
    and s: "sm_streams (streamManager conn) sid = Some s"
    and remote: "isRemoteStream (sm_nodeType (streamManager conn)) sid" and bidi: "\<not> isUnidirectionalStream sid"
    and side: "bidi_side (streamManager conn) = (next, maxId, opened)"
  defines "limit \<equiv> advertisedInitialMaxStreamsBidi (transportSettings conn)"
  shows "case removeClosedStream now sid conn of
      Inl e \<Rightarrow> e = QuicTransportException STREAM_LIMIT_ERROR
    | Inr conn' \<Rightarrow> sm_streams (streamManager conn') = (sm_streams (streamManager conn))(sid := None)
        \<and> (\<exists>maxId'. bidi_side (streamManager conn') = (next, maxId', opened - {sid})
          \<and> credit_inv limit next maxId' (opened - {sid})
          \<and> (maxId' = maxId \<and> unat limit - ((unat maxId - unat next) div 4 + card (opened - {sid}))
                < unat limit div unat (sm_streamLimitWindowingFraction (streamManager conn))
             \<or> (unat maxId' - unat next) div 4 + card (opened - {sid}) = unat limit
               \<and> (\<exists>n. sm_remoteBidirectionalStreamLimitUpdate (streamManager conn') = Some n
                     \<and> maxId' = n * 4 + sm_initialRemoteBidirectionalStreamId (streamManager conn))))"
proof -
  let ?f = "forget_stream s (streamManager conn)"
  let ?sm = "close_peer sid (drop_state sid ?f)"
  note run = removeClosedStream_cases [OF inv s]
  have core: "sm_core ?f = sm_core (streamManager conn)" by (rule core_forget)
  have inv1: "sm_inv ?sm" by (rule inv_close(1) [OF run(2,3)])
  have node: "sm_nodeType ?sm = sm_nodeType (streamManager conn)" using core_eq(1) [OF core] by simp
  have strms: "sm_streams ?sm = (sm_streams (streamManager conn))(sid := None)" using core_eq(2) [OF core] by simp
  have side1: "bidi_side ?sm = (next, maxId, opened - {sid})"
    using side core_side [OF core] by (simp add: bidi_side_of [OF bidi])
  have small: "unat limit \<le> 2 ^ 60" and cr: "credit_inv limit next maxId (opened - {sid})"
    using credit side by (simp_all add: bidi_credit_def Let_def limit_def credit_close)
  have remote1: "isRemoteStream (sm_nodeType ?sm) sid" using remote node by simp
  note upd = update_limit_bidi [OF inv1 remote1 bidi small [unfolded limit_def] side1 cr [unfolded limit_def]]
  have idle: "sm_remoteBidirectionalStreamLimitUpdate (streamManager (updateAppIdleState now c)) =
      sm_remoteBidirectionalStreamLimitUpdate (streamManager c)" for c
    by (simp add: updateAppIdleState_def Let_def)
  show ?thesis
  proof (cases "update_remote_limit (transportSettings conn) sid ?sm")
    case (Inl e)
    then show ?thesis using upd remote unfolding run(1) by simp
  next
    case (Inr sm')
    then show ?thesis using upd remote streams_update_remote_limit [OF Inr]
      unfolding run(1) closing_frame core_limits [OF core]
      by (simp add: idle core_eq(2) [OF core] limit_def [symmetric])
  qed
qed

text \<open>
  Closing a unidirectional stream of the peer reads the number of streams the peer can still
  open from the function without a return statement.
\<close>

lemma update_limit_uni:
  "isUnidirectionalStream sid \<Longrightarrow> update_remote_limit settings sid sm = Inl undefined_behaviour"
  by (simp add: update_remote_limit_def stream_credit_def openableRemoteUnidirectionalStreams_def Let_def)

lemma credit_remove:
  assumes inv: "sm_inv (streamManager conn)" and credit: "bidi_credit conn"
    and run: "removeClosedStream now sid conn = Inr conn'"
  shows "bidi_credit conn'"
proof (cases "sm_streams (streamManager conn) sid")
  case None
  then show ?thesis using run credit by (simp add: removeClosedStream_def)
next
  case (Some s)
  note settings = removeClosedStream_inv(2) [OF inv run]
  note cases = removeClosedStream_cases [OF inv Some]
  show ?thesis
  proof (cases "isRemoteStream (sm_nodeType (streamManager conn)) sid")
    case True
    then have bidi: "\<not> isUnidirectionalStream sid" using run cases(1) update_limit_uni by auto
    obtain n m opened where side: "bidi_side (streamManager conn) = (n, m, opened)" by (metis prod_cases3)
    from close_peer_bidi [OF inv credit Some True bidi side, of now] credit
    show ?thesis unfolding run by (auto simp: bidi_credit_def Let_def settings)
  next
    case False
    then have "bidi_side (streamManager conn') = bidi_side (streamManager conn)"
      using run cases(1) core_side [OF core_forget, of s "streamManager conn"] by (auto simp: close_local_def)
    then show ?thesis by (rule bidi_credit_cong [OF credit settings])
  qed
qed

lemma manager_step_credit:
  assumes "manager_step conn conn'" and inv: "sm_inv (streamManager conn)" and credit: "bidi_credit conn"
  shows "bidi_credit conn'"
proof -
  have settings: "transportSettings conn' = transportSettings conn" using manager_step_inv [OF assms(1,2)] by blast
  from assms(1) show ?thesis
  proof (cases rule: manager_step.cases)
    case (get now sid grp st)
    then show ?thesis using credit_getStream [OF inv credit] by blast
  next
    case (remove now sid)
    then show ?thesis using credit_remove [OF inv credit] by blast
  qed (intro bidi_credit_cong [OF credit settings];
       simp add: side_createNext side_local_limits side_priority core_side [OF core_updates(1)]
         core_side [OF core_updates(2)] core_side [OF core_updates(3)] core_side [OF core_updates(4)]
         core_side [OF core_updates(5)])+
qed

lemma make_side:
  assumes "QuicStreamManager_make type settings = Inr sm"
  defines "r \<equiv> if type = Server then 0 else 1 :: u64"
  shows "\<not> advertisedInitialMaxStreamsBidi settings > kMaxMaxStreams"
    and "bidi_side sm = (r, advertisedInitialMaxStreamsBidi settings * 4 + r, {})"
  using assms(1)
  by (auto simp: QuicStreamManager_make_def refreshTransportSettings_def setMaxRemoteBidirectionalStreamsInternal_def
      setMaxRemoteUnidirectionalStreamsInternal_def QuicStreamManager_blank_def bidi_side_def Let_def r_def
      elim!: and_then_InrE split: if_splits)

lemma make_credit:
  assumes "QuicStreamManager_make type (transportSettings conn) = Inr (streamManager conn)"
  shows "bidi_credit conn"
proof -
  let ?L = "advertisedInitialMaxStreamsBidi (transportSettings conn)" and ?r = "if type = Server then 0 else 1 :: u64"
  note ok = make_side(1) [OF assms] and side = make_side(2) [OF assms]
  have r: "unat ?r \<le> 3" by simp
  have "unat ?L \<le> 2 ^ 60" using ok by (simp add: word_less_nat_alt not_less)
  moreover have "credit_inv ?L ?r (?L * 4 + ?r) {}"
    using unat_max_id(1) [OF ok r] by (simp add: credit_inv_def word_le_nat_alt stream_class_def)
  ultimately show ?thesis using side by (simp add: bidi_credit_def)
qed

lemma reachable_credit: "manager_reachable conn \<Longrightarrow> bidi_credit conn"
proof (induction rule: manager_reachable.induct)
  case (start type conn)
  then show ?case by (rule make_credit)
next
  case (step conn conn')
  then show ?case using manager_step_credit reachable_inv by blast
qed

section \<open>Two connections of a server\<close>

text \<open>A new connection with the default settings, and one where the peer has used a stream.\<close>

definition new_server :: QuicConnectionState where
  "new_server = QuicConnectionState_make Server (projr (QuicStreamManager_make Server TransportSettings_init)) 0"

definition used_server :: "StreamId \<Rightarrow> QuicConnectionState" where
  "used_server sid = (case getStream 0 sid None new_server of Inr (st, conn) \<Rightarrow> conn)"

lemma new_server_reachable: "manager_reachable new_server"
proof (rule manager_reachable.start)
  show "QuicStreamManager_make Server (transportSettings new_server) = Inr (streamManager new_server)"
    by (simp add: new_server_def QuicConnectionState_make_def QuicStreamManager_make_def refreshTransportSettings_def
        setMaxRemoteBidirectionalStreamsInternal_def setMaxRemoteUnidirectionalStreamsInternal_def
        QuicStreamManager_blank_def TransportSettings_init_def Let_def)
qed

lemma new_server_members:
  "sm_nodeType (streamManager new_server) = Server"
  "check_peer_stream Server (transportSettings new_server) sid None = (if isServerStream sid
     then Inl (QuicTransportException STREAM_STATE_ERROR) else Inr ())"
  "nextAcceptablePeer sid (streamManager new_server) = (if isUnidirectionalStream sid then 2 else 0)"
  "maxRemoteStreamId sid (streamManager new_server) = (if isUnidirectionalStream sid then 8194 else 8192)"
  "openPeerStreams sid (streamManager new_server) = {}"
  by (auto simp: new_server_def QuicConnectionState_make_def QuicStreamManager_make_def refreshTransportSettings_def
      setMaxRemoteBidirectionalStreamsInternal_def setMaxRemoteUnidirectionalStreamsInternal_def
      QuicStreamManager_blank_def TransportSettings_init_def Let_def kind_accessors
      check_peer_stream_def isClientStream_def isServerStream_def)

lemma stream_2_8:
  "isRemoteStream Server 8" "isRemoteStream Server 2" "\<not> isUnidirectionalStream 8" "isUnidirectionalStream 2"
  "\<not> isServerStream 8" "\<not> isServerStream 2"
  by (simp_all add: class_predicates stream_class_def isServerStream_def)

lemma used_server:
  assumes "sid = 2 \<or> sid = 8"
  obtains s where "getStream 0 sid None new_server = Inr (Some s, used_server sid)"
    and "sm_streams (streamManager (used_server sid)) sid = Some s"
    and "sm_nodeType (streamManager (used_server sid)) = Server"
proof -
  note inv = reachable_inv [OF new_server_reachable]
  have remote: "isRemoteStream Server sid" using assms stream_2_8 by auto
  have "case getOrCreatePeerStream sid None new_server of
      Inl e \<Rightarrow> False | Inr (None, c) \<Rightarrow> False
    | Inr (Some s, c) \<Rightarrow> sm_streams (streamManager c) sid = Some s \<and> sm_nodeType (streamManager c) = Server"
    using assms getOrCreatePeerStream_cases [OF inv, of sid None] remote
    by (auto simp: new_server_members stream_2_8 peer_lookup_done_def Let_def
        split: sum.splits option.splits prod.splits)
  then obtain s c where "getOrCreatePeerStream sid None new_server = Inr (Some s, c)"
    "sm_streams (streamManager c) sid = Some s" "sm_nodeType (streamManager c) = Server"
    by (auto split: sum.splits option.splits prod.splits)
  then show thesis
    by (intro that [of s]) (simp_all add: used_server_def getStream_def new_server_members remote)
qed

lemma used_server_reachable: "sid = 2 \<or> sid = 8 \<Longrightarrow> manager_reachable (used_server sid)"
  by (erule used_server, rule manager_reachable.step [OF new_server_reachable], rule manager_step.get)

section \<open>Properties\<close>

text \<open>C4:
  In every state the stream manager reaches, by its operations in any order: a stream that
  has state is open and carries its own identifier; the open streams of a kind have the two
  low bits of that kind and lie below the next one to open; exactly the streams that are not
  control streams have an entry in the map of priorities; the counter of control streams is
  their number; and the identifiers stay far enough from the wrap-around that the loop which
  opens streams ends.
\<close>

theorem stream_manager_consistent:
  assumes "manager_reachable conn"
  shows "sm_inv (streamManager conn)"
  by (rule reachable_inv [OF assms])

theorem stream_manager_consistent_witness:
  "manager_reachable (used_server 8) \<and> sm_inv (streamManager (used_server 8))"
  using stream_manager_consistent [of "used_server 8"] used_server_reachable [of 8] by simp

text \<open>C33:
  A stream of the peer that passes the checks of its identifier is looked up in one of three
  ways. Beyond the advertised limit it is a stream limit error. A stream that was opened and
  closed before gives no stream and changes nothing. Otherwise there is a stream with that
  identifier afterwards, exactly the streams of its kind from the next acceptable one up to
  it have become open, and nothing of the other kind has changed.
\<close>

theorem peer_stream_opening:
  assumes "manager_reachable conn" and "isRemoteStream (sm_nodeType (streamManager conn)) sid"
    and "check_peer_stream (sm_nodeType (streamManager conn)) (transportSettings conn) sid grp = Inr ()"
  shows "case getOrCreatePeerStream sid grp conn of
      Inl e \<Rightarrow> e = QuicTransportException STREAM_LIMIT_ERROR
             \<and> nextAcceptablePeer sid (streamManager conn) \<le> sid \<and> maxRemoteStreamId sid (streamManager conn) \<le> sid
    | Inr (None, conn') \<Rightarrow> conn' = conn \<and> sid < nextAcceptablePeer sid (streamManager conn)
             \<and> sid \<notin> openPeerStreams sid (streamManager conn)
    | Inr (Some s, conn') \<Rightarrow> peer_lookup_done sid conn s conn' \<and> transportSettings conn' = transportSettings conn
             \<and> (sid \<in> openPeerStreams sid (streamManager conn) \<or> sid < maxRemoteStreamId sid (streamManager conn))"
  by (rule getOrCreatePeerStream_cases [OF reachable_inv [OF assms(1)] assms(2,3)])

theorem peer_stream_opening_witness:
  "case getOrCreatePeerStream 8 None new_server of
      Inl e \<Rightarrow> False | Inr (None, conn') \<Rightarrow> False
    | Inr (Some s, conn') \<Rightarrow> peer_lookup_done 8 new_server s conn'"
  using peer_stream_opening [OF new_server_reachable, of 8 None]
  by (auto simp: new_server_members stream_2_8 split: sum.splits option.splits prod.splits)

text \<open>C15:
  The bidirectional streams that the peer has open and those it may still open are together
  never more than the limit advertised at the start, in every state the manager reaches.
\<close>

theorem peer_bidirectional_limit:
  assumes "manager_reachable conn"
  shows "unat (openableRemoteBidirectionalStreams (streamManager conn))
         + card (sm_openBidirectionalPeerStreams (streamManager conn))
       \<le> unat (advertisedInitialMaxStreamsBidi (transportSettings conn))"
proof -
  obtain n m opened where side: "bidi_side (streamManager conn) = (n, m, opened)" by (metis prod_cases3)
  with reachable_credit [OF assms] have "credit_inv (advertisedInitialMaxStreamsBidi (transportSettings conn)) n m opened"
    by (simp add: bidi_credit_def Let_def)
  from credit_number(1) [OF this] this side show ?thesis
    by (simp add: openableRemoteBidirectionalStreams_def bidi_side_def credit_inv_def)
qed

theorem peer_bidirectional_limit_witness:
  "manager_reachable (used_server 8)
   \<and> unat (openableRemoteBidirectionalStreams (streamManager (used_server 8)))
     + card (sm_openBidirectionalPeerStreams (streamManager (used_server 8)))
     \<le> unat (advertisedInitialMaxStreamsBidi (transportSettings (used_server 8)))"
  using peer_bidirectional_limit [of "used_server 8"] used_server_reachable [of 8] by simp

text \<open>C34:
  Closing a bidirectional stream of the peer either fails with STREAM_LIMIT_ERROR, which is the
  only error it can have, or removes the state of that stream and of no other. Afterwards either
  less than a window of credit is being held back, or a new limit has been queued for the peer
  that gives all of it back: what is open and what may be opened is then again the advertised
  limit. Unidirectional streams of the peer are not covered; closing them is undefined, which is
  shown below.
\<close>

theorem closed_stream_credit:
  assumes "manager_reachable conn" and "sm_streams (streamManager conn) sid = Some s"
    and "isRemoteStream (sm_nodeType (streamManager conn)) sid" and "\<not> isUnidirectionalStream sid"
  defines "limit \<equiv> unat (advertisedInitialMaxStreamsBidi (transportSettings conn))"
  shows "case removeClosedStream now sid conn of
      Inl e \<Rightarrow> e = QuicTransportException STREAM_LIMIT_ERROR
    | Inr conn' \<Rightarrow>
        let used = unat (openableRemoteBidirectionalStreams (streamManager conn'))
                   + card (sm_openBidirectionalPeerStreams (streamManager conn'))
        in sm_streams (streamManager conn') = (sm_streams (streamManager conn))(sid := None)
         \<and> sm_openBidirectionalPeerStreams (streamManager conn') = sm_openBidirectionalPeerStreams (streamManager conn) - {sid}
         \<and> (limit - used < limit div unat (sm_streamLimitWindowingFraction (streamManager conn))
            \<or> used = limit
              \<and> (\<exists>n. sm_remoteBidirectionalStreamLimitUpdate (streamManager conn') = Some n
                    \<and> sm_maxRemoteBidirectionalStreamId (streamManager conn')
                      = n * 4 + sm_initialRemoteBidirectionalStreamId (streamManager conn)))"
proof -
  obtain n m opened where side: "bidi_side (streamManager conn) = (n, m, opened)" by (metis prod_cases3)
  note close = close_peer_bidi [OF reachable_inv reachable_credit assms(2-4) side, OF assms(1) assms(1), of now]
  show ?thesis
  proof (cases "removeClosedStream now sid conn")
    case (Inl e)
    with close show ?thesis by simp
  next
    case (Inr conn')
    with close obtain m' where side': "bidi_side (streamManager conn') = (n, m', opened - {sid})"
      and credit: "credit_inv (advertisedInitialMaxStreamsBidi (transportSettings conn)) n m' (opened - {sid})"
      and rest: "sm_streams (streamManager conn') = (sm_streams (streamManager conn))(sid := None)"
        "m' = m \<and> limit - ((unat m - unat n) div 4 + card (opened - {sid}))
              < limit div unat (sm_streamLimitWindowingFraction (streamManager conn))
         \<or> (unat m' - unat n) div 4 + card (opened - {sid}) = limit
           \<and> (\<exists>k. sm_remoteBidirectionalStreamLimitUpdate (streamManager conn') = Some k
                \<and> m' = k * 4 + sm_initialRemoteBidirectionalStreamId (streamManager conn))"
      by (auto simp: limit_def)
    have "unat (openableRemoteBidirectionalStreams (streamManager conn')) = (unat m' - unat n) div 4"
      using side' credit_number(1) [OF credit] by (simp add: openableRemoteBidirectionalStreams_def bidi_side_def)
    moreover have "sm_openBidirectionalPeerStreams (streamManager conn') = opened - {sid}"
      "sm_maxRemoteBidirectionalStreamId (streamManager conn') = m'"
      "sm_openBidirectionalPeerStreams (streamManager conn) = opened"
      using side side' by (simp_all add: bidi_side_def)
    ultimately show ?thesis unfolding Inr using rest by (elim disjE) (simp_all add: Let_def)
  qed
qed

theorem closed_stream_credit_witness:
  "\<exists>s. sm_streams (streamManager (used_server 8)) 8 = Some s
   \<and> (case removeClosedStream 0 8 (used_server 8) of
        Inl e \<Rightarrow> e = QuicTransportException STREAM_LIMIT_ERROR
      | Inr conn' \<Rightarrow> sm_streams (streamManager conn') 8 = None)"
proof -
  obtain s where s: "sm_streams (streamManager (used_server 8)) 8 = Some s"
    and node: "sm_nodeType (streamManager (used_server 8)) = Server"
    using used_server [of 8] by auto
  show ?thesis using closed_stream_credit [OF used_server_reachable s, of 0] s node stream_2_8
    by (auto simp: Let_def split: sum.splits)
qed

text \<open>C35:
  Closing a unidirectional stream of the peer has undefined behaviour in every reachable
  state: the number of streams the peer can still open is read from a function that returns
  nothing.
\<close>

theorem closing_peer_unidirectional_undefined:
  assumes "manager_reachable conn" and "sm_streams (streamManager conn) sid = Some s"
    and "isRemoteStream (sm_nodeType (streamManager conn)) sid" and "isUnidirectionalStream sid"
  shows "removeClosedStream now sid conn = Inl undefined_behaviour"
  using removeClosedStream_cases(1) [OF reachable_inv [OF assms(1)] assms(2)] assms(3,4) update_limit_uni by simp

theorem closing_peer_unidirectional_undefined_witness:
  "\<exists>s. sm_streams (streamManager (used_server 2)) 2 = Some s
     \<and> removeClosedStream 0 2 (used_server 2) = Inl undefined_behaviour"
proof -
  obtain s where s: "sm_streams (streamManager (used_server 2)) 2 = Some s"
    and node: "sm_nodeType (streamManager (used_server 2)) = Server"
    using used_server [of 2] by auto
  show ?thesis using closing_peer_unidirectional_undefined [OF used_server_reachable s, of 0] s node stream_2_8
    by simp
qed

end
