(* ===== verification/Flow_Control.thy ===== *)
theory Flow_Control
  imports Stream_Manager
begin

text \<open>
  Flow control, \<^verbatim>\<open>flowcontrol/quic_flow_control.cpp\<close>: the limits the peer has advertised
  to us and those we advertise to the peer, for the connection and for each stream. A stream
  is passed as its state, and its connection beside it; an operation returns what it changes.
  The theorems show that received data is accepted exactly within both advertised limits and
  that the receiver cannot leave the sender blocked once everything has been read. That the
  sender stays within the limit of the peer is shown in \<open>Packet_Scheduler\<close>.
\<close>

section \<open>Arithmetic\<close>

definition calculateNewWindowUpdate ::
    "u64 \<Rightarrow> u64 \<Rightarrow> u64 \<Rightarrow> int \<Rightarrow> TransportSettings \<Rightarrow> TimePoint option \<Rightarrow> TimePoint \<Rightarrow> u64 option" where
  "calculateNewWindowUpdate curReadOffset curAdvertisedOffset windowSize srtt settings lastSendTime updateTime =
     (let nextAdvertisedOffset = curReadOffset + windowSize
      in if nextAdvertisedOffset = curAdvertisedOffset then None
         else let enoughTimeElapsed =
                    (case lastSendTime of
                       None \<Rightarrow> False
                     | Some lastTime \<Rightarrow> updateTime > lastTime
                         \<and> updateTime - lastTime > int (unat (flowControlRttFrequency settings)) * srtt)
              in if enoughTimeElapsed \<and> \<not> autotuneReceiveConnFlowControl settings then Some nextAdvertisedOffset
                 else let enoughWindowElapsed =
                            (curAdvertisedOffset - curReadOffset) * ucast (flowControlWindowFrequency settings)
                            < windowSize
                      in if enoughWindowElapsed then Some nextAdvertisedOffset else None)"

definition incrementWithOverFlowCheck :: "u64 \<Rightarrow> u64 \<Rightarrow> u64 result" where
  "incrementWithOverFlowCheck num diff =
     (if num > u64_max - diff then Inl (QuicInternalException LOCAL_INTERNAL_ERROR) else Inr (num + diff))"

definition decrementWithOverFlowCheck :: "u64 \<Rightarrow> u64 \<Rightarrow> u64 result" where
  "decrementWithOverFlowCheck num diff =
     (if num < 0 + diff then Inl (QuicInternalException LOCAL_INTERNAL_ERROR) else Inr (num - diff))"

definition calculateMaximumData :: "QuicStreamState \<Rightarrow> u64" where
  "calculateMaximumData stream =
     max (currentReadOffset stream + fcs_windowSize (flowControlState stream))
         (fcs_advertisedMaxOffset (flowControlState stream))"

section \<open>Window updates to the peer\<close>

definition maybeIncreaseConnectionFlowControlWindow ::
    "TimePoint \<Rightarrow> int \<Rightarrow> ConnectionFlowControlState \<Rightarrow> ConnectionFlowControlState" where
  "maybeIncreaseConnectionFlowControlWindow updateTime srtt fc =
     (case cfc_timeOfLastFlowControlUpdate fc of
        None \<Rightarrow> fc
      | Some lastTime \<Rightarrow>
          if srtt = 0 then fc
          else if updateTime - lastTime < 2 * srtt then fc\<lparr>cfc_windowSize := cfc_windowSize fc * 2\<rparr>
          else fc)"

definition maybeSendConnWindowUpdate ::
    "TimePoint \<Rightarrow> QuicConnectionState \<Rightarrow> bool \<times> QuicConnectionState" where
  "maybeSendConnWindowUpdate updateTime conn =
     (if pe_connWindowUpdate (pendingEvents conn) then (False, conn)
      else let fc = conn_flowControlState conn
           in case calculateNewWindowUpdate (cfc_sumCurReadOffset fc) (cfc_advertisedMaxOffset fc)
                     (cfc_windowSize fc) (ls_srtt (lossState conn)) (transportSettings conn)
                     (cfc_timeOfLastFlowControlUpdate fc) updateTime of
                None \<Rightarrow> (False, conn)
              | Some newAdvertisedOffset \<Rightarrow>
                  let conn1 = on_pe (\<lambda>pe. pe\<lparr>pe_connWindowUpdate := True\<rparr>) conn
                  in (True, if autotuneReceiveConnFlowControl (transportSettings conn)
                            then on_fc (maybeIncreaseConnectionFlowControlWindow updateTime (ls_srtt (lossState conn))) conn1
                            else conn1))"

definition maybeSendStreamWindowUpdate ::
    "QuicStreamState \<Rightarrow> TimePoint \<Rightarrow> QuicConnectionState \<Rightarrow> bool \<times> QuicConnectionState" where
  "maybeSendStreamWindowUpdate stream updateTime conn =
     (let fc = flowControlState stream
      in if \<not> shouldSendFlowControl stream then (False, conn)
         else if pendingWindowUpdate (stream_id stream) (streamManager conn) then (False, conn)
         else case calculateNewWindowUpdate (currentReadOffset stream) (fcs_advertisedMaxOffset fc)
                     (fcs_windowSize fc) (ls_srtt (lossState conn)) (transportSettings conn)
                     (fcs_timeOfLastFlowControlUpdate fc) updateTime of
                None \<Rightarrow> (False, conn)
              | Some newAdvertisedOffset \<Rightarrow> (True, on_sm (queueWindowUpdate (stream_id stream)) conn))"

section \<open>Receiving and reading\<close>

definition updateFlowControlOnStreamData ::
    "QuicStreamState \<Rightarrow> u64 \<Rightarrow> u64 \<Rightarrow> QuicConnectionState \<Rightarrow> QuicConnectionState result" where
  "updateFlowControlOnStreamData stream previousMaxOffsetObserved bufferEndOffset conn =
     (if fcs_advertisedMaxOffset (flowControlState stream) < bufferEndOffset
      then Inl (QuicTransportException FLOW_CONTROL_ERROR)
      else let curMaxOffsetObserved = max previousMaxOffsetObserved bufferEndOffset;
               fc = conn_flowControlState conn
           in and_then (incrementWithOverFlowCheck (cfc_sumMaxObservedOffset fc)
                          (curMaxOffsetObserved - previousMaxOffsetObserved))
                (\<lambda>connMaxObservedOffset.
                   if connMaxObservedOffset > cfc_advertisedMaxOffset fc
                   then Inl (QuicTransportException FLOW_CONTROL_ERROR)
                   else and_then (incrementWithOverFlowCheck (cfc_sumMaxObservedOffset fc)
                                    (curMaxOffsetObserved - previousMaxOffsetObserved))
                          (\<lambda>s. Inr (on_fc (\<lambda>fc. fc\<lparr>cfc_sumMaxObservedOffset := s\<rparr>) conn))))"

definition updateFlowControlOnRead ::
    "QuicStreamState \<Rightarrow> u64 \<Rightarrow> TimePoint \<Rightarrow> QuicConnectionState \<Rightarrow> QuicConnectionState result" where
  "updateFlowControlOnRead stream lastReadOffset readTime conn =
     (let diff = currentReadOffset stream - lastReadOffset
      in and_then (incrementWithOverFlowCheck (cfc_sumCurReadOffset (conn_flowControlState conn)) diff)
           (\<lambda>s. let conn1 = on_fc (\<lambda>fc. fc\<lparr>cfc_sumCurReadOffset := s\<rparr>) conn;
                    conn2 = snd (maybeSendConnWindowUpdate readTime conn1);
                    conn3 = snd (maybeSendStreamWindowUpdate stream readTime conn2)
                in Inr conn3))"

section \<open>Writing\<close>

definition updateFlowControlOnWriteToSocket :: "u64 \<Rightarrow> QuicConnectionState \<Rightarrow> QuicConnectionState result" where
  "updateFlowControlOnWriteToSocket len conn =
     and_then (incrementWithOverFlowCheck (cfc_sumCurWriteOffset (conn_flowControlState conn)) len)
       (\<lambda>s. Inr (on_fc (\<lambda>fc. fc\<lparr>cfc_sumCurWriteOffset := s,
                             cfc_sumCurStreamBufferLen := cfc_sumCurStreamBufferLen fc - len\<rparr>) conn))"

definition updateFlowControlOnWriteToStream :: "u64 \<Rightarrow> QuicConnectionState \<Rightarrow> QuicConnectionState result" where
  "updateFlowControlOnWriteToStream len conn =
     and_then (incrementWithOverFlowCheck (cfc_sumCurStreamBufferLen (conn_flowControlState conn)) len)
       (\<lambda>s. Inr (on_fc (\<lambda>fc. fc\<lparr>cfc_sumCurStreamBufferLen := s\<rparr>) conn))"

text \<open>The bytes of a stream that are written but not yet sent.\<close>

definition data_in_buffer :: "QuicStreamState \<Rightarrow> u64" where
  "data_in_buffer stream = of_nat (chainLength (writeBuffer stream)) + wbm_length (writeBufMeta stream)"

definition updateFlowControlOnResetStream :: "QuicStreamState \<Rightarrow> QuicConnectionState \<Rightarrow> QuicConnectionState result" where
  "updateFlowControlOnResetStream stream conn =
     and_then (decrementWithOverFlowCheck (cfc_sumCurStreamBufferLen (conn_flowControlState conn))
                 (data_in_buffer stream))
       (\<lambda>s. Inr (on_fc (\<lambda>fc. fc\<lparr>cfc_sumCurStreamBufferLen := s\<rparr>) conn))"

definition getSendStreamFlowControlBytesWire :: "QuicStreamState \<Rightarrow> u64" where
  "getSendStreamFlowControlBytesWire stream =
     fcs_peerAdvertisedMaxOffset (flowControlState stream) - nextOffsetToWrite stream"

definition getSendStreamFlowControlBytesAPI :: "QuicStreamState \<Rightarrow> u64" where
  "getSendStreamFlowControlBytesAPI stream =
     (let sendFlowControlBytes = getSendStreamFlowControlBytesWire stream; dataInBuffer = data_in_buffer stream
      in if dataInBuffer > sendFlowControlBytes then 0 else sendFlowControlBytes - dataInBuffer)"

definition getSendConnFlowControlBytesWire :: "QuicConnectionState \<Rightarrow> u64" where
  "getSendConnFlowControlBytesWire conn =
     cfc_peerAdvertisedMaxOffset (conn_flowControlState conn) - cfc_sumCurWriteOffset (conn_flowControlState conn)"

definition getSendConnFlowControlBytesAPI :: "QuicConnectionState \<Rightarrow> u64" where
  "getSendConnFlowControlBytesAPI conn =
     (let connFlowControlBytes = getSendConnFlowControlBytesWire conn;
          buffered = cfc_sumCurStreamBufferLen (conn_flowControlState conn)
      in if buffered > connFlowControlBytes then 0 else connFlowControlBytes - buffered)"

definition getRecvStreamFlowControlBytes :: "QuicStreamState \<Rightarrow> u64" where
  "getRecvStreamFlowControlBytes stream =
     (if fcs_advertisedMaxOffset (flowControlState stream) < currentReadOffset stream then 0
      else fcs_advertisedMaxOffset (flowControlState stream) - currentReadOffset stream)"

definition getRecvConnFlowControlBytes :: "QuicConnectionState \<Rightarrow> u64" where
  "getRecvConnFlowControlBytes conn =
     cfc_advertisedMaxOffset (conn_flowControlState conn) - cfc_sumCurReadOffset (conn_flowControlState conn)"

section \<open>Being blocked\<close>

definition maybeWriteBlockAfterAPIWrite :: "QuicStreamState \<Rightarrow> QuicStreamManager \<Rightarrow> QuicStreamManager" where
  "maybeWriteBlockAfterAPIWrite stream sm =
     (if getSendStreamFlowControlBytesWire stream = 0 \<and> bq_empty (writeBuffer stream)
         \<and> wbm_length (writeBufMeta stream) = 0
      then queueBlocked (stream_id stream) (fcs_peerAdvertisedMaxOffset (flowControlState stream)) sm
      else sm)"

definition maybeWriteDataBlockedAfterSocketWrite :: "QuicConnectionState \<Rightarrow> QuicConnectionState" where
  "maybeWriteDataBlockedAfterSocketWrite conn =
     (if getSendConnFlowControlBytesWire conn = 0 then on_pe (\<lambda>pe. pe\<lparr>pe_sendDataBlocked := True\<rparr>) conn
      else conn)"

definition maybeWriteBlockAfterSocketWrite :: "QuicStreamState \<Rightarrow> QuicStreamManager \<Rightarrow> QuicStreamManager" where
  "maybeWriteBlockAfterSocketWrite stream sm =
     (if streamWriteError stream \<noteq> None then sm
      else if finalWriteOffset stream \<noteq> None \<and> hasSentFIN stream then sm
      else if getSendStreamFlowControlBytesWire stream = 0
              \<and> (\<not> bq_empty (writeBuffer stream) \<or> wbm_length (writeBufMeta stream) > 0)
      then queueBlocked (stream_id stream) (fcs_peerAdvertisedMaxOffset (flowControlState stream)) sm
      else sm)"

section \<open>Frames of the peer\<close>

definition updateFlowControlList :: "QuicStreamState \<Rightarrow> QuicStreamManager \<Rightarrow> QuicStreamManager" where
  "updateFlowControlList stream = queueFlowControlUpdated (stream_id stream)"

definition handleStreamWindowUpdate ::
    "QuicStreamState \<Rightarrow> u64 \<Rightarrow> QuicStreamManager \<Rightarrow> QuicStreamState \<times> QuicStreamManager" where
  "handleStreamWindowUpdate stream maximumData sm =
     (if fcs_peerAdvertisedMaxOffset (flowControlState stream) \<le> maximumData
      then let stream1 = stream\<lparr>flowControlState := (flowControlState stream)\<lparr>fcs_peerAdvertisedMaxOffset := maximumData\<rparr>\<rparr>;
               sm1 = (if fcs_peerAdvertisedMaxOffset (flowControlState stream1)
                           > currentWriteOffset stream1 + of_nat (chainLength (writeBuffer stream1))
                             + wbm_length (writeBufMeta stream1)
                      then updateFlowControlList stream1 sm else sm)
           in (stream1, updateWritableStreams stream1 sm1)
      else (stream, sm))"

definition handleConnWindowUpdate :: "MaxDataFrame \<Rightarrow> QuicConnectionState \<Rightarrow> QuicConnectionState" where
  "handleConnWindowUpdate frame conn =
     (if cfc_peerAdvertisedMaxOffset (conn_flowControlState conn) \<le> md_maximumData frame
      then on_fc (\<lambda>fc. fc\<lparr>cfc_peerAdvertisedMaxOffset := md_maximumData frame\<rparr>) conn
      else conn)"

definition handleConnBlocked :: "QuicConnectionState \<Rightarrow> QuicConnectionState" where
  "handleConnBlocked = on_pe (\<lambda>pe. pe\<lparr>pe_connWindowUpdate := True\<rparr>)"

definition handleStreamBlocked :: "QuicStreamState \<Rightarrow> QuicStreamManager \<Rightarrow> QuicStreamManager" where
  "handleStreamBlocked stream = queueWindowUpdate (stream_id stream)"

section \<open>Frames sent and lost\<close>

definition onConnWindowUpdateSent :: "u64 \<Rightarrow> TimePoint \<Rightarrow> QuicConnectionState \<Rightarrow> QuicConnectionState" where
  "onConnWindowUpdateSent maximumDataSent sentTime conn =
     on_pe (\<lambda>pe. pe\<lparr>pe_connWindowUpdate := False\<rparr>)
       (on_fc (\<lambda>fc. fc\<lparr>cfc_advertisedMaxOffset := maximumDataSent,
                       cfc_timeOfLastFlowControlUpdate := Some sentTime\<rparr>) conn)"

definition onStreamWindowUpdateSent ::
    "QuicStreamState \<Rightarrow> u64 \<Rightarrow> TimePoint \<Rightarrow> QuicStreamManager \<Rightarrow> QuicStreamState \<times> QuicStreamManager" where
  "onStreamWindowUpdateSent stream maximumDataSent sentTime sm =
     (stream\<lparr>flowControlState := (flowControlState stream)\<lparr>fcs_advertisedMaxOffset := maximumDataSent,
               fcs_timeOfLastFlowControlUpdate := Some sentTime\<rparr>\<rparr>,
      removeWindowUpdate (stream_id stream) sm)"

definition onConnWindowUpdateLost :: "QuicConnectionState \<Rightarrow> QuicConnectionState" where
  "onConnWindowUpdateLost = on_pe (\<lambda>pe. pe\<lparr>pe_connWindowUpdate := True\<rparr>)"

definition onStreamWindowUpdateLost :: "QuicStreamState \<Rightarrow> QuicStreamManager \<Rightarrow> QuicStreamManager" where
  "onStreamWindowUpdateLost stream sm =
     (if \<not> shouldSendFlowControl stream then sm else queueWindowUpdate (stream_id stream) sm)"

definition onBlockedLost :: "QuicStreamState \<Rightarrow> QuicStreamManager \<Rightarrow> QuicStreamManager" where
  "onBlockedLost = maybeWriteBlockAfterSocketWrite"

definition onDataBlockedLost :: "QuicConnectionState \<Rightarrow> QuicConnectionState" where
  "onDataBlockedLost = maybeWriteDataBlockedAfterSocketWrite"

definition updateFlowControlStateWithSettings ::
    "TransportSettings \<Rightarrow> ConnectionFlowControlState \<Rightarrow> ConnectionFlowControlState" where
  "updateFlowControlStateWithSettings settings fc =
     fc\<lparr>cfc_windowSize := advertisedInitialConnectionWindowSize settings,
        cfc_advertisedMaxOffset := advertisedInitialConnectionWindowSize settings\<rparr>"

definition generateMaxDataFrame :: "QuicConnectionState \<Rightarrow> MaxDataFrame" where
  "generateMaxDataFrame conn =
     (let fc = conn_flowControlState conn
      in MaxDataFrame (max (cfc_sumCurReadOffset fc + cfc_windowSize fc) (cfc_advertisedMaxOffset fc)))"

definition generateMaxStreamDataFrame :: "QuicStreamState \<Rightarrow> MaxStreamDataFrame" where
  "generateMaxStreamDataFrame stream = MaxStreamDataFrame (stream_id stream) (calculateMaximumData stream)"

section \<open>Receiving stays within the limits we advertised\<close>

lemma increment_exact:
  "incrementWithOverFlowCheck num diff =
     (if unat num + unat diff < 18446744073709551616 then Inr (num + diff) else Inl (QuicInternalException LOCAL_INTERNAL_ERROR))"
proof -
  have "unat (u64_max - diff) = unat u64_max - unat diff"
    by (intro unat_sub_no_wrap) (use unat_u64_le_max [of diff] in \<open>simp add: unat_u64_max\<close>)
  then have "num > u64_max - diff \<longleftrightarrow> \<not> unat num + unat diff < 18446744073709551616"
    using unat_u64_le_max [of diff] by (simp add: word_less_nat_alt unat_u64_max) linarith
  then show ?thesis by (simp add: incrementWithOverFlowCheck_def)
qed

lemma increment_unat:
  "incrementWithOverFlowCheck num diff = Inr s \<Longrightarrow> unat s = unat num + unat diff"
  by (auto simp: increment_exact unat_add_no_wrap split: if_splits)

lemma max_minus: "unat (max prev end - prev) = unat end - unat (prev :: u64)"
proof (cases "prev \<le> end")
  case True
  then show ?thesis by (simp add: max_def unat_sub)
next
  case False
  then show ?thesis by (simp add: max_def word_le_nat_alt)
qed

text \<open>C7:
  Data of the peer up to a given offset is accepted exactly when it stays within the limit
  of its stream and the bytes it adds stay within the limit of the connection. The counter of
  the connection then grows by the bytes beyond the largest offset seen before and nothing
  else changes; otherwise the connection is closed with an error and no counter has changed.
\<close>

theorem received_data_within_limits:
  "case updateFlowControlOnStreamData stream prev end conn of
      Inr conn' \<Rightarrow>
        unat end \<le> unat (fcs_advertisedMaxOffset (flowControlState stream))
        \<and> (\<exists>s. conn' = on_fc (\<lambda>fc. fc\<lparr>cfc_sumMaxObservedOffset := s\<rparr>) conn
             \<and> unat s = unat (cfc_sumMaxObservedOffset (conn_flowControlState conn)) + (unat end - unat prev)
             \<and> unat s \<le> unat (cfc_advertisedMaxOffset (conn_flowControlState conn)))
    | Inl e \<Rightarrow>
        (e = QuicTransportException FLOW_CONTROL_ERROR \<or> e = QuicInternalException LOCAL_INTERNAL_ERROR)
        \<and> (unat end > unat (fcs_advertisedMaxOffset (flowControlState stream))
           \<or> unat (cfc_sumMaxObservedOffset (conn_flowControlState conn)) + (unat end - unat prev)
             > unat (cfc_advertisedMaxOffset (conn_flowControlState conn)))"
proof -
  let ?fc = "conn_flowControlState conn" and ?diff = "max prev end - prev"
  show ?thesis
  proof (cases "incrementWithOverFlowCheck (cfc_sumMaxObservedOffset ?fc) ?diff")
    case (Inl e)
    then have "e = QuicInternalException LOCAL_INTERNAL_ERROR"
      "\<not> unat (cfc_sumMaxObservedOffset ?fc) + (unat end - unat prev) < 18446744073709551616"
      by (simp_all add: increment_exact max_minus split: if_splits)
    moreover from this(2) have "unat (cfc_sumMaxObservedOffset ?fc) + (unat end - unat prev)
        > unat (cfc_advertisedMaxOffset ?fc)"
      using unat_u64_less [of "cfc_advertisedMaxOffset ?fc"] by linarith
    ultimately show ?thesis using Inl
      by (simp add: updateFlowControlOnStreamData_def Let_def word_less_nat_alt)
  next
    case (Inr s)
    note n = increment_unat [OF Inr, unfolded max_minus]
    show ?thesis using Inr n
      by (auto simp: updateFlowControlOnStreamData_def Let_def word_less_nat_alt not_less)
  qed
qed

section \<open>The receiver does not leave the sender blocked\<close>

lemma new_window_due:
  assumes "0 < flowControlWindowFrequency settings" and "unat curRead \<le> unat adv"
    and "(unat adv - unat curRead) * unat (flowControlWindowFrequency settings) < unat window"
    and "unat curRead + unat window < 18446744073709551616"
  shows "calculateNewWindowUpdate curRead adv window srtt settings lastSend now = Some (curRead + window)"
proof -
  let ?f = "unat (flowControlWindowFrequency settings)"
  have f: "0 < ?f" using assms(1) by (simp add: word_less_nat_alt)
  then have "unat adv - unat curRead \<le> (unat adv - unat curRead) * ?f" by simp
  then have "unat adv < unat curRead + unat window" using assms(2,3) by linarith
  then have ne: "curRead + window \<noteq> adv" using unat_add_no_wrap [OF assms(4)] by auto
  have "unat (ucast (flowControlWindowFrequency settings) :: u64) = ?f"
    using unsigned_less [of "flowControlWindowFrequency settings", where ?'a = nat]
    by (simp add: unsigned_ucast_eq take_bit_nat_eq_self)
  moreover have "unat (adv - curRead) = unat adv - unat curRead" using assms(2) by (rule unat_sub_no_wrap)
  moreover have "(unat adv - unat curRead) * ?f < 18446744073709551616"
    using assms(3) unat_u64_less [of window] by linarith
  ultimately have "unat ((adv - curRead) * ucast (flowControlWindowFrequency settings)) = (unat adv - unat curRead) * ?f"
    by (simp add: unat_word_ariths)
  then have "(adv - curRead) * ucast (flowControlWindowFrequency settings) < window"
    using assms(3) by (simp add: word_less_nat_alt)
  with ne show ?thesis by (simp add: calculateNewWindowUpdate_def Let_def)
qed

lemma autotuned_window:
  fixes curRead :: u64 and fc :: ConnectionFlowControlState and now :: TimePoint and srtt :: int
  assumes "unat curRead + 2 * unat (cfc_windowSize fc) < 18446744073709551616"
  defines "fc' \<equiv> maybeIncreaseConnectionFlowControlWindow now srtt fc"
  shows "unat (cfc_windowSize fc) \<le> unat (cfc_windowSize fc')"
    and "unat curRead + unat (cfc_windowSize fc') < 18446744073709551616"
    and "cfc_sumCurReadOffset fc' = cfc_sumCurReadOffset fc" and "cfc_advertisedMaxOffset fc' = cfc_advertisedMaxOffset fc"
proof -
  have "unat (cfc_windowSize fc * 2) = unat (cfc_windowSize fc) * 2"
    using assms(1) by (simp add: unat_word_ariths)
  moreover have "fc' = fc \<or> fc' = fc\<lparr>cfc_windowSize := cfc_windowSize fc * 2\<rparr>"
    by (simp add: fc'_def maybeIncreaseConnectionFlowControlWindow_def split: option.split)
  ultimately show "unat (cfc_windowSize fc) \<le> unat (cfc_windowSize fc')"
    and "unat curRead + unat (cfc_windowSize fc') < 18446744073709551616"
    and "cfc_sumCurReadOffset fc' = cfc_sumCurReadOffset fc" and "cfc_advertisedMaxOffset fc' = cfc_advertisedMaxOffset fc"
    using assms(1) by auto
qed

lemma conn_update_due:
  fixes conn :: QuicConnectionState and now :: TimePoint
  defines "fc \<equiv> conn_flowControlState conn"
  assumes "0 < flowControlWindowFrequency (transportSettings conn)"
    and "unat (cfc_sumCurReadOffset fc) \<le> unat (cfc_advertisedMaxOffset fc)"
    and "(unat (cfc_advertisedMaxOffset fc) - unat (cfc_sumCurReadOffset fc))
           * unat (flowControlWindowFrequency (transportSettings conn)) < unat (cfc_windowSize fc)"
    and room: "unat (cfc_sumCurReadOffset fc) + 2 * unat (cfc_windowSize fc) < 18446744073709551616"
  defines "conn1 \<equiv> snd (maybeSendConnWindowUpdate now conn)"
  shows "pe_connWindowUpdate (pendingEvents conn1)"
    and "unat (cfc_windowSize fc) \<le> unat (cfc_windowSize (conn_flowControlState conn1))"
    and "unat (cfc_sumCurReadOffset fc) + unat (cfc_windowSize (conn_flowControlState conn1)) < 18446744073709551616"
    and "cfc_sumCurReadOffset (conn_flowControlState conn1) = cfc_sumCurReadOffset fc"
    and "cfc_advertisedMaxOffset (conn_flowControlState conn1) = cfc_advertisedMaxOffset fc"
proof -
  have "unat (cfc_sumCurReadOffset fc) + unat (cfc_windowSize fc) < 18446744073709551616" using room by simp
  note due = new_window_due [OF assms(2-4) this, where srtt = "ls_srtt (lossState conn)"
      and lastSend = "cfc_timeOfLastFlowControlUpdate fc" and now = now]
  note tuned = autotuned_window [OF room, where now = now and srtt = "ls_srtt (lossState conn)"]
  have "conn1 = conn \<and> pe_connWindowUpdate (pendingEvents conn)
      \<or> pe_connWindowUpdate (pendingEvents conn1)
        \<and> (conn_flowControlState conn1 = fc
           \<or> conn_flowControlState conn1 = maybeIncreaseConnectionFlowControlWindow now (ls_srtt (lossState conn)) fc)"
    using due by (simp add: conn1_def maybeSendConnWindowUpdate_def Let_def fc_def)
  then show "pe_connWindowUpdate (pendingEvents conn1)"
    and "unat (cfc_windowSize fc) \<le> unat (cfc_windowSize (conn_flowControlState conn1))"
    and "unat (cfc_sumCurReadOffset fc) + unat (cfc_windowSize (conn_flowControlState conn1)) < 18446744073709551616"
    and "cfc_sumCurReadOffset (conn_flowControlState conn1) = cfc_sumCurReadOffset fc"
    and "cfc_advertisedMaxOffset (conn_flowControlState conn1) = cfc_advertisedMaxOffset fc"
    using tuned room by (auto simp: fc_def)
qed

text \<open>C36:
  Once the application has read so much that less than the set fraction of the window is
  left, a window update is pending for the connection; and after the frame that is generated
  for it has been sent, the peer may send at least a full window beyond what was read, the
  advertised limit has not gone down and no update is pending. With everything read, this
  holds for every window but an empty one. The offsets are assumed to stay below the largest
  64-bit number by twice the window, which the automatic tuning may double.
\<close>

theorem window_update_progress:
  fixes conn :: QuicConnectionState
  defines "fc \<equiv> conn_flowControlState conn"
  assumes "0 < flowControlWindowFrequency (transportSettings conn)"
    and "unat (cfc_sumCurReadOffset fc) \<le> unat (cfc_advertisedMaxOffset fc)"
    and "(unat (cfc_advertisedMaxOffset fc) - unat (cfc_sumCurReadOffset fc))
           * unat (flowControlWindowFrequency (transportSettings conn)) < unat (cfc_windowSize fc)"
    and "unat (cfc_sumCurReadOffset fc) + 2 * unat (cfc_windowSize fc) < 18446744073709551616"
  shows "let conn1 = snd (maybeSendConnWindowUpdate now conn);
             conn2 = onConnWindowUpdateSent (md_maximumData (generateMaxDataFrame conn1)) sentTime conn1
         in pe_connWindowUpdate (pendingEvents conn1)
          \<and> unat (cfc_windowSize fc) \<le> unat (getRecvConnFlowControlBytes conn2)
          \<and> cfc_advertisedMaxOffset fc \<le> cfc_advertisedMaxOffset (conn_flowControlState conn2)
          \<and> \<not> pe_connWindowUpdate (pendingEvents conn2)"
proof -
  define conn1 where "conn1 = snd (maybeSendConnWindowUpdate now conn)"
  note due = conn_update_due [OF assms(2-5) [unfolded fc_def], of now, folded fc_def conn1_def]
  define limit where "limit = max (cfc_sumCurReadOffset fc + cfc_windowSize (conn_flowControlState conn1)) (cfc_advertisedMaxOffset fc)"
  have frame: "md_maximumData (generateMaxDataFrame conn1) = limit"
    by (simp add: generateMaxDataFrame_def Let_def due(4,5) limit_def)
  have "unat (cfc_sumCurReadOffset fc + cfc_windowSize (conn_flowControlState conn1)) \<le> unat limit"
    by (simp add: limit_def flip: word_le_nat_alt)
  then have "unat (cfc_sumCurReadOffset fc) + unat (cfc_windowSize fc) \<le> unat limit"
    using unat_add_no_wrap [OF due(3)] due(2) by linarith
  then have "unat (cfc_windowSize fc) \<le> unat (limit - cfc_sumCurReadOffset fc)"
    by (simp add: unat_sub_no_wrap)
  moreover have "cfc_advertisedMaxOffset fc \<le> limit" by (simp add: limit_def)
  ultimately show ?thesis using due(1)
    by (simp add: Let_def conn1_def [symmetric] frame onConnWindowUpdateSent_def getRecvConnFlowControlBytes_def due(4))
qed

text \<open>A connection with a window of a thousand bytes, all of them received and read.\<close>

definition demo_reader :: QuicConnectionState where
  "demo_reader = on_fc (\<lambda>fc. fc\<lparr>cfc_windowSize := 1000, cfc_advertisedMaxOffset := 1000, cfc_sumCurReadOffset := 1000\<rparr>)
     (QuicConnectionState_make Server (QuicStreamManager_blank Server) 0)"

theorem window_update_progress_witness:
  "let conn1 = snd (maybeSendConnWindowUpdate 7 demo_reader);
       conn2 = onConnWindowUpdateSent (md_maximumData (generateMaxDataFrame conn1)) 8 conn1
   in pe_connWindowUpdate (pendingEvents conn1) \<and> 1000 \<le> unat (getRecvConnFlowControlBytes conn2)"
  using window_update_progress [of demo_reader 7 8]
  by (simp add: demo_reader_def QuicConnectionState_make_def TransportSettings_init_def
      ConnectionFlowControlState_init_def Let_def)

end
