(* ===== verification/State_Functions.thy ===== *)
theory State_Functions
  imports Stream_Manager "HOL-Library.Signed_Division"
begin

text \<open>
  The functions on a connection of \<^verbatim>\<open>state/quic_state_function.cpp\<close>: the estimate of the
  round trip time, when to acknowledge what was received, which packets were received, packet
  numbers, and searches among the outstanding packets. An acknowledgement state is passed
  beside its connection, and both are returned where both change. An iterator is a position,
  the end being the length. Times are whole microseconds; a signed division rounds towards
  zero as in C++. The theorems bound the smoothed round trip time by the samples, show that
  no packet that asks for an acknowledgement is forgotten, that the packets to acknowledge are
  those received, and what becomes of a large acknowledgement tolerance.
\<close>

section \<open>Round trip time\<close>

abbreviation (input) kRttAlpha :: int where "kRttAlpha \<equiv> 8"
abbreviation (input) kRttBeta :: int where "kRttBeta \<equiv> 4"

definition updateRtt :: "int \<Rightarrow> int \<Rightarrow> LossState \<Rightarrow> LossState" where
  "updateRtt rttSample ackDelay ls =
     (let ls1 = ls\<lparr>ls_mrtt := min (ls_mrtt ls) rttSample\<rparr>;
          ls2 = (if rttSample \<ge> ackDelay
                 then ls1\<lparr>ls_maybeMrttNoAckDelay :=
                        Some (case ls_maybeMrttNoAckDelay ls1 of
                                Some m \<Rightarrow> min m (rttSample - ackDelay)
                              | None \<Rightarrow> rttSample - ackDelay)\<rparr>
                 else ls1);
          ls3 = ls2\<lparr>ls_lrtt := rttSample, ls_maybeLrtt := Some rttSample, ls_maybeLrttAckDelay := Some ackDelay,
                    ls_maxAckDelay := max (ls_maxAckDelay ls2) ackDelay\<rparr>;
          adjustedRtt = (if rttSample > ackDelay \<and> rttSample > ls_mrtt ls3 + ackDelay
                         then rttSample - ackDelay else rttSample)
      in if ls_srtt ls3 = 0 then ls3\<lparr>ls_srtt := adjustedRtt, ls_rttvar := adjustedRtt sdiv 2\<rparr>
         else ls3\<lparr>ls_rttvar := (ls_rttvar ls3 * (kRttBeta - 1)) sdiv kRttBeta
                    + (if ls_srtt ls3 > adjustedRtt then ls_srtt ls3 - adjustedRtt
                       else adjustedRtt - ls_srtt ls3) sdiv kRttBeta,
                  ls_srtt := (ls_srtt ls3 * (kRttAlpha - 1)) sdiv kRttAlpha + adjustedRtt sdiv kRttAlpha\<rparr>)"

section \<open>When to acknowledge\<close>

text \<open>
  The threshold has the type of its first value, an 8-bit number; assigning a tolerance or a
  setting to it keeps the low eight bits. The counters are incremented only where the
  evaluation of the condition reaches them.
\<close>

definition ack_threshold :: "bool \<Rightarrow> TransportSettings \<Rightarrow> AckState \<Rightarrow> u8" where
  "ack_threshold pktHasRetransmittableData settings a =
     (if pktHasRetransmittableData \<or> as_numRxPacketsRecvd a \<noteq> 0
      then case as_tolerance a of
             Some t \<Rightarrow> ucast t
           | None \<Rightarrow>
               ucast (if (case as_largestRecvdPacketNum a of Some n \<Rightarrow> n | None \<Rightarrow> 0)
                         > rxPacketsBeforeAckInitThreshold settings
                      then rxPacketsBeforeAckAfterInit settings
                      else rxPacketsBeforeAckBeforeInit settings)
      else 20)"

definition updateAckSendStateOnRecvPacket ::
    "u64 \<Rightarrow> bool \<Rightarrow> bool \<Rightarrow> bool \<Rightarrow> AckState \<times> QuicConnectionState \<Rightarrow> AckState \<times> QuicConnectionState" where
  "updateAckSendStateOnRecvPacket distanceFromExpectedPacketNum pktHasRetransmittableData pktHasCryptoData
       initPktNumSpace = (\<lambda>(a, conn).
     let thresh = ack_threshold pktHasRetransmittableData (transportSettings conn) a;
         exceedsReorderThreshold = distanceFromExpectedPacketNum > as_reorderThreshold a;
         sched = (\<lambda>b. on_pe (\<lambda>pe. pe\<lparr>pe_scheduleAckTimeout := b\<rparr>));
         (a1, conn1) =
           (if pktHasRetransmittableData
            then let skipCryptoAck = (nodeType conn = Server \<and> initPktNumSpace)
                 in if (pktHasCryptoData \<and> \<not> skipCryptoAck) \<or> exceedsReorderThreshold
                    then (a\<lparr>as_needsToSendAckImmediately := True\<rparr>, sched False conn)
                    else let counted = a\<lparr>as_numRxPacketsRecvd := as_numRxPacketsRecvd a + 1\<rparr>
                         in if ucast (as_numRxPacketsRecvd counted) + as_numNonRxPacketsRecvd counted \<ge> ucast thresh
                            then (counted\<lparr>as_needsToSendAckImmediately := True\<rparr>, sched False conn)
                            else if \<not> as_needsToSendAckImmediately counted then (counted, sched True conn)
                            else (counted, conn)
            else let counted = a\<lparr>as_numNonRxPacketsRecvd := as_numNonRxPacketsRecvd a + 1\<rparr>
                 in if as_numNonRxPacketsRecvd counted + ucast (as_numRxPacketsRecvd counted) \<ge> ucast thresh
                    then (counted\<lparr>as_needsToSendAckImmediately := True\<rparr>, sched False conn)
                    else (counted, conn))
     in (if as_needsToSendAckImmediately a1
         then a1\<lparr>as_numRxPacketsRecvd := 0, as_numNonRxPacketsRecvd := 0\<rparr> else a1, conn1))"

definition updateAckStateOnAckTimeout :: "QuicConnectionState \<Rightarrow> QuicConnectionState" where
  "updateAckStateOnAckTimeout conn =
     on_pe (\<lambda>pe. pe\<lparr>pe_scheduleAckTimeout := False\<rparr>)
       (conn\<lparr>ackStates := (ackStates conn)\<lparr>appDataAckState :=
          (appDataAckState (ackStates conn))\<lparr>as_needsToSendAckImmediately := True,
             as_numRxPacketsRecvd := 0, as_numNonRxPacketsRecvd := 0\<rparr>\<rparr>\<rparr>)"

definition updateAckSendStateOnSentPacketWithAcks ::
    "PacketNum \<Rightarrow> AckState \<times> QuicConnectionState \<Rightarrow> AckState \<times> QuicConnectionState" where
  "updateAckSendStateOnSentPacketWithAcks largestAckScheduled = (\<lambda>(a, conn).
     (a\<lparr>as_needsToSendAckImmediately := False, as_numRxPacketsRecvd := 0, as_numNonRxPacketsRecvd := 0,
        as_largestAckScheduled := Some largestAckScheduled\<rparr>,
      on_pe (\<lambda>pe. pe\<lparr>pe_scheduleAckTimeout := False\<rparr>) conn))"

section \<open>Acknowledgement states of a connection\<close>

definition getAckStatePtr :: "QuicConnectionState \<Rightarrow> PacketNumberSpace \<Rightarrow> AckState option" where
  "getAckStatePtr conn pnSpace =
     (case pnSpace of
        Initial_Space \<Rightarrow> initialAckState (ackStates conn)
      | Handshake_Space \<Rightarrow> handshakeAckState (ackStates conn)
      | AppData_Space \<Rightarrow> Some (appDataAckState (ackStates conn)))"

text \<open>The state of a space that was dropped is a null pointer, which is followed.\<close>

definition getAckState :: "QuicConnectionState \<Rightarrow> PacketNumberSpace \<Rightarrow> AckState result" where
  "getAckState conn pnSpace =
     (case getAckStatePtr conn pnSpace of Some a \<Rightarrow> Inr a | None \<Rightarrow> Inl undefined_behaviour)"

definition put_ack_state :: "PacketNumberSpace \<Rightarrow> AckState \<Rightarrow> QuicConnectionState \<Rightarrow> QuicConnectionState" where
  "put_ack_state pnSpace a conn =
     conn\<lparr>ackStates :=
       (case pnSpace of
          Initial_Space \<Rightarrow> (ackStates conn)\<lparr>initialAckState := Some a\<rparr>
        | Handshake_Space \<Rightarrow> (ackStates conn)\<lparr>handshakeAckState := Some a\<rparr>
        | AppData_Space \<Rightarrow> (ackStates conn)\<lparr>appDataAckState := a\<rparr>)\<rparr>"

record AckStateVersion =
  initialAckStateVersion :: u64
  handshakeAckStateVersion :: u64
  appDataAckStateVersion :: u64

definition currentAckStateVersion :: "QuicConnectionState \<Rightarrow> AckStateVersion" where
  "currentAckStateVersion conn =
     (let version = (\<lambda>a. case a of Some a \<Rightarrow> is_insertVersion (as_acks a) | None \<Rightarrow> 0)
      in \<lparr>initialAckStateVersion = version (initialAckState (ackStates conn)),
          handshakeAckStateVersion = version (handshakeAckState (ackStates conn)),
          appDataAckStateVersion = is_insertVersion (as_acks (appDataAckState (ackStates conn)))\<rparr>)"

definition getNextPacketNum :: "QuicConnectionState \<Rightarrow> PacketNumberSpace \<Rightarrow> PacketNum result" where
  "getNextPacketNum conn pnSpace = and_then (getAckState conn pnSpace) (\<lambda>a. Inr (as_nextPacketNum a))"

abbreviation (input) kMaxPacketNumber :: u64 where "kMaxPacketNumber \<equiv> 0x3FFFFFFFFFFFFFFF"

definition increaseNextPacketNum ::
    "PacketNumberSpace \<Rightarrow> bool \<Rightarrow> QuicConnectionState \<Rightarrow> QuicConnectionState result" where
  "increaseNextPacketNum pnSpace dsrPacket conn =
     and_then (getAckState conn pnSpace)
       (\<lambda>a. let a1 = a\<lparr>as_nextPacketNum := as_nextPacketNum a + 1\<rparr>;
                a2 = (if \<not> dsrPacket
                      then a1\<lparr>as_nonDsrPacketSequenceNumber := as_nonDsrPacketSequenceNumber a1 + 1\<rparr> else a1);
                conn1 = put_ack_state pnSpace a2 conn
            in Inr (if as_nextPacketNum a2 = kMaxPacketNumber
                    then on_pe (\<lambda>pe. pe\<lparr>pe_closeTransport := True\<rparr>) conn1 else conn1))"

section \<open>Outstanding packets\<close>

definition op_space :: "OutstandingPacket \<Rightarrow> PacketNumberSpace" where
  "op_space p = ph_getPacketNumberSpace (rw_header (op_packet p))"

definition find_from :: "('a \<Rightarrow> bool) \<Rightarrow> nat \<Rightarrow> 'a list \<Rightarrow> nat" where
  "find_from P from xs = from + length (takeWhile (\<lambda>x. \<not> P x) (drop from xs))"

definition getNextOutstandingPacket :: "QuicConnectionState \<Rightarrow> PacketNumberSpace \<Rightarrow> nat \<Rightarrow> nat" where
  "getNextOutstandingPacket conn pnSpace from =
     find_from (\<lambda>p. \<not> op_declaredLost p \<and> pnSpace = op_space p) from (os_packets (outstandings conn))"

definition getFirstOutstandingPacket :: "QuicConnectionState \<Rightarrow> PacketNumberSpace \<Rightarrow> nat" where
  "getFirstOutstandingPacket conn pnSpace = getNextOutstandingPacket conn pnSpace 0"

text \<open>A reverse iterator is a position in the reversed list.\<close>

definition getPreviousOutstandingPacket :: "QuicConnectionState \<Rightarrow> PacketNumberSpace \<Rightarrow> nat \<Rightarrow> nat" where
  "getPreviousOutstandingPacket conn pnSpace from =
     find_from (\<lambda>p. \<not> op_declaredLost p \<and> pnSpace = op_space p) from (rev (os_packets (outstandings conn)))"

definition getPreviousOutstandingPacketIncludingLost :: "QuicConnectionState \<Rightarrow> PacketNumberSpace \<Rightarrow> nat \<Rightarrow> nat" where
  "getPreviousOutstandingPacketIncludingLost conn pnSpace from =
     find_from (\<lambda>p. pnSpace = op_space p) from (rev (os_packets (outstandings conn)))"

definition getLastOutstandingPacket :: "QuicConnectionState \<Rightarrow> PacketNumberSpace \<Rightarrow> nat" where
  "getLastOutstandingPacket conn pnSpace = getPreviousOutstandingPacket conn pnSpace 0"

definition getLastOutstandingPacketIncludingLost :: "QuicConnectionState \<Rightarrow> PacketNumberSpace \<Rightarrow> nat" where
  "getLastOutstandingPacketIncludingLost conn pnSpace = getPreviousOutstandingPacketIncludingLost conn pnSpace 0"

section \<open>Packets received around a close\<close>

definition hasReceivedPacketsAtLastCloseSent :: "QuicConnectionState \<Rightarrow> bool" where
  "hasReceivedPacketsAtLastCloseSent conn \<longleftrightarrow>
     (let seen = (\<lambda>a. as_largestReceivedAtLastCloseSent a \<noteq> None); s = ackStates conn
      in (case initialAckState s of Some a \<Rightarrow> seen a | None \<Rightarrow> False)
       \<or> (case handshakeAckState s of Some a \<Rightarrow> seen a | None \<Rightarrow> False)
       \<or> seen (appDataAckState s))"

definition hasNotReceivedNewPacketsSinceLastCloseSent :: "QuicConnectionState \<Rightarrow> bool" where
  "hasNotReceivedNewPacketsSinceLastCloseSent conn \<longleftrightarrow>
     (let same = (\<lambda>a. as_largestReceivedAtLastCloseSent a = as_largestRecvdPacketNum a); s = ackStates conn
      in (case initialAckState s of Some a \<Rightarrow> same a | None \<Rightarrow> True)
       \<and> (case handshakeAckState s of Some a \<Rightarrow> same a | None \<Rightarrow> True)
       \<and> same (appDataAckState s))"

definition updateLargestReceivedPacketsAtLastCloseSent :: "QuicConnectionState \<Rightarrow> QuicConnectionState" where
  "updateLargestReceivedPacketsAtLastCloseSent conn =
     (let f = (\<lambda>a. a\<lparr>as_largestReceivedAtLastCloseSent := as_largestRecvdPacketNum a\<rparr>); s = ackStates conn
      in conn\<lparr>ackStates := s\<lparr>initialAckState := map_option f (initialAckState s),
                            handshakeAckState := map_option f (handshakeAckState s),
                            appDataAckState := f (appDataAckState s)\<rparr>\<rparr>)"

definition hasReceivedPackets :: "QuicConnectionState \<Rightarrow> bool" where
  "hasReceivedPackets conn \<longleftrightarrow>
     (let got = (\<lambda>a. as_largestRecvdPacketNum a \<noteq> None); s = ackStates conn
      in (case initialAckState s of Some a \<Rightarrow> got a | None \<Rightarrow> True)
       \<or> (case handshakeAckState s of Some a \<Rightarrow> got a | None \<Rightarrow> True)
       \<or> got (appDataAckState s))"

section \<open>Timers, connection identifiers and retransmission policies\<close>

definition getLossTime :: "QuicConnectionState \<Rightarrow> PacketNumberSpace \<Rightarrow> TimePoint option" where
  "getLossTime conn pnSpace = ls_lossTimes (lossState conn) pnSpace"

definition canSetLossTimerForAppData :: "QuicConnectionState \<Rightarrow> bool" where
  "canSetLossTimerForAppData conn \<longleftrightarrow> oneRttWriteCipher conn"

definition earliest_step ::
    "(PacketNumberSpace \<Rightarrow> TimePoint option) \<Rightarrow> bool \<Rightarrow> PacketNumberSpace
     \<Rightarrow> TimePoint option \<times> PacketNumberSpace \<Rightarrow> TimePoint option \<times> PacketNumberSpace" where
  "earliest_step lossTimes considerAppData pns res =
     (case lossTimes pns of
        None \<Rightarrow> res
      | Some t \<Rightarrow>
          if pns = AppData_Space \<and> \<not> considerAppData then res
          else (case fst res of
                  None \<Rightarrow> (Some t, pns)
                | Some best \<Rightarrow> if best > t then (Some t, pns) else res))"

definition earliestTimeAndSpace ::
    "(PacketNumberSpace \<Rightarrow> TimePoint option) \<Rightarrow> bool \<Rightarrow> TimePoint option \<times> PacketNumberSpace" where
  "earliestTimeAndSpace lossTimes considerAppData =
     fold (earliest_step lossTimes considerAppData) [Initial_Space, Handshake_Space, AppData_Space] (None, Initial_Space)"

definition earliestLossTimer :: "QuicConnectionState \<Rightarrow> TimePoint option \<times> PacketNumberSpace" where
  "earliestLossTimer conn = earliestTimeAndSpace (ls_lossTimes (lossState conn)) (canSetLossTimerForAppData conn)"

definition maximumConnectionIdsToIssue :: "QuicConnectionState \<Rightarrow> u64" where
  "maximumConnectionIdsToIssue conn = min (peerActiveConnectionIdLimit conn) 5"

definition checkCustomRetransmissionProfilesEnabled :: "QuicConnectionState \<Rightarrow> bool" where
  "checkCustomRetransmissionProfilesEnabled conn \<longleftrightarrow> advertisedMaxStreamGroups (transportSettings conn) > 0"

definition streamRetransmissionDisabled :: "QuicConnectionState \<Rightarrow> QuicStreamState \<Rightarrow> bool" where
  "streamRetransmissionDisabled conn stream =
     (if checkCustomRetransmissionProfilesEnabled conn
      then case groupId stream of
             None \<Rightarrow> False
           | Some g \<Rightarrow> (case retransmissionPolicies conn g of Some disabled \<Rightarrow> disabled | None \<Rightarrow> False)
      else False)"

section \<open>Recording a received packet\<close>

abbreviation (input) kMaxReceivedPktsTimestampsStored :: nat where
  "kMaxReceivedPktsTimestampsStored \<equiv> 25"

definition updateLargestReceivedPacketNum ::
    "PacketNum \<Rightarrow> TimePoint \<Rightarrow> AckState \<Rightarrow> (u64 \<times> AckState) result" where
  "updateLargestReceivedPacketNum packetNum receivedTime a =
     (let expectedNextPacket = (case as_largestRecvdPacketNum a of Some n \<Rightarrow> n + 1 | None \<Rightarrow> 0);
          largest = max (case as_largestRecvdPacketNum a of Some n \<Rightarrow> n | None \<Rightarrow> packetNum) packetNum;
          a1 = a\<lparr>as_largestRecvdPacketNum := Some largest\<rparr>
      in and_then (is_insert_point (as_acks a1) packetNum)
           (\<lambda>acks.
              let a2 = a1\<lparr>as_acks := acks\<rparr>;
                  a3 = (if largest = packetNum then a2\<lparr>as_largestRecvdPacketTime := Some receivedTime\<rparr> else a2);
                  info = \<lparr>rpi_pktNum = packetNum, rpi_timeStamp = receivedTime\<rparr>;
                  a4 = a3\<lparr>as_lastRecvdPacketInfo := Some info\<rparr>;
                  infos = as_recvdPacketInfos a4;
                  a5 = (if packetNum \<ge> expectedNextPacket
                        then a4\<lparr>as_recvdPacketInfos :=
                               (if length infos = kMaxReceivedPktsTimestampsStored then tl infos else infos) @ [info]\<rparr>
                        else a4)
              in Inr (if expectedNextPacket \<noteq> 0
                      then if packetNum > expectedNextPacket then packetNum - expectedNextPacket
                           else expectedNextPacket - packetNum
                      else 0, a5)))"

section \<open>The smoothed round trip time\<close>

lemma sdiv_pos: "0 \<le> a \<Longrightarrow> 0 < b \<Longrightarrow> (a :: int) sdiv b = a div b"
  by (simp add: signed_divide_int_def sgn_if)

text \<open>What holds of the estimate after samples of at most \<open>hi\<close>.\<close>

definition rtt_inv :: "int \<Rightarrow> LossState \<Rightarrow> bool" where
  "rtt_inv hi ls \<longleftrightarrow> 0 \<le> ls_srtt ls \<and> ls_srtt ls \<le> hi \<and> 0 \<le> ls_rttvar ls \<and> ls_rttvar ls \<le> hi
     \<and> ls_mrtt ls - 14 \<le> ls_srtt ls"

definition rtt_pre :: "int \<Rightarrow> LossState \<Rightarrow> bool" where
  "rtt_pre hi ls \<longleftrightarrow> ls_srtt ls = 0 \<and> ls_rttvar ls = 0 \<or> rtt_inv hi ls"

lemma mrtt_updateRtt: "ls_mrtt (updateRtt r d ls) = min (ls_mrtt ls) r"
  by (simp add: updateRtt_def Let_def)

lemma updateRtt_srtt:
  defines "adj \<equiv> \<lambda>r d ls. if r > d \<and> r > min (ls_mrtt ls) r + d then r - d else r :: int"
  shows "ls_srtt (updateRtt r d ls) =
      (if ls_srtt ls = 0 then adj r d ls else (ls_srtt ls * 7) sdiv 8 + adj r d ls sdiv 8)"
    and "ls_rttvar (updateRtt r d ls) =
      (if ls_srtt ls = 0 then adj r d ls sdiv 2
       else (ls_rttvar ls * 3) sdiv 4 + (if ls_srtt ls > adj r d ls then ls_srtt ls - adj r d ls
                                         else adj r d ls - ls_srtt ls) sdiv 4)"
  by (simp_all add: updateRtt_def Let_def adj_def)

lemma updateRtt_inv:
  assumes pre: "rtt_pre hi ls" and r: "0 < r" "r \<le> hi" and d: "0 \<le> d"
  shows "rtt_inv hi (updateRtt r d ls)"
proof -
  define a where "a = (if r > d \<and> r > min (ls_mrtt ls) r + d then r - d else r)"
  have a: "0 < a" "a \<le> hi" "min (ls_mrtt ls) r \<le> a" using r d by (auto simp: a_def)
  note upd = updateRtt_srtt [of r d ls, folded a_def]
  show ?thesis
  proof (cases "ls_srtt ls = 0")
    case True
    then show ?thesis using a by (simp add: rtt_inv_def upd mrtt_updateRtt sdiv_pos)
  next
    case False
    with pre have inv: "0 \<le> ls_srtt ls" "ls_srtt ls \<le> hi" "0 \<le> ls_rttvar ls" "ls_rttvar ls \<le> hi"
      "ls_mrtt ls - 14 \<le> ls_srtt ls"
      by (simp_all add: rtt_pre_def rtt_inv_def)
    have "min (ls_mrtt ls) r - 14 \<le> ls_srtt ls" using inv(5) by simp
    then have "min (ls_mrtt ls) r - 14 \<le> (ls_srtt ls * 7) div 8 + a div 8" using a(3) by linarith
    moreover have "(ls_srtt ls * 7) div 8 + a div 8 \<le> hi" using inv(2) a(2) by linarith
    moreover have "0 \<le> (ls_srtt ls * 7) div 8 + a div 8" using inv(1) a(1) by simp
    moreover define v where "v = (if ls_srtt ls > a then ls_srtt ls - a else a - ls_srtt ls)"
    then have "0 \<le> v" "v \<le> hi" using inv(1,2) a by auto
    moreover from this(2) have "(ls_rttvar ls * 3) div 4 + v div 4 \<le> hi" using inv(4) by linarith
    moreover have "0 \<le> (ls_rttvar ls * 3) div 4 + v div 4" using inv(3) \<open>0 \<le> v\<close> by simp
    ultimately show ?thesis using False inv(1,3) a(1)
      by (simp add: rtt_inv_def upd mrtt_updateRtt sdiv_pos v_def [symmetric])
  qed
qed

definition rtt_after :: "(int \<times> int) list \<Rightarrow> LossState \<Rightarrow> LossState" where
  "rtt_after samples = fold (\<lambda>(r, d). updateRtt r d) samples"

lemma rtt_after_inv:
  assumes "\<forall>(r, d) \<in> set samples. 0 < r \<and> r \<le> hi \<and> 0 \<le> d" and "rtt_pre hi ls" and "samples \<noteq> []"
  shows "rtt_inv hi (rtt_after samples ls)"
  using assms
proof (induction samples arbitrary: ls)
  case (Cons x xs)
  obtain r d where x: "x = (r, d)" by (cases x)
  then have "rtt_inv hi (updateRtt r d ls)" using Cons.prems by (intro updateRtt_inv) auto
  then show ?case using Cons.IH [of "updateRtt r d ls"] Cons.prems(1) x
    by (cases "xs = []") (auto simp: rtt_after_def rtt_pre_def)
qed simp

lemma rtt_after_mrtt: "ls_mrtt (rtt_after samples ls) = fold (\<lambda>(r, d) m. min m r) samples (ls_mrtt ls)"
  by (induction samples arbitrary: ls) (auto simp: rtt_after_def mrtt_updateRtt)

text \<open>The sample an update works with, given the least round trip time it has computed.\<close>

definition adjusted_rtt :: "int \<Rightarrow> int \<Rightarrow> int \<Rightarrow> int" where
  "adjusted_rtt mrtt r d = (if r > d \<and> r > mrtt + d then r - d else r)"

text \<open>One update takes an eighth of the way to the sample, up to the rounding of two divisions.\<close>

lemma updateRtt_moves:
  assumes "0 \<le> ls_srtt ls" and "0 < r" and "0 \<le> d"
  defines "a \<equiv> adjusted_rtt (ls_mrtt (updateRtt r d ls)) r d"
  shows "if ls_srtt ls = 0 then ls_srtt (updateRtt r d ls) = a
    else 7 * ls_srtt ls + a - 14 \<le> 8 * ls_srtt (updateRtt r d ls) \<and> 8 * ls_srtt (updateRtt r d ls) \<le> 7 * ls_srtt ls + a"
proof -
  have a: "a = (if r > d \<and> r > min (ls_mrtt ls) r + d then r - d else r)" "0 < a"
    using assms(2,3) by (auto simp: a_def adjusted_rtt_def mrtt_updateRtt)
  note upd = updateRtt_srtt(1) [of r d ls, folded a(1)]
  have "7 * x + y - 14 \<le> 8 * ((x * 7) div 8 + y div 8) \<and> 8 * ((x * 7) div 8 + y div 8) \<le> 7 * x + y" for x y :: int
    by presburger
  then show ?thesis using assms(1) a(2) by (simp add: upd sdiv_pos)
qed

lemma rtt_after_snoc: "rtt_after (xs @ [(r, d)]) ls = updateRtt r d (rtt_after xs ls)"
  by (simp add: rtt_after_def)

text \<open>C37:
  Samples of the round trip time, positive and at most \<open>hi\<close>, with acknowledgement delays that
  are not negative, the last of them \<open>r\<close> with delay \<open>d\<close>. The least round trip time is the least
  sample. The smoothed one is at most \<open>hi\<close> and at most 14 microseconds below the least sample,
  which is what the rounding of its two divisions can cost, and the variation is between 0 and
  \<open>hi\<close>, whatever the least sample is. The last sample counts for an eighth of the smoothed round
  trip time, up to the rounding: a smoothed value above the adjusted sample goes down and not
  below the sample, and one more than 14 microseconds below the sample goes up and not above it.
\<close>

theorem rtt_within_samples:
  assumes "\<forall>(r, d) \<in> set (xs @ [(r, d)]). 0 < r \<and> r \<le> hi \<and> 0 \<le> d"
    and "ls = rtt_after xs LossState_init" and "ls' = rtt_after (xs @ [(r, d)]) LossState_init"
    and "a = adjusted_rtt (ls_mrtt ls') r d"
  shows "ls_mrtt ls' = fold (\<lambda>(r, d) m. min m r) (xs @ [(r, d)]) kDefaultMinRtt
    \<and> ls_mrtt ls' - 14 \<le> ls_srtt ls' \<and> ls_srtt ls' \<le> hi \<and> 0 \<le> ls_rttvar ls' \<and> ls_rttvar ls' \<le> hi
    \<and> (if ls_srtt ls = 0 then ls_srtt ls' = a
       else 7 * ls_srtt ls + a - 14 \<le> 8 * ls_srtt ls' \<and> 8 * ls_srtt ls' \<le> 7 * ls_srtt ls + a
         \<and> (ls_srtt ls > a \<longrightarrow> a \<le> ls_srtt ls' \<and> ls_srtt ls' < ls_srtt ls)
         \<and> (ls_srtt ls + 14 < a \<longrightarrow> ls_srtt ls < ls_srtt ls' \<and> ls_srtt ls' < a))"
proof -
  have pre: "rtt_pre hi LossState_init" by (simp add: rtt_pre_def LossState_init_def)
  have ls': "ls' = updateRtt r d ls" using assms(2,3) by (simp add: rtt_after_snoc)
  have inv: "rtt_inv hi ls'" using rtt_after_inv [OF assms(1) pre] assms(3) by simp
  have "0 \<le> ls_srtt ls"
    using rtt_after_inv [of xs hi, OF _ pre] assms(1,2) by (cases "xs = []") (auto simp: rtt_inv_def rtt_after_def LossState_init_def)
  then have "if ls_srtt ls = 0 then ls_srtt ls' = a
      else 7 * ls_srtt ls + a - 14 \<le> 8 * ls_srtt ls' \<and> 8 * ls_srtt ls' \<le> 7 * ls_srtt ls + a"
    using updateRtt_moves [of ls r d] assms(1,4) ls' by simp
  then show ?thesis using inv assms(3) by (auto simp: rtt_inv_def rtt_after_mrtt LossState_init_def split: if_splits)
qed

theorem rtt_within_samples_witness:
  "ls_srtt (rtt_after [(1000, 0), (1400, 25), (900, 0)] LossState_init) \<le> 1400
   \<and> 886 \<le> ls_srtt (rtt_after [(1000, 0), (1400, 25), (900, 0)] LossState_init)"
  using rtt_within_samples [of "[(1000, 0), (1400, 25)]" 900 0 1400, OF _ refl refl refl] by simp

section \<open>Acknowledgements are planned\<close>

text \<open>
  Runs of one packet number space: packets are received, the acknowledgement timer fires, and
  packets with acknowledgements are sent. The first component says whether a packet that asks
  for an acknowledgement has come in since the last one was sent.
\<close>

inductive ack_run :: "bool \<Rightarrow> AckState \<times> QuicConnectionState \<Rightarrow> bool" where
  start: "ack_run False (a, conn)"
| recv: "ack_run owed s \<Longrightarrow>
    ack_run (owed \<or> pktHasRetransmittableData)
      (updateAckSendStateOnRecvPacket distance pktHasRetransmittableData pktHasCryptoData initPktNumSpace s)"
| timeout: "ack_run owed (a, conn) \<Longrightarrow> conn' = updateAckStateOnAckTimeout (put_ack_state AppData_Space a conn) \<Longrightarrow>
    ack_run owed (appDataAckState (ackStates conn'), conn')"
| sent: "ack_run owed s \<Longrightarrow> ack_run False (updateAckSendStateOnSentPacketWithAcks largest s)"

definition ack_planned :: "AckState \<times> QuicConnectionState \<Rightarrow> bool" where
  "ack_planned = (\<lambda>(a, conn). as_needsToSendAckImmediately a \<or> pe_scheduleAckTimeout (pendingEvents conn))"

lemma recv_planned:
  assumes "rtx \<or> ack_planned s"
  shows "ack_planned (updateAckSendStateOnRecvPacket distance rtx crypto initSpace s)"
  using assms by (cases s) (auto simp: updateAckSendStateOnRecvPacket_def ack_planned_def Let_def)

text \<open>C38:
  Whatever packets arrive in a packet number space, and however timeouts and sent
  acknowledgements are mixed with them: as long as a packet that asks for an acknowledgement
  has not been acknowledged, either an acknowledgement is to be sent at once or the
  acknowledgement timer is to be set.
\<close>

theorem acknowledgement_planned:
  assumes "ack_run True (a, conn)"
  shows "as_needsToSendAckImmediately a \<or> pe_scheduleAckTimeout (pendingEvents conn)"
proof -
  have "owed \<longrightarrow> ack_planned s" if "ack_run owed s" for owed s
    using that
  proof induction
    case (timeout owed a conn conn')
    then show ?case by (simp add: ack_planned_def updateAckStateOnAckTimeout_def put_ack_state_def on_pe_def)
  qed (auto intro: recv_planned)
  from this [OF assms] show ?thesis by (simp add: ack_planned_def)
qed

text \<open>A state as it is at the start of a connection.\<close>

definition demo_acks :: "AckState \<times> QuicConnectionState" where
  "demo_acks = (AckState_init 0, QuicConnectionState_make Server (QuicStreamManager_blank Server) 0)"

theorem acknowledgement_planned_witness:
  "case updateAckSendStateOnRecvPacket 0 True False False demo_acks of
     (a, conn) \<Rightarrow> as_needsToSendAckImmediately a \<or> pe_scheduleAckTimeout (pendingEvents conn)"
proof -
  obtain a conn where s: "updateAckSendStateOnRecvPacket 0 True False False demo_acks = (a, conn)" by fastforce
  have "ack_run (False \<or> True) (updateAckSendStateOnRecvPacket 0 True False False demo_acks)"
    unfolding demo_acks_def by (intro ack_run.recv ack_run.start)
  then have "ack_run True (a, conn)" by (simp add: s)
  from acknowledgement_planned [OF this] s show ?thesis by simp
qed

text \<open>The packets counted since the last acknowledgement, with the one that has just come in. The
  counter of packets that ask for an acknowledgement has eight bits.\<close>

definition packets_counted :: "bool \<Rightarrow> AckState \<Rightarrow> nat" where
  "packets_counted rtx a =
     (if rtx then unat (ucast (as_numRxPacketsRecvd a + 1) + as_numNonRxPacketsRecvd a)
      else unat (as_numNonRxPacketsRecvd a + 1 + ucast (as_numRxPacketsRecvd a)))"

lemma unat_ucast_u8_u64: "unat (ucast (x :: u8) :: u64) = unat x"
  using unsigned_less [of x, where ?'a = nat] by (simp add: unsigned_ucast_eq take_bit_nat_eq_self)

lemma ack_due:
  "as_needsToSendAckImmediately (fst (updateAckSendStateOnRecvPacket distance rtx crypto initSpace (a, conn))) \<longleftrightarrow>
     as_needsToSendAckImmediately a
   \<or> rtx \<and> (crypto \<and> \<not> (nodeType conn = Server \<and> initSpace) \<or> distance > as_reorderThreshold a)
   \<or> unat (ack_threshold rtx (transportSettings conn) a) \<le> packets_counted rtx a"
proof -
  have "ucast (th :: u8) \<le> n \<longleftrightarrow> unat th \<le> unat n" for th and n :: u64
    by (simp only: word_le_nat_alt unat_ucast_u8_u64)
  then show ?thesis unfolding packets_counted_def updateAckSendStateOnRecvPacket_def Let_def
    by (cases rtx) auto
qed

text \<open>C39:
  The tolerance the peer asks for is cut to eight bits. With a tolerance in force, a packet makes
  an acknowledgement due at once exactly when one was due already, when the packet asks for one
  and carries crypto data (outside the initial space of a server) or is out of order by more than
  the threshold, or when the packets counted reach the tolerance modulo 256; the fixed threshold
  of 20 stands in when neither this packet nor one counted asks for an acknowledgement. So with a
  tolerance that is a multiple of 256 every packet that asks for an acknowledgement gets one at
  once, where the peer asked to wait for at least 256 packets.
\<close>

theorem ack_tolerance_truncated:
  assumes "as_tolerance a = Some t"
    and "a' = fst (updateAckSendStateOnRecvPacket distance rtx crypto initSpace (a, conn))"
  shows "(as_needsToSendAckImmediately a' \<longleftrightarrow>
       as_needsToSendAckImmediately a
     \<or> rtx \<and> (crypto \<and> \<not> (nodeType conn = Server \<and> initSpace) \<or> distance > as_reorderThreshold a)
     \<or> (if rtx \<or> as_numRxPacketsRecvd a \<noteq> 0 then unat t mod 256 else 20) \<le> packets_counted rtx a)
   \<and> (rtx \<and> unat t mod 256 = 0 \<longrightarrow> as_needsToSendAckImmediately a')"
proof -
  let ?thresh = "ack_threshold rtx (transportSettings conn) a"
  have thresh: "unat ?thresh = (if rtx \<or> as_numRxPacketsRecvd a \<noteq> 0 then unat t mod 256 else 20)"
    using assms(1) by (simp add: ack_threshold_def unsigned_ucast_eq take_bit_eq_mod)
  show ?thesis unfolding assms(2) ack_due thresh by auto
qed

theorem ack_tolerance_truncated_witness:
  "as_needsToSendAckImmediately
     (fst (updateAckSendStateOnRecvPacket 0 True False False ((fst demo_acks)\<lparr>as_tolerance := Some 256\<rparr>, snd demo_acks)))
   \<and> \<not> as_needsToSendAckImmediately
     (fst (updateAckSendStateOnRecvPacket 0 True False False ((fst demo_acks)\<lparr>as_tolerance := Some 258\<rparr>, snd demo_acks)))"
  using ack_tolerance_truncated [of "(fst demo_acks)\<lparr>as_tolerance := Some 256\<rparr>" 256 _ 0 True False False "snd demo_acks", OF _ refl]
    ack_tolerance_truncated [of "(fst demo_acks)\<lparr>as_tolerance := Some 258\<rparr>" 258 _ 0 True False False "snd demo_acks", OF _ refl]
  by (simp add: demo_acks_def AckState_init_def packets_counted_def)

section \<open>The packets to acknowledge\<close>

primrec receive_all :: "(PacketNum \<times> TimePoint) list \<Rightarrow> AckState \<Rightarrow> AckState result" where
  "receive_all [] a = Inr a"
| "receive_all (p # ps) a =
     and_then (updateLargestReceivedPacketNum (fst p) (snd p) a) (\<lambda>(distance, a1). receive_all ps a1)"

definition recv_inv :: "PacketNum set \<Rightarrow> AckState \<Rightarrow> bool" where
  "recv_inv S a \<longleftrightarrow> is_inv (as_acks a) \<and> is_set (as_acks a) = unat ` S
     \<and> as_largestRecvdPacketNum a = (if S = {} then None else Some (Max S))
     \<and> length (as_recvdPacketInfos a) \<le> kMaxReceivedPktsTimestampsStored
     \<and> sorted_wrt (<) (map rpi_pktNum (as_recvdPacketInfos a))
     \<and> (\<forall>i \<in> set (as_recvdPacketInfos a). rpi_pktNum i \<in> S)"

lemma infos_append:
  assumes "length infos \<le> 25" and "sorted_wrt (<) (map rpi_pktNum infos)" and "\<forall>i \<in> set infos. rpi_pktNum i < rpi_pktNum info"
  defines "infos' \<equiv> (if length infos = 25 then tl infos else infos) @ [info]"
  shows "length infos' \<le> 25" and "sorted_wrt (<) (map rpi_pktNum infos')"
    and "set infos' \<subseteq> insert info (set infos)"
proof -
  have s: "set (tl infos) \<subseteq> set infos" by (cases infos) auto
  have "sorted_wrt (<) (map rpi_pktNum (tl infos))" using assms(2) by (cases infos) auto
  then show "length infos' \<le> 25" "sorted_wrt (<) (map rpi_pktNum infos')" "set infos' \<subseteq> insert info (set infos)"
    using assms(1-3) s by (auto simp: infos'_def sorted_wrt_append)
qed

lemma receive_fields:
  assumes "is_insert_point (as_acks a) p = Inr acks"
  shows "\<exists>d a'. updateLargestReceivedPacketNum p t a = Inr (d, a') \<and> as_acks a' = acks
    \<and> as_largestRecvdPacketNum a' = Some (max (case as_largestRecvdPacketNum a of Some n \<Rightarrow> n | None \<Rightarrow> p) p)
    \<and> as_recvdPacketInfos a' =
        (if p \<ge> (case as_largestRecvdPacketNum a of Some n \<Rightarrow> n + 1 | None \<Rightarrow> 0)
         then (if length (as_recvdPacketInfos a) = 25 then tl (as_recvdPacketInfos a) else as_recvdPacketInfos a)
              @ [\<lparr>rpi_pktNum = p, rpi_timeStamp = t\<rparr>]
         else as_recvdPacketInfos a)"
  using assms by (auto simp: updateLargestReceivedPacketNum_def Let_def)

lemma above_next: "n \<le> kMaxPacketNumber \<Longrightarrow> n + 1 \<le> p \<longleftrightarrow> n < (p :: u64)"
  using unat_add_no_wrap [of n 1] by (auto simp: word_le_nat_alt word_less_nat_alt)

lemma receive_one:
  assumes inv: "recv_inv S a" and p: "p \<le> kMaxPacketNumber" and S: "\<forall>q \<in> S. q \<le> kMaxPacketNumber"
  shows "\<exists>d a'. updateLargestReceivedPacketNum p t a = Inr (d, a') \<and> recv_inv (insert p S) a'"
proof -
  have "p < u64_max" using p by (simp add: word_le_nat_alt word_less_nat_alt)
  with inv ivs.ins_law [of "as_acks a" p] obtain acks where acks: "is_insert_point (as_acks a) p = Inr acks"
    "is_inv acks" "is_set acks = insert (unat p) (unat ` S)" by (auto simp: recv_inv_def)
  have largest: "max (case as_largestRecvdPacketNum a of Some n \<Rightarrow> n | None \<Rightarrow> p) p = Max (insert p S)"
    using inv by (simp add: recv_inv_def max.commute)
  have newest: "q < p" if "p \<ge> (case as_largestRecvdPacketNum a of Some n \<Rightarrow> n + 1 | None \<Rightarrow> 0)" "q \<in> S" for q
  proof -
    have "Max S \<in> S" using that(2) by (intro Max_in) auto
    then have "Max S \<le> kMaxPacketNumber" "q \<le> Max S" using S that(2) by auto
    moreover have "as_largestRecvdPacketNum a = Some (Max S)" using inv that(2) by (auto simp: recv_inv_def)
    ultimately have "Max S < p" using that(1) above_next [of "Max S" p] by simp
    with \<open>q \<le> Max S\<close> show ?thesis by simp
  qed
  from receive_fields [OF acks(1), of t] largest obtain d a'
    where run: "updateLargestReceivedPacketNum p t a = Inr (d, a')"
      and f: "as_acks a' = acks" "as_largestRecvdPacketNum a' = Some (Max (insert p S))"
        "as_recvdPacketInfos a' =
        (if p \<ge> (case as_largestRecvdPacketNum a of Some n \<Rightarrow> n + 1 | None \<Rightarrow> 0)
         then (if length (as_recvdPacketInfos a) = 25 then tl (as_recvdPacketInfos a) else as_recvdPacketInfos a)
              @ [\<lparr>rpi_pktNum = p, rpi_timeStamp = t\<rparr>]
         else as_recvdPacketInfos a)" by auto
  have old: "length (as_recvdPacketInfos a) \<le> 25" "sorted_wrt (<) (map rpi_pktNum (as_recvdPacketInfos a))"
    "\<forall>i \<in> set (as_recvdPacketInfos a). rpi_pktNum i \<in> S"
    using inv by (simp_all add: recv_inv_def)
  have "length (as_recvdPacketInfos a') \<le> 25 \<and> sorted_wrt (<) (map rpi_pktNum (as_recvdPacketInfos a'))
      \<and> (\<forall>i \<in> set (as_recvdPacketInfos a'). rpi_pktNum i \<in> insert p S)"
  proof (cases "p \<ge> (case as_largestRecvdPacketNum a of Some n \<Rightarrow> n + 1 | None \<Rightarrow> 0)")
    case True
    then have "\<forall>i \<in> set (as_recvdPacketInfos a). rpi_pktNum i < rpi_pktNum \<lparr>rpi_pktNum = p, rpi_timeStamp = t\<rparr>"
      using newest old(3) by auto
    from infos_append [OF old(1,2) this] show ?thesis
      unfolding f(3) using True old(3) by (auto simp del: length_append)
  next
    case False
    then show ?thesis unfolding f(3) using old by auto
  qed
  then have "recv_inv (insert p S) a'" using acks f(1,2) by (simp add: recv_inv_def)
  with run show ?thesis by blast
qed

lemma receive_all_inv:
  assumes "recv_inv S a" and "\<forall>p \<in> set ps. fst p \<le> kMaxPacketNumber" and "\<forall>q \<in> S. q \<le> kMaxPacketNumber"
  shows "\<exists>a'. receive_all ps a = Inr a' \<and> recv_inv (S \<union> fst ` set ps) a'"
  using assms
proof (induction ps arbitrary: S a)
  case (Cons p ps)
  then obtain d a1 where "updateLargestReceivedPacketNum (fst p) (snd p) a = Inr (d, a1)" "recv_inv (insert (fst p) S) a1"
    using receive_one [of S a "fst p" "snd p"] by auto
  with Cons.IH [of "insert (fst p) S" a1] Cons.prems show ?case by auto
qed simp

text \<open>C40:
  After any packets, in any order and with any repetitions: the intervals to acknowledge hold
  exactly the numbers received, the largest number is the largest of them, and at most 25
  receive times are kept, of packets that were received, in increasing order of their numbers.
\<close>

theorem received_packets_recorded:
  assumes "ps \<noteq> []" and "\<forall>p \<in> set ps. fst p \<le> kMaxPacketNumber"
  shows "\<exists>a. receive_all ps (AckState_init n) = Inr a
    \<and> is_set (as_acks a) = unat ` fst ` set ps
    \<and> as_largestRecvdPacketNum a = Some (Max (fst ` set ps))
    \<and> length (as_recvdPacketInfos a) \<le> 25
    \<and> sorted_wrt (<) (map rpi_pktNum (as_recvdPacketInfos a))
    \<and> (\<forall>i \<in> set (as_recvdPacketInfos a). rpi_pktNum i \<in> fst ` set ps)"
proof -
  have "recv_inv {} (AckState_init n)"
    using ivs.empty_laws by (simp add: recv_inv_def AckState_init_def)
  from receive_all_inv [OF this assms(2)] assms(1) show ?thesis by (auto simp: recv_inv_def)
qed

theorem received_packets_recorded_witness:
  "\<exists>a. receive_all [(7, 100), (5, 101), (6, 102), (9, 103), (5, 104)] (AckState_init 0) = Inr a
     \<and> as_largestRecvdPacketNum a = Some 9"
proof -
  have "Max (fst ` set [(7 :: u64, 100 :: int), (5, 101), (6, 102), (9, 103), (5, 104)]) = 9" by (simp add: max_def)
  then show ?thesis
    using received_packets_recorded [of "[(7, 100), (5, 101), (6, 102), (9, 103), (5, 104)]" 0] by auto
qed

end
