(* ===== verification/Loss_Detection.thy ===== *)
theory Loss_Detection
  imports Flow_Control State_Functions Loss_Buffer
begin

text \<open>
  Loss detection, \<^verbatim>\<open>loss/quic_loss_functions.{h,cpp}\<close>, with the part of
  \<^verbatim>\<open>state/simple_frame_functions.cpp\<close> and \<^verbatim>\<open>congestion_control/congestion_controller.h\<close> it
  uses. The function that is told of every lost packet is a parameter, as in the code; the
  code passes \<^verbatim>\<open>markPacketLoss\<close>. What the congestion controller is told is returned. The
  time of the clock is an argument. The theorems show which packets one pass over the
  outstanding packets declares lost and that the counters follow.
\<close>

section \<open>Frames of a lost packet\<close>

definition sendSimpleFrame :: "QuicSimpleFrame \<Rightarrow> QuicConnectionState \<Rightarrow> QuicConnectionState" where
  "sendSimpleFrame frame = on_pe (\<lambda>pe. pe\<lparr>pe_frames := pe_frames pe @ [frame]\<rparr>)"

definition updateSimpleFrameOnPacketClone :: "QuicConnectionState \<Rightarrow> QuicSimpleFrame \<Rightarrow> QuicSimpleFrame option" where
  "updateSimpleFrameOnPacketClone conn frame =
     (case frame of
        SF_StopSending f \<Rightarrow> if streamExists (ss_streamId f) (streamManager conn) then Some frame else None
      | SF_PathChallenge f \<Rightarrow> if outstandingPathValidation conn \<noteq> Some f then None else Some frame
      | _ \<Rightarrow> Some frame)"

definition updateSimpleFrameOnPacketLoss :: "QuicSimpleFrame \<Rightarrow> QuicConnectionState \<Rightarrow> QuicConnectionState" where
  "updateSimpleFrameOnPacketLoss frame conn =
     (let again = on_pe (\<lambda>pe. pe\<lparr>pe_frames := pe_frames pe @ [frame]\<rparr>) conn
      in case frame of
           SF_StopSending f \<Rightarrow> if streamExists (ss_streamId f) (streamManager conn) then again else conn
         | SF_PathChallenge f \<Rightarrow>
             if outstandingPathValidation conn = Some f then on_pe (\<lambda>pe. pe\<lparr>pe_pathChallenge := Some f\<rparr>) conn
             else conn
         | _ \<Rightarrow> again)"

datatype EncryptionLevel = EL_Initial | EL_Handshake | EL_EarlyData | EL_AppData

fun protectionTypeToEncryptionLevel :: "ProtectionType \<Rightarrow> EncryptionLevel" where
  "protectionTypeToEncryptionLevel PT_Initial = EL_Initial"
| "protectionTypeToEncryptionLevel PT_Handshake = EL_Handshake"
| "protectionTypeToEncryptionLevel PT_ZeroRtt = EL_EarlyData"
| "protectionTypeToEncryptionLevel PT_KeyPhaseZero = EL_AppData"
| "protectionTypeToEncryptionLevel PT_KeyPhaseOne = EL_AppData"

fun getCryptoStream :: "QuicCryptoState \<Rightarrow> EncryptionLevel \<Rightarrow> QuicCryptoStream" where
  "getCryptoStream cs EL_Initial = initialStream cs"
| "getCryptoStream cs EL_Handshake = handshakeStream cs"
| "getCryptoStream cs EL_EarlyData = handshakeStream cs"
| "getCryptoStream cs EL_AppData = oneRttStream cs"

fun put_crypto_stream :: "EncryptionLevel \<Rightarrow> QuicCryptoStream \<Rightarrow> QuicCryptoState \<Rightarrow> QuicCryptoState" where
  "put_crypto_stream EL_Initial s cs = cs\<lparr>initialStream := s\<rparr>"
| "put_crypto_stream EL_Handshake s cs = cs\<lparr>handshakeStream := s\<rparr>"
| "put_crypto_stream EL_EarlyData s cs = cs\<lparr>handshakeStream := s\<rparr>"
| "put_crypto_stream EL_AppData s cs = cs\<lparr>oneRttStream := s\<rparr>"

text \<open>
  A lost frame with stream data: the buffer kept for retransmission moves to the loss buffer,
  unless the policy of the stream group forbids it. The set holds the streams whose loss count
  this packet has already raised.
\<close>

definition count_stream_loss :: "QuicStreamState \<Rightarrow> StreamId set \<Rightarrow> QuicStreamState \<times> StreamId set" where
  "count_stream_loss stream seen =
     (if stream_id stream \<notin> seen
      then (stream\<lparr>streamLossCount := streamLossCount stream + 1\<rparr>, insert (stream_id stream) seen)
      else (stream, seen))"

definition mark_stream_data :: "QuicConnectionState \<Rightarrow> WriteStreamFrame \<Rightarrow> QuicStreamState \<Rightarrow> StreamId set
     \<Rightarrow> (QuicStreamState \<times> StreamId set) option" where
  "mark_stream_data conn frame stream seen =
     (if \<not> ws_fromBufMeta frame
      then case retransmissionBuffer stream (ws_offset frame) of
             None \<Rightarrow> None
           | Some buf \<Rightarrow>
               let s1 = (if \<not> streamRetransmissionDisabled conn stream then insertIntoLossBuffer buf stream else stream);
                   (s2, seen1) = count_stream_loss s1 seen
               in Some (s2\<lparr>retransmissionBuffer := (retransmissionBuffer s2)(ws_offset frame := None)\<rparr>, seen1)
      else case retransmissionBufMetas stream (ws_offset frame) of
             None \<Rightarrow> None
           | Some bufMeta \<Rightarrow>
               let s1 = (if \<not> streamRetransmissionDisabled conn stream then insertIntoLossBufMeta bufMeta stream else stream);
                   (s2, seen1) = count_stream_loss s1 seen
               in Some (s2\<lparr>retransmissionBufMetas := (retransmissionBufMetas s2)(ws_offset frame := None)\<rparr>, seen1))"

definition mark_frame ::
    "TimePoint \<Rightarrow> PacketHeader \<Rightarrow> bool \<Rightarrow> QuicWriteFrame \<Rightarrow> QuicConnectionState \<times> StreamId set
     \<Rightarrow> (QuicConnectionState \<times> StreamId set) result" where
  "mark_frame now header processed packetFrame = (\<lambda>(conn, seen).
     case packetFrame of
       WF_MaxStreamData frame \<Rightarrow>
         and_then (getStream now (msd_streamId frame) None conn)
           (\<lambda>(st, conn1). Inr (case st of
                None \<Rightarrow> conn1
              | Some stream \<Rightarrow> on_sm (onStreamWindowUpdateLost stream) conn1, seen))
     | WF_MaxData frame \<Rightarrow> Inr (onConnWindowUpdateLost conn, seen)
     | WF_DataBlocked frame \<Rightarrow> Inr (if processed then conn else onDataBlockedLost conn, seen)
     | WF_WriteStream frame \<Rightarrow>
         if processed then Inr (conn, seen)
         else and_then (getStream now (ws_streamId frame) None conn)
                (\<lambda>(st, conn1). Inr (case st of
                     None \<Rightarrow> (conn1, seen)
                   | Some stream \<Rightarrow>
                       (case mark_stream_data conn1 frame stream seen of
                          None \<Rightarrow> (conn1, seen)
                        | Some (s1, seen1) \<Rightarrow>
                            (on_sm (\<lambda>sm. updateWritableStreams s1 (put_stream s1 sm)) conn1, seen1))))
     | WF_WriteCrypto frame \<Rightarrow>
         if processed then Inr (conn, seen)
         else let level = protectionTypeToEncryptionLevel (ph_getProtectionType header);
                  cryptoStream = getCryptoStream (cryptoState conn) level
              in (case retransmissionBuffer cryptoStream (wc_offset frame) of
                    None \<Rightarrow> Inr (conn, seen)
                  | Some buf \<Rightarrow>
                      let s1 = insertIntoLossBuffer buf cryptoStream;
                          s2 = s1\<lparr>retransmissionBuffer := (retransmissionBuffer s1)(wc_offset frame := None)\<rparr>
                      in Inr (conn\<lparr>cryptoState := put_crypto_stream level s2 (cryptoState conn)\<rparr>, seen))
     | WF_RstStream frame \<Rightarrow>
         if processed then Inr (conn, seen)
         else and_then (getStream now (rst_streamId frame) None conn)
                (\<lambda>(st, conn1). Inr (case st of
                     None \<Rightarrow> conn1
                   | Some stream \<Rightarrow>
                       if pe_resets (pendingEvents conn1) (rst_streamId frame) = None
                       then on_pe (\<lambda>pe. pe\<lparr>pe_resets := (pe_resets pe)(rst_streamId frame \<mapsto> frame)\<rparr>) conn1
                       else conn1, seen))
     | WF_StreamDataBlocked frame \<Rightarrow>
         if processed then Inr (conn, seen)
         else and_then (getStream now (sdb_streamId frame) None conn)
                (\<lambda>(st, conn1). Inr (case st of
                     None \<Rightarrow> conn1
                   | Some stream \<Rightarrow> on_sm (onBlockedLost stream) conn1, seen))
     | WF_Simple frame \<Rightarrow> Inr (if processed then conn else updateSimpleFrameOnPacketLoss frame conn, seen)
     | _ \<Rightarrow> Inr (conn, seen))"

primrec mark_frames ::
    "TimePoint \<Rightarrow> PacketHeader \<Rightarrow> bool \<Rightarrow> QuicWriteFrame list \<Rightarrow> QuicConnectionState \<times> StreamId set
     \<Rightarrow> (QuicConnectionState \<times> StreamId set) result" where
  "mark_frames now header processed [] st = Inr st"
| "mark_frames now header processed (f # fs) st =
     and_then (mark_frame now header processed f st) (mark_frames now header processed fs)"

definition markPacketLoss ::
    "TimePoint \<Rightarrow> QuicConnectionState \<Rightarrow> RegularQuicWritePacket \<Rightarrow> bool \<Rightarrow> QuicConnectionState result" where
  "markPacketLoss now conn packet processed =
     and_then (mark_frames now (rw_header packet) processed (rw_frames packet) (conn, {})) (\<lambda>(conn1, seen). Inr conn1)"

type_synonym LossVisitor = "QuicConnectionState \<Rightarrow> RegularQuicWritePacket \<Rightarrow> bool \<Rightarrow> QuicConnectionState result"

section \<open>Loss events\<close>

record LossEvent =
  le_largestLostPacketNum :: "PacketNum option"
  le_lostPacketNumbers :: "PacketNum list"
  le_lostBytes :: u64
  le_lostPackets :: u32
  le_lossTime :: TimePoint
  le_largestLostSentTime :: "TimePoint option"
  le_smallestLostSentTime :: "TimePoint option"
  le_persistentCongestion :: bool

definition LossEvent_make :: "TimePoint \<Rightarrow> LossEvent" where
  "LossEvent_make time =
     \<lparr>le_largestLostPacketNum = None, le_lostPacketNumbers = [], le_lostBytes = 0, le_lostPackets = 0,
      le_lossTime = time, le_largestLostSentTime = None, le_smallestLostSentTime = None,
      le_persistentCongestion = False\<rparr>"

definition value_or :: "'a option \<Rightarrow> 'a \<Rightarrow> 'a" where
  "value_or opt d = (case opt of Some x \<Rightarrow> x | None \<Rightarrow> d)"

definition op_num :: "OutstandingPacket \<Rightarrow> PacketNum" where
  "op_num p = ph_getPacketSequenceNum (rw_header (op_packet p))"

definition addLostPacket :: "OutstandingPacket \<Rightarrow> LossEvent \<Rightarrow> LossEvent result" where
  "addLostPacket packet ev =
     (if u64_max - le_lostBytes ev < ucast (op_encodedSize packet)
      then Inl (QuicInternalException LOST_BYTES_OVERFLOW)
      else let packetNum = op_num packet
           in Inr (ev\<lparr>le_largestLostPacketNum := Some (max packetNum (value_or (le_largestLostPacketNum ev) packetNum)),
                      le_lostPacketNumbers := le_lostPacketNumbers ev @ [packetNum],
                      le_lostBytes := le_lostBytes ev + ucast (op_encodedSize packet),
                      le_lostPackets := le_lostPackets ev + 1,
                      le_largestLostSentTime :=
                        Some (max (op_time packet) (value_or (le_largestLostSentTime ev) (op_time packet))),
                      le_smallestLostSentTime :=
                        Some (min (op_time packet) (value_or (le_smallestLostSentTime ev) (op_time packet)))\<rparr>))"

section \<open>One pass over the outstanding packets\<close>

text \<open>What the pass compares the packets with.\<close>

record LossContext =
  lc_largestAcked :: PacketNum
  lc_pnSpace :: PacketNumberSpace
  lc_largestDsrAcked :: "StreamId \<rightharpoonup> PacketNum"
  lc_largestNonDsrAcked :: "PacketNum option"
  lc_lossTime :: TimePoint
  lc_rttSample :: int
  lc_delayUntilLost :: int

text \<open>
  The number of a packet and the largest acknowledged number it is compared with: the index
  within the stream for data that another machine sends (DSR), the sequence number among the
  other packets otherwise. Asking an absent number for its value throws.
\<close>

definition dsr_frame :: "OutstandingPacket \<Rightarrow> WriteStreamFrame option" where
  "dsr_frame p =
     (case rw_frames (op_packet p) of
        WF_WriteStream f # _ \<Rightarrow> if ws_fromBufMeta f then Some f else None
      | _ \<Rightarrow> None)"

definition loss_numbers :: "LossContext \<Rightarrow> OutstandingPacket \<Rightarrow> (PacketNum \<times> PacketNum) result" where
  "loss_numbers c p =
     (case dsr_frame p of
        Some f \<Rightarrow>
          Inr (value_or (lc_largestDsrAcked c (ws_streamId f)) (ws_streamPacketIdx f), ws_streamPacketIdx f)
      | None \<Rightarrow>
          and_then (if lc_largestDsrAcked c = Map.empty
                    then case lc_largestNonDsrAcked c of Some n \<Rightarrow> Inr n | None \<Rightarrow> Inl runtime_error
                    else Inr (value_or (lc_largestNonDsrAcked c) (op_num p)))
            (\<lambda>largest. Inr (largest, value_or (op_nonDsrPacketSequenceNumber p) (op_num p))))"

definition lost_by_timeout :: "LossContext \<Rightarrow> OutstandingPacket \<Rightarrow> bool" where
  "lost_by_timeout c p \<longleftrightarrow> lc_lossTime c - op_time p > lc_delayUntilLost c"

definition reorder_distance :: "PacketNum \<times> PacketNum \<Rightarrow> u64" where
  "reorder_distance = (\<lambda>(largest, current). max largest current - current)"

text \<open>What is written into the connection and the packet when a packet is declared lost.\<close>

definition uncount_lost :: "PacketNumberSpace \<Rightarrow> OutstandingPacket \<Rightarrow> OutstandingsInfo \<Rightarrow> OutstandingsInfo" where
  "uncount_lost pnSpace p os =
     (let os1 = (if op_isDSRPacket p then os\<lparr>os_dsrCount := os_dsrCount os - 1\<rparr> else os)
      in if op_associatedEvent p \<noteq> None
         then os1\<lparr>os_clonedPacketCount :=
                (os_clonedPacketCount os1)(pnSpace := os_clonedPacketCount os1 pnSpace - 1)\<rparr>
         else os1)"

definition already_processed :: "OutstandingPacket \<Rightarrow> OutstandingsInfo \<Rightarrow> bool" where
  "already_processed p os =
     (case op_associatedEvent p of Some e \<Rightarrow> e \<notin> os_packetEvents os | None \<Rightarrow> False)"

definition forget_event :: "PacketNumberSpace \<Rightarrow> bool \<Rightarrow> OutstandingPacket \<Rightarrow> OutstandingsInfo \<Rightarrow> OutstandingsInfo" where
  "forget_event pnSpace processed p os =
     (let os1 = (case op_associatedEvent p of
                   Some e \<Rightarrow> os\<lparr>os_packetEvents := os_packetEvents os - {e}\<rparr> | None \<Rightarrow> os)
      in if \<not> processed
         then os1\<lparr>os_packetCount := (os_packetCount os1)(pnSpace := os_packetCount os1 pnSpace - 1)\<rparr>
         else os1)"

definition lost_packet :: "TransportSettings \<Rightarrow> LossContext \<Rightarrow> u64 \<Rightarrow> bool \<Rightarrow> OutstandingPacket \<Rightarrow> OutstandingPacket" where
  "lost_packet settings c distance lostByReorder p =
     (let p1 = (if lost_by_timeout c p \<and> lc_rttSample c > 0
                then p\<lparr>op_lossTimeoutDividend :=
                       Some (((lc_lossTime c - op_time p) * timeReorderingThreshDivisor settings) sdiv lc_rttSample c)\<rparr>
                else p)
      in if lostByReorder then p1\<lparr>op_lossReorderDistance := Some (ucast distance)\<rparr> else p1)"

definition count_lost :: "LossContext \<Rightarrow> bool \<Rightarrow> OutstandingPacket \<Rightarrow> LossState \<Rightarrow> LossState" where
  "count_lost c lostByReorder p ls =
     (let ls1 = ls\<lparr>ls_totalPacketsMarkedLost := ls_totalPacketsMarkedLost ls + 1\<rparr>;
          ls2 = (if lost_by_timeout c p \<and> lc_rttSample c > 0
                 then ls1\<lparr>ls_totalPacketsMarkedLostByTimeout := ls_totalPacketsMarkedLostByTimeout ls1 + 1\<rparr> else ls1)
      in if lostByReorder
         then ls2\<lparr>ls_totalPacketsMarkedLostByReorderingThreshold := ls_totalPacketsMarkedLostByReorderingThreshold ls2 + 1\<rparr>
         else ls2)"

text \<open>
  One packet that the pass declares lost. The visitor is called in the middle; the pass relies
  on it to leave the outstanding packets alone, since adding or removing one would invalidate
  the iterator of the pass.
\<close>

definition declare_lost ::
    "LossVisitor \<Rightarrow> LossContext \<Rightarrow> nat \<Rightarrow> u64 \<Rightarrow> bool \<Rightarrow> QuicConnectionState \<times> LossEvent
     \<Rightarrow> (QuicConnectionState \<times> LossEvent) result" where
  "declare_lost visitor c i distance lostByReorder = (\<lambda>(conn, ev).
     let pkt = os_packets (outstandings conn) ! i; pnSpace = lc_pnSpace c;
         conn1 = on_os (uncount_lost pnSpace pkt) conn;
         processed = already_processed pkt (outstandings conn1)
     in and_then (visitor conn1 (op_packet pkt) processed)
          (\<lambda>conn2.
             let conn3 = on_ls (count_lost c lostByReorder pkt) (on_os (forget_event pnSpace processed pkt) conn2);
                 pkt1 = lost_packet (transportSettings conn3) c distance lostByReorder pkt
             in and_then (addLostPacket pkt1 ev)
                  (\<lambda>ev1. Inr (on_os (\<lambda>os. os\<lparr>os_declaredLostCount := os_declaredLostCount os + 1,
                                             os_packets := (os_packets os)[i := pkt1\<lparr>op_declaredLost := True\<rparr>]\<rparr>) conn3,
                              ev1))))"

fun loss_loop ::
    "LossVisitor \<Rightarrow> LossContext \<Rightarrow> nat list \<Rightarrow> bool \<Rightarrow> QuicConnectionState \<times> LossEvent
     \<Rightarrow> (bool \<times> QuicConnectionState \<times> LossEvent) result" where
  "loss_loop visitor c [] shouldSetTimer st = Inr (shouldSetTimer, st)"
| "loss_loop visitor c (i # is) shouldSetTimer st =
     (let pkt = os_packets (outstandings (fst st)) ! i
      in if op_num pkt \<ge> lc_largestAcked c then Inr (shouldSetTimer, st)
         else if op_space pkt \<noteq> lc_pnSpace c \<or> op_declaredLost pkt then loss_loop visitor c is shouldSetTimer st
         else and_then (loss_numbers c pkt)
                (\<lambda>nums.
                   let distance = reorder_distance nums;
                       lostByReorder = (distance > ucast (ls_reorderingThreshold (lossState (fst st))))
                   in if \<not> (lost_by_timeout c pkt \<or> lostByReorder) then loss_loop visitor c is True st
                      else and_then (declare_lost visitor c i distance lostByReorder st)
                             (loss_loop visitor c is shouldSetTimer)))"

definition processOutstandingsForLoss ::
    "LossVisitor \<Rightarrow> LossContext \<Rightarrow> QuicConnectionState \<times> LossEvent \<Rightarrow> (bool \<times> QuicConnectionState \<times> LossEvent) result" where
  "processOutstandingsForLoss visitor c st =
     loss_loop visitor c [getFirstOutstandingPacket (fst st) (lc_pnSpace c) ..< length (os_packets (outstandings (fst st)))]
       False st"

section \<open>Detecting losses\<close>

record AckPacket =
  ap_packetNum :: PacketNum
  ap_nonDsrPacketSequenceNumber :: u64
  ap_time :: TimePoint
  ap_detailsPerStream :: "(StreamId \<times> u64 option) list"

record AckEvent =
  ae_ackTime :: TimePoint
  ae_largestNewlyAckedPacket :: "PacketNum option"
  ae_ackedPackets :: "AckPacket list"

text \<open>
  The largest acknowledged index of each DSR stream and the largest acknowledged sequence
  number among the other packets. The details of a packet map a stream to the index its data
  had, if another machine sent it.
\<close>

definition note_stream_acked ::
    "u64 \<Rightarrow> StreamId \<times> u64 option \<Rightarrow> (StreamId \<rightharpoonup> PacketNum) \<times> PacketNum option \<Rightarrow> (StreamId \<rightharpoonup> PacketNum) \<times> PacketNum option" where
  "note_stream_acked seqNum = (\<lambda>(stream, idx) (dsr, nonDsr).
     case idx of
       Some i \<Rightarrow> (dsr(stream \<mapsto> max (value_or (dsr stream) i) i), nonDsr)
     | None \<Rightarrow> (dsr, Some (max (value_or nonDsr 0) seqNum)))"

definition note_packet_acked ::
    "AckPacket \<Rightarrow> (StreamId \<rightharpoonup> PacketNum) \<times> PacketNum option \<Rightarrow> (StreamId \<rightharpoonup> PacketNum) \<times> PacketNum option" where
  "note_packet_acked p acc =
     (let (dsr, nonDsr) = fold (note_stream_acked (ap_nonDsrPacketSequenceNumber p)) (ap_detailsPerStream p) acc
      in if ap_detailsPerStream p = []
         then (dsr, Some (max (value_or nonDsr 0) (ap_nonDsrPacketSequenceNumber p)))
         else (dsr, nonDsr))"

definition largest_acked ::
    "AckEvent option \<Rightarrow> PacketNum option \<Rightarrow> (StreamId \<rightharpoonup> PacketNum) \<times> PacketNum option" where
  "largest_acked ackEvent largestAcked =
     (let (dsr, nonDsr) = (case ackEvent of
                             Some ack \<Rightarrow> fold note_packet_acked (ae_ackedPackets ack) (Map.empty, None)
                           | None \<Rightarrow> (Map.empty, None))
      in case largestAcked of
           Some n \<Rightarrow> if dsr = Map.empty then (dsr, Some (value_or nonDsr n)) else (dsr, nonDsr)
         | None \<Rightarrow> (dsr, nonDsr))"

text \<open>The first outstanding packet whose event has not been processed.\<close>

definition earliest_unprocessed :: "PacketNumberSpace \<Rightarrow> OutstandingsInfo \<Rightarrow> OutstandingPacket option" where
  "earliest_unprocessed pnSpace os =
     find (\<lambda>p. \<not> op_declaredLost p \<and> pnSpace = op_space p \<and> \<not> already_processed p os) (os_packets os)"

text \<open>What follows the pass: the timer, the count of retransmissions and the event.\<close>

definition after_pass ::
    "int \<Rightarrow> PacketNumberSpace \<Rightarrow> bool \<times> QuicConnectionState \<times> LossEvent \<Rightarrow> LossEvent option \<times> QuicConnectionState" where
  "after_pass delay pnSpace = (\<lambda>(shouldSetTimer, conn2, lossEvent).
     let conn3 = (case earliest_unprocessed pnSpace (outstandings conn2) of
                    Some earliest \<Rightarrow>
                      if shouldSetTimer
                      then on_ls (\<lambda>ls. ls\<lparr>ls_lossTimes := (ls_lossTimes ls)(pnSpace := Some (delay + op_time earliest))\<rparr>) conn2
                      else conn2
                  | None \<Rightarrow> conn2)
     in if le_largestLostPacketNum lossEvent \<noteq> None
        then let conn4 = on_ls (\<lambda>ls. ls\<lparr>ls_rtxCount := ls_rtxCount ls + le_lostPackets lossEvent\<rparr>) conn3
             in (if congestionController conn4 \<noteq> None then Some lossEvent else None, conn4)
        else (None, conn3))"

definition detectLossPackets ::
    "LossVisitor \<Rightarrow> PacketNum option \<Rightarrow> TimePoint \<Rightarrow> PacketNumberSpace \<Rightarrow> AckEvent option \<Rightarrow> QuicConnectionState
     \<Rightarrow> (LossEvent option \<times> QuicConnectionState) result" where
  "detectLossPackets visitor largestAcked lossTime pnSpace ackEvent conn =
     (let conn1 = on_ls (\<lambda>ls. ls\<lparr>ls_lossTimes := (ls_lossTimes ls)(pnSpace := None)\<rparr>) conn;
          rttSample = max (ls_srtt (lossState conn1)) (ls_lrtt (lossState conn1));
          delayUntilLost = (rttSample * timeReorderingThreshDividend (transportSettings conn1))
                             sdiv timeReorderingThreshDivisor (transportSettings conn1);
          (dsr, nonDsr) = largest_acked ackEvent largestAcked
      in and_then
           (case largestAcked of
              None \<Rightarrow> Inr (False, conn1, LossEvent_make lossTime)
            | Some n \<Rightarrow>
                processOutstandingsForLoss visitor
                  \<lparr>lc_largestAcked = n, lc_pnSpace = pnSpace, lc_largestDsrAcked = dsr, lc_largestNonDsrAcked = nonDsr,
                   lc_lossTime = lossTime, lc_rttSample = rttSample, lc_delayUntilLost = delayUntilLost\<rparr>
                  (conn1, LossEvent_make lossTime))
           (\<lambda>r. Inr (after_pass delayUntilLost pnSpace r)))"

definition handleAckForLoss ::
    "LossVisitor \<Rightarrow> AckEvent \<Rightarrow> PacketNumberSpace \<Rightarrow> QuicConnectionState
     \<Rightarrow> (LossEvent option \<times> QuicConnectionState) result" where
  "handleAckForLoss visitor ack pnSpace conn =
     and_then (getAckState conn pnSpace)
       (\<lambda>a. let (a1, conn1) =
                  (case ae_largestNewlyAckedPacket ack of
                     Some n \<Rightarrow> (a\<lparr>as_largestAckedByPeer := Some (max (value_or (as_largestAckedByPeer a) n) n)\<rparr>,
                                on_ls (\<lambda>ls. ls\<lparr>ls_ptoCount := 0\<rparr>) conn)
                   | None \<Rightarrow> (a, conn));
                conn2 = put_ack_state pnSpace a1 conn1
            in and_then (detectLossPackets visitor (as_largestAckedByPeer a1) (ae_ackTime ack) pnSpace (Some ack) conn2)
                 (\<lambda>(lossEvent, conn3).
                    Inr (lossEvent, on_pe (\<lambda>pe. pe\<lparr>pe_setLossDetectionAlarm := (numOutstanding (outstandings conn3) > 0)\<rparr>) conn3)))"

section \<open>Probe timeouts\<close>

definition calculatePTO :: "QuicConnectionState \<Rightarrow> int" where
  "calculatePTO conn =
     (let ls = lossState conn
      in if ls_srtt ls = 0 then 2 * initialRtt (transportSettings conn)
         else ls_srtt ls + 4 * ls_rttvar ls + ls_maxAckDelay ls)"

definition isPersistentCongestion :: "int option \<Rightarrow> TimePoint \<Rightarrow> TimePoint \<Rightarrow> AckEvent \<Rightarrow> bool" where
  "isPersistentCongestion pto lostPeriodStart lostPeriodEnd ack =
     (case pto of
        None \<Rightarrow> False
      | Some d \<Rightarrow>
          if \<not> (lostPeriodEnd - lostPeriodStart \<ge> d * 3) then False
          else find (\<lambda>p. ap_time p \<ge> lostPeriodStart \<and> ap_time p \<le> lostPeriodEnd) (ae_ackedPackets ack) = None)"

text \<open>What the congestion controller is told.\<close>

datatype ControllerCall = onRemoveBytesFromInflight u64 | onPacketAckOrLoss LossEvent

text \<open>
  The loop that removes the 0-RTT packets; each round removes the packet at the position or
  moves past it, so as many rounds as there are packets are enough.
\<close>

primrec zero_rtt_loop ::
    "LossVisitor \<Rightarrow> nat \<Rightarrow> nat \<Rightarrow> QuicConnectionState \<times> LossEvent \<Rightarrow> (QuicConnectionState \<times> LossEvent) result" where
  "zero_rtt_loop visitor 0 from st = Inr st"
| "zero_rtt_loop visitor (Suc n) from st =
     (let conn = fst st; i = getNextOutstandingPacket conn AppData_Space from
      in if i \<ge> length (os_packets (outstandings conn)) then Inr st
         else let pkt = os_packets (outstandings conn) ! i
              in if ph_getProtectionType (rw_header (op_packet pkt)) = PT_ZeroRtt
                 then let processed = already_processed pkt (outstandings conn)
                      in and_then (visitor conn (op_packet pkt) processed)
                           (\<lambda>conn1.
                              let conn2 = on_os (\<lambda>os. case op_associatedEvent pkt of
                                      None \<Rightarrow> os
                                    | Some e \<Rightarrow> os\<lparr>os_packetEvents := os_packetEvents os - {e},
                                        os_clonedPacketCount := (os_clonedPacketCount os)
                                          (AppData_Space := os_clonedPacketCount os AppData_Space - 1)\<rparr>) conn1
                              in and_then (addLostPacket pkt (snd st))
                                   (\<lambda>ev.
                                      let conn3 = on_os (\<lambda>os.
                                              (if \<not> processed
                                               then os\<lparr>os_packetCount := (os_packetCount os)
                                                      (AppData_Space := os_packetCount os AppData_Space - 1)\<rparr>
                                               else os)\<lparr>os_packets := erase_range i (i + 1) (os_packets os)\<rparr>) conn2
                                      in zero_rtt_loop visitor n i (conn3, ev)))
                 else zero_rtt_loop visitor n (i + 1) st)"

definition markZeroRttPacketsLost ::
    "LossVisitor \<Rightarrow> TimePoint \<Rightarrow> QuicConnectionState \<Rightarrow> (ControllerCall list \<times> QuicConnectionState) result" where
  "markZeroRttPacketsLost visitor now conn =
     and_then (zero_rtt_loop visitor (length (os_packets (outstandings conn))) 0 (conn, LossEvent_make now))
       (\<lambda>(conn1, ev).
          let conn2 = on_ls (\<lambda>ls. ls\<lparr>ls_rtxCount := ls_rtxCount ls + le_lostPackets ev\<rparr>) conn1
          in Inr (if congestionController conn2 \<noteq> None \<and> le_largestLostPacketNum ev \<noteq> None
                  then [onRemoveBytesFromInflight (le_lostBytes ev)] else [], conn2))"

text \<open>The number of probes for one packet number space.\<close>

definition probes :: "bool \<Rightarrow> bool \<Rightarrow> u64 \<Rightarrow> u8" where
  "probes cipher nothingLost packetCount =
     (if \<not> cipher then 0 else if nothingLost \<and> packetCount < 2 then ucast packetCount else 2)"

definition onPTOAlarm :: "TimePoint \<Rightarrow> QuicConnectionState \<Rightarrow> (ControllerCall list \<times> QuicConnectionState) result" where
  "onPTOAlarm now conn =
     (let conn1 = on_ls (\<lambda>ls. ls\<lparr>ls_ptoCount := ls_ptoCount ls + 1, ls_totalPTOCount := ls_totalPTOCount ls + 1\<rparr>) conn
      in if ls_ptoCount (lossState conn1) = ucast (maxNumPTOs (transportSettings conn1))
         then Inl (QuicInternalException CONNECTION_ABANDONED)
         else and_then
                (if earlyRetransmit0Rtt (transportSettings conn1) \<and> \<not> ls_attemptedEarlyRetransmit0Rtt (lossState conn1)
                    \<and> oneRttWriteCipher conn1
                 then markZeroRttPacketsLost (markPacketLoss now) now
                        (on_ls (\<lambda>ls. ls\<lparr>ls_attemptedEarlyRetransmit0Rtt := True\<rparr>) conn1)
                 else Inr ([], conn1))
                (\<lambda>(calls, conn2).
                   let counts = os_packetCount (outstandings conn2); cs = cryptoState conn2;
                       numProbePackets = (\<lambda>pns. case pns of
                          Initial_Space \<Rightarrow>
                            probes (initialWriteCipher conn2) (lossBuffer (initialStream cs) = []) (counts Initial_Space)
                        | Handshake_Space \<Rightarrow>
                            probes (handshakeWriteCipher conn2) (lossBuffer (handshakeStream cs) = []) (counts Handshake_Space)
                        | AppData_Space \<Rightarrow>
                            probes (oneRttWriteCipher conn2)
                              (lossBuffer (oneRttStream cs) = [] \<and> \<not> hasLossStreams (streamManager conn2))
                              (counts AppData_Space))
                   in Inr (calls, on_pe (\<lambda>pe. pe\<lparr>pe_numProbePackets := numProbePackets\<rparr>) conn2)))"

section \<open>The alarm\<close>

text \<open>Whole milliseconds, rounded up from a positive number of microseconds.\<close>

definition ceil_ms :: "int \<Rightarrow> int" where "ceil_ms us = (us + 999) div 1000"

definition calculateAlarmDuration :: "TimePoint \<Rightarrow> QuicConnectionState \<Rightarrow> int \<times> AlarmMethod" where
  "calculateAlarmDuration now conn =
     (let lastSentPacketTime = ls_lastRetransmittablePacketSentTime (lossState conn);
          (alarmDuration, alarmMethod) =
            (case fst (earliestLossTimer conn) of
               Some lossTime \<Rightarrow>
                 (if lossTime > lastSentPacketTime then lossTime - lastSentPacketTime else 0, EarlyRetransmitOrReordering)
             | None \<Rightarrow> (calculatePTO conn * 2 ^ min (unat (ls_ptoCount (lossState conn))) 31, PTO));
          adjustedAlarmDuration =
            (if lastSentPacketTime + alarmDuration > now then ceil_ms (lastSentPacketTime + alarmDuration - now) else 0)
      in (adjustedAlarmDuration, alarmMethod))"

text \<open>The calls of the timer; whether there is data to write is decided by the transport.\<close>

datatype TimeoutCall = cancelLossTimeout | scheduleLossTimeout int

definition setLossDetectionAlarm ::
    "TimePoint \<Rightarrow> bool \<Rightarrow> QuicConnectionState \<Rightarrow> TimeoutCall list \<times> QuicConnectionState" where
  "setLossDetectionAlarm now hasDataToWrite conn =
     (let unset = on_pe (\<lambda>pe. pe\<lparr>pe_setLossDetectionAlarm := False\<rparr>)
      in if \<not> hasDataToWrite \<and> os_packetEvents (outstandings conn) = {}
            \<and> numOutstanding (outstandings conn) = numClonedPackets (outstandings conn)
         then ([cancelLossTimeout], unset conn)
         else let calls = (if ls_currentAlarmMethod (lossState conn) = EarlyRetransmitOrReordering
                              \<and> fst (earliestLossTimer conn) = None
                           then [cancelLossTimeout] else [])
              in if \<not> pe_setLossDetectionAlarm (pendingEvents conn) then (calls, conn)
                 else let (duration, alarmMethod) = calculateAlarmDuration now conn
                      in (calls @ [cancelLossTimeout, scheduleLossTimeout duration],
                          unset (on_ls (\<lambda>ls. ls\<lparr>ls_currentAlarmMethod := alarmMethod\<rparr>) conn)))"

definition onLossDetectionAlarm ::
    "LossVisitor \<Rightarrow> TimePoint \<Rightarrow> QuicConnectionState \<Rightarrow> (ControllerCall list \<times> QuicConnectionState) result" where
  "onLossDetectionAlarm visitor now conn =
     (if os_packets (outstandings conn) = [] then Inr ([], conn)
      else and_then
             (if ls_currentAlarmMethod (lossState conn) = EarlyRetransmitOrReordering
              then let pnSpace = snd (earliestLossTimer conn)
                   in and_then (getAckState conn pnSpace)
                        (\<lambda>a. and_then (detectLossPackets visitor (as_largestAckedByPeer a) now pnSpace None conn)
                               (\<lambda>(lossEvent, conn1).
                                  Inr (case lossEvent of
                                         Some ev \<Rightarrow> if congestionController conn1 \<noteq> None then [onPacketAckOrLoss ev] else []
                                       | None \<Rightarrow> [], conn1)))
              else onPTOAlarm now conn)
             (\<lambda>(calls, conn2).
                Inr (calls, on_pe (\<lambda>pe. pe\<lparr>pe_setLossDetectionAlarm := (numOutstanding (outstandings conn2) > 0)\<rparr>) conn2)))"

section \<open>What a pass declares lost\<close>

text \<open>
  The packets a pass considers are those from the first outstanding one of the space up to
  the first one with a number that is not below the largest acknowledged. Among them it
  declares lost those of the space, not yet lost, that were sent too long ago or are too far
  behind what was acknowledged.
\<close>

definition number_known :: "LossContext \<Rightarrow> bool" where
  "number_known c \<longleftrightarrow> lc_largestDsrAcked c \<noteq> Map.empty \<or> lc_largestNonDsrAcked c \<noteq> None"

definition loss_distance :: "LossContext \<Rightarrow> OutstandingPacket \<Rightarrow> u64" where
  "loss_distance c p = reorder_distance (projr (loss_numbers c p))"

definition watched :: "LossContext \<Rightarrow> OutstandingPacket \<Rightarrow> bool" where
  "watched c p \<longleftrightarrow> op_space p = lc_pnSpace c \<and> \<not> op_declaredLost p"

definition now_lost :: "LossContext \<Rightarrow> u32 \<Rightarrow> OutstandingPacket \<Rightarrow> bool" where
  "now_lost c threshold p \<longleftrightarrow> watched c p \<and> (lost_by_timeout c p \<or> loss_distance c p > ucast threshold)"

definition lost_version :: "TransportSettings \<Rightarrow> LossContext \<Rightarrow> u32 \<Rightarrow> OutstandingPacket \<Rightarrow> OutstandingPacket" where
  "lost_version settings c threshold p =
     (lost_packet settings c (loss_distance c p) (loss_distance c p > ucast threshold) p)\<lparr>op_declaredLost := True\<rparr>"

lemma loss_numbers_known: "number_known c \<Longrightarrow> \<exists>nums. loss_numbers c p = Inr nums"
  by (auto simp: number_known_def loss_numbers_def split: option.splits)

lemma lost_version_keeps [simp]:
  "op_packet (lost_version settings c t p) = op_packet p" "op_declaredLost (lost_version settings c t p)"
  "op_num (lost_version settings c t p) = op_num p" "op_space (lost_version settings c t p) = op_space p"
  by (simp_all add: lost_version_def lost_packet_def op_num_def op_space_def Let_def)

lemma addLostPacket_numbers:
  "addLostPacket p ev = Inr ev' \<Longrightarrow> le_lostPacketNumbers ev' = le_lostPacketNumbers ev @ [op_num p]"
  "addLostPacket p ev = Inl e \<Longrightarrow> e = QuicInternalException LOST_BYTES_OVERFLOW"
  by (auto simp: addLostPacket_def Let_def split: if_splits)

lemma count_lost_threshold [simp]: "ls_reorderingThreshold (count_lost c b p ls) = ls_reorderingThreshold ls"
  by (simp add: count_lost_def Let_def)

lemma lost_counters_keep [simp]:
  "os_packets (uncount_lost s p os) = os_packets os" "os_packets (forget_event s b p os) = os_packets os"
  "os_declaredLostCount (uncount_lost s p os) = os_declaredLostCount os"
  "os_declaredLostCount (forget_event s b p os) = os_declaredLostCount os"
  by (simp_all add: uncount_lost_def forget_event_def Let_def split: option.split)

text \<open>The counters of a loss event follow the numbers in it.\<close>

definition event_ok :: "LossEvent \<Rightarrow> bool" where
  "event_ok ev \<longleftrightarrow> le_lostPackets ev = of_nat (length (le_lostPacketNumbers ev))
     \<and> le_largestLostPacketNum ev =
         (if le_lostPacketNumbers ev = [] then None else Some (Max (set (le_lostPacketNumbers ev))))"

lemma event_ok_add: "event_ok ev \<Longrightarrow> addLostPacket p ev = Inr ev' \<Longrightarrow> event_ok ev'"
  by (auto simp: event_ok_def addLostPacket_def value_or_def Let_def split: if_splits)

locale loss_visitor =
  fixes visitor :: LossVisitor
  assumes keeps: "visitor conn packet processed = Inr conn' \<Longrightarrow>
    outstandings conn' = outstandings conn \<and> lossState conn' = lossState conn
    \<and> transportSettings conn' = transportSettings conn"
begin

lemma declare_lost_one:
  assumes "os_packets (outstandings conn) = D @ p # R" and "i = length D"
  shows "case declare_lost visitor c i distance b (conn, ev) of
      Inl e \<Rightarrow> (\<exists>conn0 packet processed. visitor conn0 packet processed = Inl e)
               \<or> e = QuicInternalException LOST_BYTES_OVERFLOW
    | Inr (conn', ev') \<Rightarrow>
        os_packets (outstandings conn') =
          D @ (lost_packet (transportSettings conn) c distance b p)\<lparr>op_declaredLost := True\<rparr> # R
        \<and> os_declaredLostCount (outstandings conn') = os_declaredLostCount (outstandings conn) + 1
        \<and> ls_reorderingThreshold (lossState conn') = ls_reorderingThreshold (lossState conn)
        \<and> transportSettings conn' = transportSettings conn
        \<and> le_lostPacketNumbers ev' = le_lostPacketNumbers ev @ [op_num p]"
proof -
  have p: "os_packets (outstandings conn) ! i = p" using assms by simp
  let ?conn1 = "on_os (uncount_lost (lc_pnSpace c) p) conn"
  let ?processed = "already_processed p (outstandings ?conn1)"
  show ?thesis
  proof (cases "visitor ?conn1 (op_packet p) ?processed")
    case (Inl e)
    then show ?thesis unfolding declare_lost_def by (auto simp: p)
  next
    case (Inr conn2)
    note k = keeps [OF Inr]
    let ?pkt = "lost_packet (transportSettings conn) c distance b p"
    have num: "op_num ?pkt = op_num p" by (simp add: op_num_def lost_packet_def Let_def)
    show ?thesis
    proof (cases "addLostPacket ?pkt ev")
      case (Inl e)
      then show ?thesis using Inr k addLostPacket_numbers(2) by (simp add: declare_lost_def p Let_def)
    next
      case ev: (Inr ev1)
      then show ?thesis using Inr k addLostPacket_numbers(1) [OF ev] num assms
        by (simp add: declare_lost_def p Let_def)
    qed
  qed
qed

lemma loss_loop_exact:
  assumes known: "number_known c" and "os_packets (outstandings conn) = D @ R"
    and "ls_reorderingThreshold (lossState conn) = t" and "transportSettings conn = settings"
  shows "case loss_loop visitor c [length D ..< length D + length R] timer (conn, ev) of
      Inl e \<Rightarrow> (\<exists>conn0 packet processed. visitor conn0 packet processed = Inl e)
               \<or> e = QuicInternalException LOST_BYTES_OVERFLOW
    | Inr (timer', conn', ev') \<Rightarrow>
        (let W = takeWhile (\<lambda>p. op_num p < lc_largestAcked c) R
         in os_packets (outstandings conn') =
              D @ map (\<lambda>p. if now_lost c t p then lost_version settings c t p else p) W @ drop (length W) R
          \<and> os_declaredLostCount (outstandings conn') =
              os_declaredLostCount (outstandings conn) + of_nat (length (filter (now_lost c t) W))
          \<and> le_lostPacketNumbers ev' = le_lostPacketNumbers ev @ map op_num (filter (now_lost c t) W)
          \<and> timer' = (timer \<or> (\<exists>p \<in> set W. watched c p \<and> \<not> now_lost c t p)))"
  using assms(2-4)
proof (induction R arbitrary: D conn ev timer)
  case (Cons p R)
  let ?i = "length D"
  have idx: "[?i ..< ?i + length (p # R)] = ?i # [length (D @ [q]) ..< length (D @ [q]) + length R]" for q
    by (simp add: upt_rec)
  have p: "os_packets (outstandings conn) ! ?i = p" using Cons.prems(1) by simp
  obtain nums where nums: "loss_numbers c p = Inr nums" using loss_numbers_known [OF known] by blast
  have dist: "reorder_distance nums = loss_distance c p" by (simp add: loss_distance_def nums)
  note step = loss_loop.simps(2) [of visitor c ?i, unfolded Let_def]
  consider (stop) "op_num p \<ge> lc_largestAcked c"
    | (skip) "op_num p < lc_largestAcked c" "\<not> watched c p"
    | (kept) "op_num p < lc_largestAcked c" "watched c p" "\<not> now_lost c t p"
    | (lost) "op_num p < lc_largestAcked c" "now_lost c t p"
    by force
  then show ?case
  proof cases
    case stop
    then show ?thesis unfolding idx [of p] step by (simp add: p Cons.prems(1))
  next
    case skip
    then have run: "loss_loop visitor c [?i ..< ?i + length (p # R)] timer (conn, ev) =
        loss_loop visitor c [length (D @ [p]) ..< length (D @ [p]) + length R] timer (conn, ev)"
      unfolding idx [of p] step by (auto simp: p watched_def not_le simp del: upt_Suc)
    have "\<not> now_lost c t p" using skip by (simp add: now_lost_def)
    then show ?thesis unfolding run
      using Cons.IH [of conn "D @ [p]" ev timer] Cons.prems skip by (simp add: Let_def del: upt_Suc split: sum.splits prod.splits)
  next
    case kept
    then have "\<not> lost_by_timeout c p" "\<not> loss_distance c p > ucast t" by (simp_all add: now_lost_def)
    then have run: "loss_loop visitor c [?i ..< ?i + length (p # R)] timer (conn, ev) =
        loss_loop visitor c [length (D @ [p]) ..< length (D @ [p]) + length R] True (conn, ev)"
      unfolding idx [of p] step using kept
      by (simp add: p watched_def nums dist Cons.prems(2) del: upt_Suc flip: not_less)
    show ?thesis unfolding run
      using Cons.IH [of conn "D @ [p]" ev True] Cons.prems kept by (simp add: Let_def del: upt_Suc split: sum.splits prod.splits)
  next
    case lost
    let ?b = "loss_distance c p > ucast t"
    have run: "loss_loop visitor c [?i ..< ?i + length (p # R)] timer (conn, ev) =
        and_then (declare_lost visitor c ?i (loss_distance c p) ?b (conn, ev))
          (loss_loop visitor c [length (D @ [p]) ..< length (D @ [p]) + length R] timer)"
      unfolding idx [of p] step using lost
      by (auto simp: p watched_def now_lost_def nums dist Cons.prems(2) simp del: upt_Suc simp flip: not_less)
    note one = declare_lost_one [OF Cons.prems(1) refl, of c "loss_distance c p" ?b ev]
    show ?thesis
    proof (cases "declare_lost visitor c ?i (loss_distance c p) ?b (conn, ev)")
      case (Inl e)
      then show ?thesis unfolding run using one by simp
    next
      case (Inr st)
      obtain conn1 ev1 where st: "st = (conn1, ev1)" by (cases st)
      have "os_packets (outstandings conn1) = (D @ [lost_version settings c t p]) @ R"
        using one Inr st Cons.prems(3) by (simp add: lost_version_def)
      with Cons.IH [of conn1 "D @ [lost_version settings c t p]" ev1 timer] one Inr st Cons.prems lost
      show ?thesis unfolding run by (simp add: Let_def del: upt_Suc split: sum.splits prod.splits)
    qed
  qed
qed simp

lemma declare_lost_keeps:
  assumes "declare_lost visitor c i distance b (conn, ev) = Inr (conn', ev')"
  shows "ls_rtxCount (lossState conn') = ls_rtxCount (lossState conn)
    \<and> ls_lossTimes (lossState conn') = ls_lossTimes (lossState conn) \<and> (event_ok ev \<longrightarrow> event_ok ev')"
  using assms by (auto simp: declare_lost_def Let_def count_lost_def event_ok_add dest!: keeps elim!: and_then_InrE)

lemma loss_loop_keeps:
  assumes "loss_loop visitor c is timer (conn, ev) = Inr (timer', conn', ev')"
  shows "ls_rtxCount (lossState conn') = ls_rtxCount (lossState conn)
    \<and> ls_lossTimes (lossState conn') = ls_lossTimes (lossState conn) \<and> (event_ok ev \<longrightarrow> event_ok ev')"
  using assms
proof (induction "is" arbitrary: timer conn ev)
  case (Cons i "is")
  show ?case
    using Cons.prems Cons.IH declare_lost_keeps
    by (auto simp: Let_def elim!: and_then_InrE split: if_splits)
qed simp

end

section \<open>The visitor of the code\<close>

text \<open>The members of a connection that looking a stream up and handling a lost frame leave alone.\<close>

definition loss_core :: "QuicConnectionState
     \<Rightarrow> OutstandingsInfo \<times> LossState \<times> TransportSettings \<times> (StreamGroupId \<rightharpoonup> bool)" where
  "loss_core conn = (outstandings conn, lossState conn, transportSettings conn, retransmissionPolicies conn)"

lemma loss_core_parts [simp]:
  "loss_core (on_sm f conn) = loss_core conn" "loss_core (on_pe g conn) = loss_core conn"
  "loss_core (conn\<lparr>streamManager := sm\<rparr>) = loss_core conn" "loss_core (conn\<lparr>cryptoState := cs\<rparr>) = loss_core conn"
  "loss_core (updateAppIdleState now conn) = loss_core conn"
  by (simp_all add: loss_core_def on_sm_def on_pe_def updateAppIdleState_def Let_def)

lemma loss_core_lookup:
  "getOrCreateOpenedLocalStream sid conn = Inr (st, conn') \<Longrightarrow> loss_core conn' = loss_core conn"
  "instantiatePeerStream sid grp conn = Inr (st, conn') \<Longrightarrow> loss_core conn' = loss_core conn"
  by (auto simp: getOrCreateOpenedLocalStream_def instantiatePeerStream_def Let_def
      elim!: and_then_InrE split: if_splits prod.splits)

lemma loss_core_peer: "getOrCreatePeerStream sid grp conn = Inr (st, conn') \<Longrightarrow> loss_core conn' = loss_core conn"
  by (auto simp: getOrCreatePeerStream_def Let_def elim!: and_then_InrE dest!: loss_core_lookup(2)
      split: option.splits if_splits prod.splits)

lemma loss_core_getStream: "getStream now sid grp conn = Inr (st, conn') \<Longrightarrow> loss_core conn' = loss_core conn"
  by (auto simp: getStream_def elim!: and_then_InrE dest!: loss_core_peer loss_core_lookup(1)
      split: option.splits if_splits prod.splits)

lemma loss_core_simple [simp]: "loss_core (updateSimpleFrameOnPacketLoss frame conn) = loss_core conn"
  by (simp add: updateSimpleFrameOnPacketLoss_def Let_def split: QuicSimpleFrame.split)

lemma loss_core_windows [simp]:
  "loss_core (onConnWindowUpdateLost conn) = loss_core conn" "loss_core (onDataBlockedLost conn) = loss_core conn"
  by (simp_all add: onConnWindowUpdateLost_def onDataBlockedLost_def maybeWriteDataBlockedAfterSocketWrite_def)

lemma loss_core_mark_frame:
  "mark_frame now header processed f (conn, seen) = Inr (conn', seen') \<Longrightarrow> loss_core conn' = loss_core conn"
  by (cases f) (auto simp: mark_frame_def Let_def elim!: and_then_InrE dest!: loss_core_getStream
      split: option.splits if_splits prod.splits)

lemma loss_core_mark_frames:
  "mark_frames now header processed fs (conn, seen) = Inr (conn', seen') \<Longrightarrow> loss_core conn' = loss_core conn"
  by (induction fs arbitrary: conn seen) (auto elim!: and_then_InrE dest: loss_core_mark_frame)

interpretation mark_loss: loss_visitor "markPacketLoss now"
proof
  fix conn packet processed conn'
  assume "markPacketLoss now conn packet processed = Inr conn'"
  then have "loss_core conn' = loss_core conn"
    by (auto simp: markPacketLoss_def elim!: and_then_InrE dest: loss_core_mark_frames)
  then show "outstandings conn' = outstandings conn \<and> lossState conn' = lossState conn
    \<and> transportSettings conn' = transportSettings conn" by (simp add: loss_core_def)
qed

section \<open>A whole detection\<close>

text \<open>What a detection compares the packets with, when something was acknowledged.\<close>

definition loss_context ::
    "PacketNum \<Rightarrow> TimePoint \<Rightarrow> PacketNumberSpace \<Rightarrow> AckEvent option \<Rightarrow> QuicConnectionState \<Rightarrow> LossContext" where
  "loss_context n lossTime pnSpace ackEvent conn =
     (let rttSample = max (ls_srtt (lossState conn)) (ls_lrtt (lossState conn))
      in \<lparr>lc_largestAcked = n, lc_pnSpace = pnSpace,
          lc_largestDsrAcked = fst (largest_acked ackEvent (Some n)),
          lc_largestNonDsrAcked = snd (largest_acked ackEvent (Some n)), lc_lossTime = lossTime,
          lc_rttSample = rttSample,
          lc_delayUntilLost = (rttSample * timeReorderingThreshDividend (transportSettings conn))
                                sdiv timeReorderingThreshDivisor (transportSettings conn)\<rparr>)"

definition considered :: "LossContext \<Rightarrow> QuicConnectionState \<Rightarrow> OutstandingPacket list" where
  "considered c conn =
     takeWhile (\<lambda>p. op_num p < lc_largestAcked c)
       (drop (getFirstOutstandingPacket conn (lc_pnSpace c)) (os_packets (outstandings conn)))"

lemma loss_context_known: "number_known (loss_context n lossTime pnSpace ackEvent conn)"
  by (simp add: number_known_def loss_context_def largest_acked_def Let_def split: prod.split)

lemma first_within: "getFirstOutstandingPacket conn pnSpace \<le> length (os_packets (outstandings conn))"
  by (simp add: getFirstOutstandingPacket_def getNextOutstandingPacket_def find_from_def length_takeWhile_le)

lemma pass_exact:
  fixes now conn c
  defines "ps \<equiv> os_packets (outstandings conn)" and "i \<equiv> getFirstOutstandingPacket conn (lc_pnSpace c)"
    and "t \<equiv> ls_reorderingThreshold (lossState conn)" and "W \<equiv> considered c conn"
  assumes known: "number_known c"
  shows "case processOutstandingsForLoss (markPacketLoss now) c (conn, LossEvent_make lossTime) of
      Inl e \<Rightarrow> (\<exists>conn0 packet processed. markPacketLoss now conn0 packet processed = Inl e)
               \<or> e = QuicInternalException LOST_BYTES_OVERFLOW
    | Inr (timer, conn', ev) \<Rightarrow>
        os_packets (outstandings conn') =
          take i ps @ map (\<lambda>p. if now_lost c t p then lost_version (transportSettings conn) c t p else p) W
            @ drop (i + length W) ps
        \<and> os_declaredLostCount (outstandings conn') =
            os_declaredLostCount (outstandings conn) + of_nat (length (filter (now_lost c t) W))
        \<and> ls_rtxCount (lossState conn') = ls_rtxCount (lossState conn)
        \<and> ls_lossTimes (lossState conn') = ls_lossTimes (lossState conn)
        \<and> event_ok ev \<and> le_lostPacketNumbers ev = map op_num (filter (now_lost c t) W)
        \<and> timer = (\<exists>p \<in> set W. watched c p \<and> \<not> now_lost c t p)"
proof -
  have i: "i \<le> length ps" unfolding i_def ps_def by (rule first_within)
  have idx: "[length (take i ps) ..< length (take i ps) + length (drop i ps)] = [i ..< length ps]" using i by simp
  note loop = mark_loss.loss_loop_exact [OF known, of conn "take i ps" "drop i ps" t "transportSettings conn" now
      "LossEvent_make lossTime" False, unfolded idx]
  have ok: "event_ok (LossEvent_make lossTime)" by (simp add: event_ok_def LossEvent_make_def)
  have none: "le_lostPacketNumbers (LossEvent_make lossTime) = []" by (simp add: LossEvent_make_def)
  show ?thesis
  proof (cases "loss_loop (markPacketLoss now) c [i ..< length ps] False (conn, LossEvent_make lossTime)")
    case (Inl e)
    then show ?thesis using loop by (simp add: processOutstandingsForLoss_def ps_def i_def t_def)
  next
    case (Inr st)
    obtain timer conn' ev where st: "st = (timer, conn', ev)" by (cases st)
    note kept = mark_loss.loss_loop_keeps [OF Inr [unfolded st]]
    show ?thesis
      using loop kept Inr st ok none
      by (simp add: processOutstandingsForLoss_def ps_def i_def t_def W_def considered_def Let_def add.commute)
  qed
qed

lemma considered_same:
  assumes "outstandings conn' = outstandings conn"
  shows "getFirstOutstandingPacket conn' sp = getFirstOutstandingPacket conn sp"
    and "considered c conn' = considered c conn"
  using assms by (simp_all add: considered_def getFirstOutstandingPacket_def getNextOutstandingPacket_def)

lemma detectLossPackets_acked:
  "detectLossPackets visitor (Some n) lossTime pnSpace ackEvent conn =
     (let c = loss_context n lossTime pnSpace ackEvent conn
      in and_then (processOutstandingsForLoss visitor c
                     (on_ls (\<lambda>ls. ls\<lparr>ls_lossTimes := (ls_lossTimes ls)(pnSpace := None)\<rparr>) conn, LossEvent_make lossTime))
           (\<lambda>r. Inr (after_pass (lc_delayUntilLost c) pnSpace r)))"
  by (simp add: detectLossPackets_def loss_context_def Let_def split_def)

lemma after_pass_effect:
  assumes "after_pass delay pnSpace (timer, conn, ev) = (lossEvent, conn')"
  shows "outstandings conn' = outstandings conn" and "congestionController conn' = congestionController conn"
    and "ls_rtxCount (lossState conn') =
      ls_rtxCount (lossState conn) + (if le_largestLostPacketNum ev = None then 0 else le_lostPackets ev)"
    and "lossEvent = (if le_largestLostPacketNum ev = None \<or> congestionController conn = None then None else Some ev)"
    and "ls_lossTimes (lossState conn') pnSpace =
      (case earliest_unprocessed pnSpace (outstandings conn) of
         Some p \<Rightarrow> if timer then Some (delay + op_time p) else ls_lossTimes (lossState conn) pnSpace
       | None \<Rightarrow> ls_lossTimes (lossState conn) pnSpace)"
  using assms by (auto simp: after_pass_def on_ls_def Let_def split: option.splits if_splits)

text \<open>C2: A detection after an acknowledgement declares lost exactly the packets of the
  packet number space, below the largest acknowledged number and not yet lost, that were sent
  too long ago or are further behind than the reordering threshold. Every other packet is
  unchanged and the order is kept; the counts of lost packets and of retransmissions grow by
  their number, the event for the congestion controller names them in order, the loss timer is
  set from the earliest packet whose event is unprocessed when a packet of the space is still
  waited for, and is clear otherwise. The detection fails only when handling the frames of a
  packet fails or when the number of lost bytes would wrap.\<close>

theorem loss_detection_exact:
  "let c = loss_context n lossTime pnSpace ackEvent conn; t = ls_reorderingThreshold (lossState conn);
       ps = os_packets (outstandings conn); i = getFirstOutstandingPacket conn pnSpace;
       W = considered c conn; lost = filter (now_lost c t) W
   in case detectLossPackets (markPacketLoss now) (Some n) lossTime pnSpace ackEvent conn of
        Inl e \<Rightarrow> (\<exists>conn0 packet processed. markPacketLoss now conn0 packet processed = Inl e)
                 \<or> e = QuicInternalException LOST_BYTES_OVERFLOW
      | Inr (lossEvent, conn') \<Rightarrow>
          os_packets (outstandings conn') =
            take i ps @ map (\<lambda>p. if now_lost c t p then lost_version (transportSettings conn) c t p else p) W
              @ drop (i + length W) ps
          \<and> os_declaredLostCount (outstandings conn') = os_declaredLostCount (outstandings conn) + of_nat (length lost)
          \<and> ls_rtxCount (lossState conn') = ls_rtxCount (lossState conn) + of_nat (length lost)
          \<and> map_option le_lostPacketNumbers lossEvent =
              (if lost = [] \<or> congestionController conn' = None then None else Some (map op_num lost))
          \<and> ls_lossTimes (lossState conn') pnSpace =
              (if \<exists>p \<in> set W. watched c p \<and> \<not> now_lost c t p
               then map_option (\<lambda>p. lc_delayUntilLost c + op_time p) (earliest_unprocessed pnSpace (outstandings conn'))
               else None)"
proof -
  define c where "c = loss_context n lossTime pnSpace ackEvent conn"
  define conn1 where "conn1 = on_ls (\<lambda>ls. ls\<lparr>ls_lossTimes := (ls_lossTimes ls)(pnSpace := None)\<rparr>) conn"
  have same: "getFirstOutstandingPacket conn1 sp = getFirstOutstandingPacket conn sp" "considered c conn1 = considered c conn"
    for sp by (intro considered_same; simp add: conn1_def)+
  have sp: "lc_pnSpace c = pnSpace" by (simp add: c_def loss_context_def Let_def)
  note pass = pass_exact [of c now conn1 lossTime, OF loss_context_known [of n lossTime pnSpace ackEvent conn, folded c_def],
      unfolded same sp]
  show ?thesis
  proof (cases "processOutstandingsForLoss (markPacketLoss now) c (conn1, LossEvent_make lossTime)")
    case (Inl e)
    then show ?thesis using pass by (simp add: detectLossPackets_acked conn1_def [symmetric] c_def [symmetric])
  next
    case (Inr r)
    obtain timer conn2 ev where r: "r = (timer, conn2, ev)" by (cases r)
    obtain lossEvent conn' where a: "after_pass (lc_delayUntilLost c) pnSpace (timer, conn2, ev) = (lossEvent, conn')"
      by fastforce
    note eff = after_pass_effect [OF a]
    have run: "detectLossPackets (markPacketLoss now) (Some n) lossTime pnSpace ackEvent conn = Inr (lossEvent, conn')"
      by (simp add: detectLossPackets_acked conn1_def [symmetric] c_def [symmetric] Inr r a)
    have parts: "outstandings conn1 = outstandings conn" "transportSettings conn1 = transportSettings conn"
      "ls_reorderingThreshold (lossState conn1) = ls_reorderingThreshold (lossState conn)"
      "ls_rtxCount (lossState conn1) = ls_rtxCount (lossState conn)" "ls_lossTimes (lossState conn1) pnSpace = None"
      by (simp_all add: conn1_def)
    note p = pass [unfolded Inr r sum.case prod.case parts event_ok_def]
    show ?thesis
      unfolding Let_def c_def [symmetric] run sum.case prod.case eff
      using p parts(5) by (simp split: option.split)
  qed
qed

text \<open>Two packets in flight; the first is five numbers behind what is acknowledged.\<close>

definition sent_packet :: "PacketNum \<Rightarrow> OutstandingPacket" where
  "sent_packet n =
     \<lparr>op_packet = RegularQuicWritePacket_make
        (PH_Short \<lparr>sh_packetSequenceNum = n, sh_protectionType = PT_KeyPhaseZero, sh_connectionId = []\<rparr>),
      op_time = 0, op_encodedSize = 100, op_lossTimeoutDividend = None, op_lossReorderDistance = None,
      op_associatedEvent = None, op_isDSRPacket = False, op_nonDsrPacketSequenceNumber = None,
      op_declaredLost = False\<rparr>"

definition demo_flight :: QuicConnectionState where
  "demo_flight = on_os (\<lambda>os. os\<lparr>os_packets := [sent_packet 0, sent_packet 4]\<rparr>)
     (QuicConnectionState_make Server (QuicStreamManager_blank Server) 0)"

lemma sent_packet_members [simp]:
  "op_num (sent_packet n) = n" "op_space (sent_packet n) = AppData_Space" "\<not> op_declaredLost (sent_packet n)"
  "op_time (sent_packet n) = 0" "op_associatedEvent (sent_packet n) = None" "dsr_frame (sent_packet n) = None"
  "op_nonDsrPacketSequenceNumber (sent_packet n) = None" "rw_frames (op_packet (sent_packet n)) = []"
  "op_encodedSize (sent_packet n) = 100"
  by (simp_all add: sent_packet_def op_num_def op_space_def dsr_frame_def RegularQuicWritePacket_make_def)

lemma demo_flight_members:
  "os_packets (outstandings demo_flight) = [sent_packet 0, sent_packet 4]"
  "ls_reorderingThreshold (lossState demo_flight) = 3" "ls_rtxCount (lossState demo_flight) = 0"
  "ls_srtt (lossState demo_flight) = 0" "ls_lrtt (lossState demo_flight) = 0"
  "timeReorderingThreshDivisor (transportSettings demo_flight) = 4"
  by (simp_all add: demo_flight_def QuicConnectionState_make_def LossState_init_def TransportSettings_init_def)

theorem loss_detection_exact_witness:
  "case detectLossPackets (markPacketLoss 0) (Some 5) 0 AppData_Space None demo_flight of
     Inl e \<Rightarrow> False
   | Inr (lossEvent, conn') \<Rightarrow>
       map op_declaredLost (os_packets (outstandings conn')) = [True, False]
       \<and> ls_rtxCount (lossState conn') = 1 \<and> ls_lossTimes (lossState conn') AppData_Space = Some 0"
proof -
  let ?c = "loss_context 5 0 AppData_Space None demo_flight"
  have c: "lc_largestAcked ?c = 5" "lc_pnSpace ?c = AppData_Space" "lc_largestDsrAcked ?c = Map.empty"
    "lc_largestNonDsrAcked ?c = Some 5" "lc_lossTime ?c = 0" "lc_delayUntilLost ?c = 0"
    by (simp_all add: loss_context_def largest_acked_def demo_flight_members Let_def value_or_def)
  have i: "getFirstOutstandingPacket demo_flight AppData_Space = 0"
    by (simp add: getFirstOutstandingPacket_def getNextOutstandingPacket_def find_from_def demo_flight_members)
  have W: "considered ?c demo_flight = [sent_packet 0, sent_packet 4]"
    by (simp add: considered_def c i demo_flight_members)
  have lost: "now_lost ?c 3 (sent_packet 0)" "\<not> now_lost ?c 3 (sent_packet 4)" "watched ?c (sent_packet 4)"
    by (simp_all add: now_lost_def watched_def lost_by_timeout_def loss_distance_def loss_numbers_def reorder_distance_def
        c value_or_def)
  note exact = loss_detection_exact [of 5 0 AppData_Space None demo_flight 0, unfolded Let_def i W demo_flight_members c]
  have "\<exists>r. detectLossPackets (markPacketLoss 0) (Some 5) 0 AppData_Space None demo_flight = Inr r"
  proof -
    have "[0..<2] = [0, 1 :: nat]" by (simp add: upt_rec)
    then show ?thesis
      by (simp add: detectLossPackets_acked processOutstandingsForLoss_def considered_same(1) [of "on_ls f demo_flight" demo_flight for f]
          i c demo_flight_members loss_numbers_def value_or_def reorder_distance_def lost_by_timeout_def
          declare_lost_def markPacketLoss_def uncount_lost_def forget_event_def already_processed_def lost_packet_def
          addLostPacket_def LossEvent_make_def Let_def)
  qed
  then show ?thesis using exact lost
    by (auto simp: earliest_unprocessed_def already_processed_def)
qed

end
