(* ===== verification/Loss_Recovery.thy ===== *)
theory Loss_Recovery
  imports Loss_Detection
begin

text \<open>
  What becomes of the control information of a lost packet (\<^verbatim>\<open>markPacketLoss\<close> of
  \<^verbatim>\<open>loss/quic_loss_functions.cpp\<close> over the pending events and the stream manager): the
  window updates, resets, blocked signals and simple frames it carried are pending again, and
  nothing that was pending is forgotten. Stream data is not covered here, since sent data is not
  kept (see \<open>Stream_Machine\<close>).
\<close>

section \<open>A manager that only gains\<close>

text \<open>The part of a stream that marking its data as lost leaves alone.\<close>

definition control_part :: "QuicStreamState \<Rightarrow> QuicStreamState" where
  "control_part s = s\<lparr>lossBuffer := [], lossBufMetas := [], retransmissionBuffer := Map.empty,
     retransmissionBufMetas := Map.empty, streamLossCount := 0\<rparr>"

definition keyed :: "QuicStreamManager \<Rightarrow> bool" where
  "keyed sm \<longleftrightarrow> (\<forall>sid s. sm_streams sm sid = Some s \<longrightarrow> stream_id s = sid)"

definition streams_kept :: "QuicStreamManager \<Rightarrow> QuicStreamManager \<Rightarrow> bool" where
  "streams_kept sm sm' \<longleftrightarrow>
     (\<forall>sid s. sm_streams sm sid = Some s \<longrightarrow> (\<exists>s'. sm_streams sm' sid = Some s' \<and> control_part s' = control_part s))"

text \<open>Streams that keep none of the data they have sent, as the code leaves them.\<close>

definition none_kept :: "QuicStreamManager \<Rightarrow> bool" where
  "none_kept sm \<longleftrightarrow>
     (\<forall>sid s. sm_streams sm sid = Some s \<longrightarrow> lossBuffer s = [] \<and> retransmissionBuffer s = Map.empty)"

definition manager_grows :: "QuicStreamManager \<Rightarrow> QuicStreamManager \<Rightarrow> bool" where
  "manager_grows sm sm' \<longleftrightarrow> (keyed sm \<longrightarrow> keyed sm') \<and> streams_kept sm sm'
     \<and> (none_kept sm \<longrightarrow> none_kept sm')
     \<and> sm_nodeType sm' = sm_nodeType sm
     \<and> (\<forall>t. openLocalStreams t sm \<subseteq> openLocalStreams t sm' \<and> openPeerStreams t sm \<subseteq> openPeerStreams t sm')
     \<and> sm_windowUpdates sm \<subseteq> sm_windowUpdates sm' \<and> dom (sm_blockedStreams sm) \<subseteq> dom (sm_blockedStreams sm')"

lemma streams_kept_trans: "streams_kept a b \<Longrightarrow> streams_kept b c \<Longrightarrow> streams_kept a c"
  unfolding streams_kept_def by metis

lemma manager_grows_refl [simp]: "manager_grows sm sm"
  by (auto simp: manager_grows_def streams_kept_def)

lemma manager_grows_trans: "manager_grows a b \<Longrightarrow> manager_grows b c \<Longrightarrow> manager_grows a c"
  using streams_kept_trans [of a b c] by (simp add: manager_grows_def) (meson subset_trans)

lemma manager_grows_exists: "manager_grows sm sm' \<Longrightarrow> streamExists sid sm \<Longrightarrow> streamExists sid sm'"
  unfolding manager_grows_def streamExists_def by (auto split: if_splits)

lemmas open_sets = openLocalStreams_def openPeerStreams_def

lemma manager_grows_emplace:
  assumes "emplace_stream s sm = (s', sm1)" and "addToStreamPriorityMap s' sm1 = Inr sm2"
    and "lossBuffer s = []" and "retransmissionBuffer s = Map.empty"
  shows "manager_grows sm sm2 \<and> sm_streams sm2 (stream_id s) = Some s'"
  using assms
  by (auto simp: emplace_stream_def addToStreamPriorityMap_def put_stream_def manager_grows_def streams_kept_def
      none_kept_def keyed_def open_sets split: option.splits if_splits)

lemma made_members [simp]:
  "stream_id (QuicStreamState_make sid conn) = sid" "stream_id (QuicStreamState_make_group sid grp conn) = sid"
  "lossBuffer (QuicStreamState_make sid conn) = []" "lossBuffer (QuicStreamState_make_group sid grp conn) = []"
  "retransmissionBuffer (QuicStreamState_make sid conn) = Map.empty"
  "retransmissionBuffer (QuicStreamState_make_group sid grp conn) = Map.empty"
  by (simp_all add: QuicStreamState_make_def QuicStreamState_make_group_def QuicStreamLike.extend_def QuicStreamLike_init_def Let_def)

lemma open_streams_loop_gains:
  assumes "open_streams_loop sid start opened news = Some (opened', news')"
  shows "opened \<subseteq> opened'"
proof -
  have "opened \<subseteq> fst (opened', news')"
  proof (rule open_streams_loop.raw_induct [where P = "\<lambda>sid start opened news r. opened \<subseteq> fst r", OF _ assms])
    fix loop :: "StreamId \<Rightarrow> StreamId \<Rightarrow> StreamId set \<Rightarrow> StreamId list option \<Rightarrow> (StreamId set \<times> StreamId list option) option"
    fix sid start opened news r
    assume ih: "\<And>sid start opened news r. loop sid start opened news = Some r \<Longrightarrow> opened \<subseteq> fst r"
      and "(if start \<le> sid then loop sid (start + 4) (insert start opened) (map_option (\<lambda>ids. ids @ [start]) news)
            else Some (opened, news)) = Some r"
    then show "opened \<subseteq> fst r" by (auto split: if_splits dest!: ih)
  qed
  then show ?thesis by simp
qed

section \<open>Looking a stream up\<close>

text \<open>Looking a stream up changes the manager and what the congestion controller is told, and the
  manager only gains.\<close>

definition looked_up :: "StreamId \<Rightarrow> QuicStreamState option \<Rightarrow> QuicConnectionState \<Rightarrow> QuicConnectionState \<Rightarrow> bool" where
  "looked_up sid st conn conn' \<longleftrightarrow> manager_grows (streamManager conn) (streamManager conn')
     \<and> (\<forall>s. st = Some s \<longrightarrow> sm_streams (streamManager conn') sid = Some s)
     \<and> pendingEvents conn' = pendingEvents conn \<and> conn_flowControlState conn' = conn_flowControlState conn
     \<and> outstandingPathValidation conn' = outstandingPathValidation conn"

lemma looked_up_local:
  assumes "getOrCreateOpenedLocalStream sid conn = Inr (st, conn')"
  shows "looked_up sid st conn conn'"
  using assms
  by (auto simp: getOrCreateOpenedLocalStream_def looked_up_def Let_def elim!: and_then_InrE dest: manager_grows_emplace
      split: if_splits prod.splits)

lemma looked_up_instantiate:
  assumes "instantiatePeerStream sid grp conn = Inr (st, conn')"
  shows "looked_up sid st conn conn'"
proof -
  let ?sm = "note_new_peer_stream (transportSettings conn) sid grp (streamManager conn)"
  obtain s sm sm2 where e: "emplace_stream (QuicStreamState_make_group sid grp conn) ?sm = (s, sm)"
    "addToStreamPriorityMap s sm = Inr sm2" "conn' = conn\<lparr>streamManager := sm2\<rparr>" "st = Some s"
    using assms by (auto simp: instantiatePeerStream_def Let_def elim!: and_then_InrE split: prod.splits)
  moreover have "manager_grows (streamManager conn) ?sm"
    by (auto simp: note_new_peer_stream_def manager_grows_def streams_kept_def none_kept_def keyed_def open_sets Let_def
        split: option.split)
  ultimately show ?thesis using manager_grows_emplace [OF e(1,2)] manager_grows_trans by (auto simp: looked_up_def)
qed

lemma manager_grows_open:
  assumes "openPeerStreams sid sm \<subseteq> opened"
  shows "manager_grows sm (set_new_streams g news (set_nextAcceptablePeer sid nxt (set_openPeerStreams sid opened sm)))"
  using assms
  by (auto simp: manager_grows_def streams_kept_def none_kept_def keyed_def set_new_streams_def set_nextAcceptablePeer_def
      set_openPeerStreams_def open_sets split: option.split)

lemma looked_up_peer:
  assumes "getOrCreatePeerStream sid grp conn = Inr (st, conn')"
  shows "looked_up sid st conn conn'"
proof -
  have opened: "looked_up sid st conn conn'"
    if "looked_up sid st (conn\<lparr>streamManager := set_new_streams grp news
          (set_nextAcceptablePeer sid nxt (set_openPeerStreams sid opened (streamManager conn)))\<rparr>) conn'"
      and "openPeerStreams sid (streamManager conn) \<subseteq> opened" for news nxt opened
    using that manager_grows_trans [OF manager_grows_open [OF that(2)]] by (simp add: looked_up_def) blast
  show ?thesis
    using assms
    by (auto simp: getOrCreatePeerStream_def openPeerStreamIfNotClosed_def Let_def elim!: and_then_InrE
        dest!: looked_up_instantiate open_streams_loop_gains
        split: option.splits if_splits prod.splits intro: opened) (auto simp: looked_up_def)
qed

lemma looked_up_getStream:
  assumes "getStream now sid grp conn = Inr (st, conn')"
  shows "looked_up sid st conn conn'"
proof -
  have idle: "looked_up sid x conn (updateAppIdleState now c) \<longleftrightarrow> looked_up sid x conn c" for x c
    by (simp add: updateAppIdleState_def looked_up_def manager_grows_def streams_kept_def none_kept_def keyed_def open_sets Let_def)
  show ?thesis using assms
    by (auto simp: getStream_def idle elim!: and_then_InrE dest!: looked_up_peer looked_up_local
        split: option.splits if_splits prod.splits) (simp_all add: looked_up_def)
qed

lemma getStream_found:
  "getStream now sid grp conn = Inr (st, conn') \<Longrightarrow> sm_streams (streamManager conn) sid = Some s \<Longrightarrow> st = Some s"
  by (auto simp: getStream_def getOrCreatePeerStream_def elim!: and_then_InrE split: if_splits)

section \<open>Pending events only grow\<close>

definition pending_grows :: "QuicConnectionState \<Rightarrow> QuicConnectionState \<Rightarrow> bool" where
  "pending_grows conn conn' \<longleftrightarrow> manager_grows (streamManager conn) (streamManager conn')
     \<and> conn_flowControlState conn' = conn_flowControlState conn
     \<and> outstandingPathValidation conn' = outstandingPathValidation conn
     \<and> (pe_connWindowUpdate (pendingEvents conn) \<longrightarrow> pe_connWindowUpdate (pendingEvents conn'))
     \<and> (pe_sendDataBlocked (pendingEvents conn) \<longrightarrow> pe_sendDataBlocked (pendingEvents conn'))
     \<and> pe_resets (pendingEvents conn) \<subseteq>\<^sub>m pe_resets (pendingEvents conn')
     \<and> set (pe_frames (pendingEvents conn)) \<subseteq> set (pe_frames (pendingEvents conn'))
     \<and> (pe_pathChallenge (pendingEvents conn') = pe_pathChallenge (pendingEvents conn)
        \<or> pe_pathChallenge (pendingEvents conn') = outstandingPathValidation conn)"

lemma pending_grows_refl [simp]: "pending_grows conn conn"
  by (simp add: pending_grows_def)

lemma pending_grows_trans: "pending_grows a b \<Longrightarrow> pending_grows b c \<Longrightarrow> pending_grows a c"
  unfolding pending_grows_def by (auto intro: manager_grows_trans map_le_trans)

lemma looked_up_grows: "looked_up sid st conn conn' \<Longrightarrow> pending_grows conn conn'"
  by (simp add: looked_up_def pending_grows_def)

text \<open>The changes that the frames of a lost packet make.\<close>

lemma pending_grows_manager:
  "manager_grows (streamManager conn) (f (streamManager conn)) \<Longrightarrow> pending_grows conn (on_sm f conn)"
  by (simp add: pending_grows_def on_sm_def)

lemma manager_grows_flow [simp]:
  "manager_grows sm (onStreamWindowUpdateLost s sm)" "manager_grows sm (onBlockedLost s sm)"
  by (auto simp: manager_grows_def streams_kept_def none_kept_def keyed_def open_sets onStreamWindowUpdateLost_def onBlockedLost_def
      queueWindowUpdate_def maybeWriteBlockAfterSocketWrite_def queueBlocked_def)

lemma pending_grows_flow [simp]:
  "pending_grows conn (on_sm (onStreamWindowUpdateLost s) conn)" "pending_grows conn (on_sm (onBlockedLost s) conn)"
  by (simp_all add: pending_grows_manager)

lemma pending_grows_events [simp]:
  "pending_grows conn (onConnWindowUpdateLost conn)" "pending_grows conn (onDataBlockedLost conn)"
  "pending_grows conn (updateSimpleFrameOnPacketLoss f conn)"
  by (auto simp: pending_grows_def onConnWindowUpdateLost_def onDataBlockedLost_def maybeWriteDataBlockedAfterSocketWrite_def
      updateSimpleFrameOnPacketLoss_def on_pe_def Let_def split: QuicSimpleFrame.split)

lemma pending_grows_reset:
  "pe_resets (pendingEvents conn) sid = None \<Longrightarrow>
    pending_grows conn (on_pe (\<lambda>pe. pe\<lparr>pe_resets := (pe_resets pe)(sid \<mapsto> f)\<rparr>) conn)"
  by (auto simp: pending_grows_def on_pe_def map_le_def)

lemma updateWritableStreams_keeps [simp]:
  "sm_streams (updateWritableStreams s sm) = sm_streams sm" "sm_nodeType (updateWritableStreams s sm) = sm_nodeType sm"
  "openLocalStreams t (updateWritableStreams s sm) = openLocalStreams t sm"
  "openPeerStreams t (updateWritableStreams s sm) = openPeerStreams t sm"
  "sm_windowUpdates (updateWritableStreams s sm) = sm_windowUpdates sm"
  "sm_blockedStreams (updateWritableStreams s sm) = sm_blockedStreams sm"
  by (simp_all add: updateWritableStreams_def removeWritable_def dequeue_stream_def open_sets Let_def)

lemma manager_grows_writable: "manager_grows sm (updateWritableStreams s sm)"
  by (simp add: manager_grows_def streams_kept_def none_kept_def keyed_def)

lemma mark_stream_data_control:
  "mark_stream_data conn f s seen = Some (s', seen') \<Longrightarrow> control_part s' = control_part s \<and> stream_id s' = stream_id s
    \<and> (retransmissionBuffer s = Map.empty \<longrightarrow> lossBuffer s' = lossBuffer s \<and> retransmissionBuffer s' = Map.empty)"
  by (auto simp: mark_stream_data_def count_stream_loss_def insertIntoLossBuffer_def insertIntoLossBufMeta_def control_part_def Let_def
      split: option.splits if_splits)

lemma manager_grows_put:
  assumes "sm_streams sm sid = Some s" and "stream_id s' = sid" and "control_part s' = control_part s"
    and "retransmissionBuffer s = Map.empty \<longrightarrow> lossBuffer s' = lossBuffer s \<and> retransmissionBuffer s' = Map.empty"
  shows "manager_grows sm (put_stream s' sm)"
  using assms by (auto simp: manager_grows_def streams_kept_def none_kept_def keyed_def open_sets put_stream_def)

lemma mark_frame_grows:
  assumes "mark_frame now header processed f (conn, seen) = Inr (conn', seen')" and "keyed (streamManager conn)"
  shows "pending_grows conn conn'"
proof (cases "\<exists>g. f = WF_WriteStream g \<and> \<not> processed")
  case True
  then obtain g st conn1 where got: "getStream now (ws_streamId g) None conn = Inr (st, conn1)"
    and res: "(conn', seen') = (case st of None \<Rightarrow> (conn1, seen) | Some stream \<Rightarrow>
        (case mark_stream_data conn1 g stream seen of None \<Rightarrow> (conn1, seen)
         | Some (s1, seen1) \<Rightarrow> (on_sm (\<lambda>sm. updateWritableStreams s1 (put_stream s1 sm)) conn1, seen1)))"
    using assms(1) by (auto simp: mark_frame_def elim!: and_then_InrE split: option.splits prod.splits)
  note up = looked_up_getStream [OF got]
  have "pending_grows conn1 (on_sm (\<lambda>sm. updateWritableStreams s1 (put_stream s1 sm)) conn1)"
    if "st = Some stream" "mark_stream_data conn1 g stream seen = Some (s1, seen1)" for stream s1 seen1
  proof (intro pending_grows_manager manager_grows_trans [OF manager_grows_put manager_grows_writable])
    show s: "sm_streams (streamManager conn1) (ws_streamId g) = Some stream" using up that(1) by (simp add: looked_up_def)
    have "keyed (streamManager conn1)" using up assms(2) by (simp add: looked_up_def manager_grows_def)
    then show "stream_id s1 = ws_streamId g" "control_part s1 = control_part stream"
      "retransmissionBuffer stream = Map.empty \<longrightarrow> lossBuffer s1 = lossBuffer stream \<and> retransmissionBuffer s1 = Map.empty"
      using s mark_stream_data_control [OF that(2)] by (simp_all add: keyed_def)
  qed
  then show ?thesis using res looked_up_grows [OF up] pending_grows_trans by (auto split: option.splits prod.splits)
next
  case False
  have up: "pending_grows conn c'" if "getStream now sid None conn = Inr (st, c)" "pending_grows c c'" for sid st c c'
    using pending_grows_trans [OF looked_up_grows [OF looked_up_getStream [OF that(1)]] that(2)] .
  show ?thesis
  proof (cases f)
    case (WF_RstStream g)
    then show ?thesis using assms(1)
      by (auto simp: mark_frame_def elim!: and_then_InrE up split: option.splits if_splits intro: pending_grows_reset)
  next
    case (WF_MaxStreamData g)
    then show ?thesis using assms(1)
      by (auto simp: mark_frame_def elim!: and_then_InrE up split: option.splits)
  next
    case (WF_StreamDataBlocked g)
    then show ?thesis using assms(1)
      by (auto simp: mark_frame_def elim!: and_then_InrE up split: option.splits if_splits)
  qed (use assms(1) False in \<open>auto simp: mark_frame_def Let_def pending_grows_def [of conn "conn\<lparr>cryptoState := c\<rparr>" for c]
      split: option.splits if_splits\<close>)
qed

section \<open>What a lost frame makes pending\<close>

text \<open>A stream that has data to send and no allowance of the peer left.\<close>

definition blocked_on_peer :: "QuicStreamState \<Rightarrow> bool" where
  "blocked_on_peer s \<longleftrightarrow> streamWriteError s = None \<and> \<not> (finalWriteOffset s \<noteq> None \<and> hasSentFIN s)
     \<and> getSendStreamFlowControlBytesWire s = 0 \<and> (\<not> bq_empty (writeBuffer s) \<or> wbm_length (writeBufMeta s) > 0)"

text \<open>
  The frame is pending again in \<open>conn'\<close> when its packet is lost in \<open>conn\<close>. A packet whose clone
  was already handled is \<open>processed\<close>: of it, only the window updates are queued again.
\<close>

definition pending_again :: "bool \<Rightarrow> QuicConnectionState \<Rightarrow> QuicWriteFrame \<Rightarrow> QuicConnectionState \<Rightarrow> bool" where
  "pending_again processed conn f conn' \<longleftrightarrow>
     (case f of
        WF_MaxData g \<Rightarrow> pe_connWindowUpdate (pendingEvents conn')
      | WF_MaxStreamData g \<Rightarrow>
          (\<forall>s. sm_streams (streamManager conn) (msd_streamId g) = Some s \<and> recvState s = Recv_Open
             \<longrightarrow> msd_streamId g \<in> sm_windowUpdates (streamManager conn'))
      | WF_DataBlocked g \<Rightarrow>
          \<not> processed \<and> getSendConnFlowControlBytesWire conn = 0 \<longrightarrow> pe_sendDataBlocked (pendingEvents conn')
      | WF_StreamDataBlocked g \<Rightarrow>
          (\<forall>s. \<not> processed \<and> sm_streams (streamManager conn) (sdb_streamId g) = Some s \<and> blocked_on_peer s
             \<longrightarrow> sm_blockedStreams (streamManager conn') (sdb_streamId g) \<noteq> None)
      | WF_RstStream g \<Rightarrow>
          \<not> processed \<and> sm_streams (streamManager conn) (rst_streamId g) \<noteq> None
             \<longrightarrow> pe_resets (pendingEvents conn') (rst_streamId g) \<noteq> None
      | WF_Simple g \<Rightarrow>
          \<not> processed \<longrightarrow>
            (case g of
               SF_StopSending h \<Rightarrow>
                 streamExists (ss_streamId h) (streamManager conn) \<longrightarrow> g \<in> set (pe_frames (pendingEvents conn'))
             | SF_PathChallenge h \<Rightarrow>
                 outstandingPathValidation conn = Some h \<longrightarrow> pe_pathChallenge (pendingEvents conn') = Some h
             | _ \<Rightarrow> g \<in> set (pe_frames (pendingEvents conn')))
      | _ \<Rightarrow> True)"

lemma control_part_members:
  assumes "control_part s' = control_part s"
  shows "recvState s' = recvState s" and "blocked_on_peer s' = blocked_on_peer s" and "stream_id s' = stream_id s"
proof -
  have "P (control_part s') = P (control_part s)" for P :: "QuicStreamState \<Rightarrow> bool" using assms by simp
  moreover have "blocked_on_peer (control_part s) = blocked_on_peer s" for s
    by (simp add: blocked_on_peer_def control_part_def hasSentFIN_def getSendStreamFlowControlBytesWire_def nextOffsetToWrite_def
        split: option.split)
  moreover have "recvState (control_part s) = recvState s" "stream_id (control_part s) = stream_id s" for s
    by (simp_all add: control_part_def)
  ultimately show "recvState s' = recvState s" "blocked_on_peer s' = blocked_on_peer s" "stream_id s' = stream_id s"
    using assms by metis+
qed

lemma mark_frame_again:
  assumes "mark_frame now header processed f (conn, seen) = Inr (conn', seen')" and "keyed (streamManager conn)"
  shows "pending_again processed conn f conn'"
proof -
  have found: "st = Some s \<and> stream_id s = sid \<and> sm_streams (streamManager conn1) sid = Some s"
    if "getStream now sid None conn = Inr (st, conn1)" "sm_streams (streamManager conn) sid = Some s" for sid st conn1 s
    using that getStream_found [OF that] looked_up_getStream [OF that(1)] assms(2) by (simp add: keyed_def looked_up_def)
  show ?thesis
  proof (cases f)
    case (WF_MaxStreamData g)
    then show ?thesis using assms(1)
      by (auto simp: mark_frame_def pending_again_def onStreamWindowUpdateLost_def shouldSendFlowControl_def queueWindowUpdate_def
          elim!: and_then_InrE dest!: found split: option.splits)
  next
    case (WF_StreamDataBlocked g)
    then show ?thesis using assms(1)
      by (auto simp: mark_frame_def pending_again_def onBlockedLost_def maybeWriteBlockAfterSocketWrite_def queueBlocked_def
          blocked_on_peer_def elim!: and_then_InrE dest!: found split: option.splits if_splits)
  next
    case (WF_RstStream g)
    then show ?thesis using assms(1)
      by (auto simp: mark_frame_def pending_again_def elim!: and_then_InrE dest!: found split: option.splits if_splits)
  next
    case (WF_Simple g)
    then show ?thesis using assms(1)
      by (auto simp: mark_frame_def pending_again_def updateSimpleFrameOnPacketLoss_def Let_def split: QuicSimpleFrame.splits if_splits)
  qed (use assms(1) in \<open>auto simp: mark_frame_def pending_again_def onConnWindowUpdateLost_def onDataBlockedLost_def
      maybeWriteDataBlockedAfterSocketWrite_def split: if_splits\<close>)
qed

text \<open>A frame that is pending again stays so, and the conditions carry over from the start.\<close>

lemma pending_again_mono:
  assumes "pending_again processed c1 f c2" and "pending_grows c0 c1" and "pending_grows c1 c2" and "pending_grows c2 c3"
  shows "pending_again processed c0 f c3"
proof -
  have kept: "\<exists>s'. sm_streams (streamManager c1) sid = Some s' \<and> recvState s' = recvState s \<and> blocked_on_peer s' = blocked_on_peer s"
    if there: "sm_streams (streamManager c0) sid = Some s" for sid s
  proof -
    have "streams_kept (streamManager c0) (streamManager c1)" using assms(2) by (simp add: pending_grows_def manager_grows_def)
    then obtain s' where "sm_streams (streamManager c1) sid = Some s'" "control_part s' = control_part s"
      using there unfolding streams_kept_def by blast
    then show ?thesis using control_part_members [of s' s] by blast
  qed
  have present: "sm_streams (streamManager c1) sid \<noteq> None" if "sm_streams (streamManager c0) sid \<noteq> None" for sid
    using kept that by blast
  have allowance: "getSendConnFlowControlBytesWire c1 = getSendConnFlowControlBytesWire c0"
    and path: "outstandingPathValidation c1 = outstandingPathValidation c0" "outstandingPathValidation c2 = outstandingPathValidation c1"
    and grown: "sm_windowUpdates (streamManager c2) \<subseteq> sm_windowUpdates (streamManager c3)"
      "dom (sm_blockedStreams (streamManager c2)) \<subseteq> dom (sm_blockedStreams (streamManager c3))"
      "pe_connWindowUpdate (pendingEvents c2) \<Longrightarrow> pe_connWindowUpdate (pendingEvents c3)"
      "pe_sendDataBlocked (pendingEvents c2) \<Longrightarrow> pe_sendDataBlocked (pendingEvents c3)"
      "set (pe_frames (pendingEvents c2)) \<subseteq> set (pe_frames (pendingEvents c3))"
    using assms(2-4) by (simp_all add: pending_grows_def manager_grows_def getSendConnFlowControlBytesWire_def)
  have exists: "streamExists sid (streamManager c1)" if "streamExists sid (streamManager c0)" for sid
    using that assms(2) manager_grows_exists by (auto simp: pending_grows_def)
  have resets: "pe_resets (pendingEvents c3) sid \<noteq> None" if "pe_resets (pendingEvents c2) sid \<noteq> None" for sid
  proof -
    have "pe_resets (pendingEvents c2) \<subseteq>\<^sub>m pe_resets (pendingEvents c3)" using assms(4) by (simp add: pending_grows_def)
    then show ?thesis using that by (metis domIff map_le_def)
  qed
  have challenge: "pe_pathChallenge (pendingEvents c3) = Some h"
    if "pe_pathChallenge (pendingEvents c2) = Some h" "outstandingPathValidation c0 = Some h" for h
    using that assms(4) path by (auto simp: pending_grows_def)
  show ?thesis
  proof (cases f)
    case (WF_MaxStreamData g)
    then show ?thesis using assms(1) kept grown(1) unfolding pending_again_def by simp (metis subsetD)
  next
    case (WF_StreamDataBlocked g)
    have "sm_blockedStreams (streamManager c3) k \<noteq> None" if "sm_blockedStreams (streamManager c2) k \<noteq> None" for k
      using that grown(2) by blast
    then show ?thesis using WF_StreamDataBlocked assms(1) kept unfolding pending_again_def by simp metis
  next
    case (WF_RstStream g)
    then show ?thesis using assms(1) present resets by (simp add: pending_again_def)
  next
    case (WF_Simple g)
    then show ?thesis using assms(1) exists challenge path(1) grown(5)
      by (auto simp: pending_again_def split: QuicSimpleFrame.splits)
  qed (use assms(1) grown(3,4) allowance in \<open>auto simp: pending_again_def\<close>)
qed

lemma mark_frames_again:
  assumes "mark_frames now header processed fs (conn, seen) = Inr (conn', seen')" and "keyed (streamManager conn)"
  shows "pending_grows conn conn' \<and> (\<forall>f \<in> set fs. pending_again processed conn f conn')"
  using assms
proof (induction fs arbitrary: conn seen)
  case (Cons f fs)
  then obtain conn1 seen1 where first: "mark_frame now header processed f (conn, seen) = Inr (conn1, seen1)"
    and rest: "mark_frames now header processed fs (conn1, seen1) = Inr (conn', seen')"
    by (auto elim!: and_then_InrE)
  have one: "pending_grows conn conn1" "pending_again processed conn f conn1"
    using mark_frame_grows [OF first Cons.prems(2)] mark_frame_again [OF first Cons.prems(2)] by auto
  then have "keyed (streamManager conn1)" using Cons.prems(2) by (simp add: pending_grows_def manager_grows_def)
  note ih = Cons.IH [OF rest this]
  then have "pending_again processed conn g conn'" if "g \<in> set fs" for g
    using that one(1) ih pending_again_mono [OF _ one(1), of processed g conn' conn'] by auto
  then show ?case using ih one pending_grows_trans [OF one(1)] pending_again_mono [OF one(2) _ one(1), of conn conn'] by auto
qed simp

text \<open>No reset is made up.\<close>

lemma mark_frame_resets:
  assumes "mark_frame now header processed f (conn, seen) = Inr (conn', seen')"
    and "pe_resets (pendingEvents conn') sid = Some r"
  shows "pe_resets (pendingEvents conn) sid = Some r \<or> \<not> processed \<and> f = WF_RstStream r \<and> rst_streamId r = sid"
proof -
  have up: "pendingEvents c = pendingEvents conn" if "getStream now k None conn = Inr (st, c)" for k st c
    using looked_up_getStream [OF that] by (simp add: looked_up_def)
  show ?thesis using assms
    by (cases f) (auto simp: mark_frame_def Let_def onConnWindowUpdateLost_def onDataBlockedLost_def
        maybeWriteDataBlockedAfterSocketWrite_def updateSimpleFrameOnPacketLoss_def elim!: and_then_InrE dest!: up
        split: option.splits if_splits QuicSimpleFrame.splits prod.splits)
qed

lemma mark_frames_resets:
  assumes "mark_frames now header processed fs (conn, seen) = Inr (conn', seen')"
    and "pe_resets (pendingEvents conn') sid = Some r"
  shows "pe_resets (pendingEvents conn) sid = Some r \<or> \<not> processed \<and> WF_RstStream r \<in> set fs \<and> rst_streamId r = sid"
  using assms
proof (induction fs arbitrary: conn seen)
  case (Cons f fs)
  then obtain conn1 seen1 where "mark_frame now header processed f (conn, seen) = Inr (conn1, seen1)"
    "mark_frames now header processed fs (conn1, seen1) = Inr (conn', seen')"
    by (auto elim!: and_then_InrE)
  then show ?case using Cons.IH Cons.prems(2) mark_frame_resets by fastforce
qed simp


text \<open>A connection without streams, and a packet with a window update and a simple frame.\<close>

definition demo_packet :: RegularQuicWritePacket where
  "demo_packet = (op_packet (sent_packet 0))\<lparr>rw_frames :=
     [WF_MaxData (MaxDataFrame 100), WF_Simple (SF_RetireConnectionId (RetireConnectionIdFrame 1))]\<rparr>"


end
