(* ===== verification/Stream_Machine.thy ===== *)
theory Stream_Machine
  imports Loss_Recovery Read_Buffer
begin

text \<open>
  The life of a stream: what the application writes and reads and what becomes of written data
  (\<^verbatim>\<open>state/quic_stream_function.cpp\<close> and the written-data handlers of
  \<^verbatim>\<open>api/quic_transport_function.cpp\<close>), and the two state machines of its sides
  (\<^verbatim>\<open>state/stream/\<close>). An operation takes the stream and the connection and returns
  both. The theorems show that a stream keeps exactly the sides its identifier gives it, that
  the machines move along their diagrams and hand a finished stream over to be closed, and
  that data which is sent is not kept for retransmission.
\<close>

section \<open>Writing to a stream\<close>

definition writeDataToQuicStream ::
    "QuicStreamState \<Rightarrow> Buf \<Rightarrow> bool \<Rightarrow> QuicConnectionState \<Rightarrow> (QuicStreamState \<times> QuicConnectionState) result" where
  "writeDataToQuicStream stream data eof conn =
     (let len = (of_nat (computeChainDataLength data) :: u64);
          conn1 = (if len > 0 then on_sm (maybeWriteBlockAfterAPIWrite stream) conn else conn);
          s1 = stream\<lparr>writeBuffer := bq_append (writeBuffer stream) data\<rparr>;
          s2 = (if eof
                then s1\<lparr>finalWriteOffset := Some (currentWriteOffset s1 + of_nat (chainLength (writeBuffer s1)))\<rparr>
                else s1)
      in and_then (updateFlowControlOnWriteToStream len conn1)
           (\<lambda>conn2. Inr (s2, on_sm (updateWritableStreams s2) conn2)))"

definition writeBufMetaToQuicStream ::
    "QuicStreamState \<Rightarrow> u64 \<Rightarrow> bool \<Rightarrow> QuicConnectionState \<Rightarrow> (QuicStreamState \<times> QuicConnectionState) result" where
  "writeBufMetaToQuicStream stream len eof conn =
     (let conn1 = (if len > 0 then on_sm (maybeWriteBlockAfterAPIWrite stream) conn else conn);
          realDataLength = currentWriteOffset stream + of_nat (chainLength (writeBuffer stream));
          m = writeBufMeta stream;
          m1 = (if wbm_offset m = 0 then m\<lparr>wbm_offset := realDataLength\<rparr> else m);
          m2 = m1\<lparr>wbm_length := wbm_length m1 + len\<rparr>;
          s1 = (if eof
                then stream\<lparr>finalWriteOffset := Some (wbm_offset m2 + wbm_length m2), writeBufMeta := m2\<lparr>wbm_eof := True\<rparr>\<rparr>
                else stream\<lparr>writeBufMeta := m2\<rparr>)
      in and_then (updateFlowControlOnWriteToStream len conn1)
           (\<lambda>conn2. Inr (s1, on_sm (updateWritableStreams s1) conn2)))"

definition writeDataToQuicStream_crypto :: "QuicCryptoStream \<Rightarrow> Buf \<Rightarrow> QuicCryptoStream" where
  "writeDataToQuicStream_crypto stream data = stream\<lparr>writeBuffer := bq_append (writeBuffer stream) data\<rparr>"

definition getLargestWriteOffsetSeen :: "QuicStreamState \<Rightarrow> u64" where
  "getLargestWriteOffsetSeen stream =
     value_or (finalWriteOffset stream)
       (max (currentWriteOffset stream + of_nat (chainLength (writeBuffer stream)))
            (wbm_offset (writeBufMeta stream) + wbm_length (writeBufMeta stream)))"

definition getLargestWriteOffsetTxed :: "QuicStreamState \<Rightarrow> u64 option" where
  "getLargestWriteOffsetTxed stream =
     (if currentWriteOffset stream = 0 \<and> wbm_offset (writeBufMeta stream) = 0 then None
      else Some (max (currentWriteOffset stream) (wbm_offset (writeBufMeta stream)) - 1))"

definition getLargestDeliverableOffset :: "QuicStreamState \<Rightarrow> u64 option" where
  "getLargestDeliverableOffset stream =
     (case is_items (ackedIntervals stream) of
        [] \<Rightarrow> None
      | front # _ \<Rightarrow> if iv_start front \<noteq> 0 then None else Some (iv_end front))"

definition getAckIntervalSetVersion :: "QuicStreamState \<Rightarrow> u64" where
  "getAckIntervalSetVersion stream = is_insertVersion (ackedIntervals stream)"

definition getNumPacketsTxWithNewData :: "QuicStreamState \<Rightarrow> u64" where
  "getNumPacketsTxWithNewData stream = numPacketsTxWithNewData stream"

section \<open>Written data\<close>

text \<open>
  The insertion into the retransmission buffer stands in a commented-out check in all four
  functions, so it is not part of what the code does.
\<close>

definition handleNewStreamDataWritten ::
    "'a QuicStreamLike_scheme \<Rightarrow> u64 \<Rightarrow> bool \<Rightarrow> 'a QuicStreamLike_scheme" where
  "handleNewStreamDataWritten stream frameLen frameFin =
     stream\<lparr>currentWriteOffset := currentWriteOffset stream + frameLen + (if frameFin then 1 else 0),
            writeBuffer := snd (splitAtMost (writeBuffer stream) (unat frameLen))\<rparr>"

definition handleNewStreamBufMetaWritten :: "QuicStreamState \<Rightarrow> u64 \<Rightarrow> bool \<Rightarrow> QuicStreamState" where
  "handleNewStreamBufMetaWritten stream frameLen frameFin =
     (let m = snd (wbm_split (writeBufMeta stream) frameLen)
      in stream\<lparr>writeBufMeta := (if frameFin then m\<lparr>wbm_offset := wbm_offset m + 1\<rparr> else m)\<rparr>)"

definition handleRetransmissionWritten ::
    "'a QuicStreamLike_scheme \<Rightarrow> u64 \<Rightarrow> bool \<Rightarrow> nat \<Rightarrow> 'a QuicStreamLike_scheme" where
  "handleRetransmissionWritten stream frameLen frameFin i =
     (let buf = lossBuffer stream ! i
      in if frameLen = of_nat (chainLength (sb_data buf)) \<and> frameFin = sb_eof buf
         then stream\<lparr>lossBuffer := erase_range i (i + 1) (lossBuffer stream)\<rparr>
         else stream\<lparr>lossBuffer := (lossBuffer stream)
                [i := buf\<lparr>sb_offset := sb_offset buf + frameLen,
                          sb_data := snd (splitAtMost (sb_data buf) (unat frameLen))\<rparr>]\<rparr>)"

definition handleRetransmissionBufMetaWritten :: "QuicStreamState \<Rightarrow> u64 \<Rightarrow> bool \<Rightarrow> nat \<Rightarrow> QuicStreamState result" where
  "handleRetransmissionBufMetaWritten stream frameLen frameFin i =
     (if i \<ge> length (lossBufMetas stream) then Inl undefined_behaviour
      else let m = lossBufMetas stream ! i
           in Inr (if frameLen = wbm_length m \<and> frameFin = wbm_eof m
                   then stream\<lparr>lossBufMetas := erase_range i (i + 1) (lossBufMetas stream)\<rparr>
                   else stream\<lparr>lossBufMetas := (lossBufMetas stream)
                          [i := m\<lparr>wbm_length := wbm_length m - frameLen, wbm_offset := wbm_offset m + frameLen\<rparr>]\<rparr>))"

definition handleStreamWritten ::
    "QuicConnectionState \<Rightarrow> 'a QuicStreamLike_scheme \<Rightarrow> u64 \<Rightarrow> u64 \<Rightarrow> bool
     \<Rightarrow> (bool \<times> 'a QuicStreamLike_scheme \<times> QuicConnectionState) result" where
  "handleStreamWritten conn stream frameOffset frameLen frameFin =
     (if frameOffset = currentWriteOffset stream
      then let s1 = handleNewStreamDataWritten stream frameLen frameFin
           in Inr (True, s1\<lparr>numPacketsTxWithNewData := numPacketsTxWithNewData s1 + 1\<rparr>, conn)
      else if frameOffset > currentWriteOffset stream then Inl (QuicTransportException INTERNAL_ERROR)
      else let i = lower_bound (\<lambda>b. sb_offset b < frameOffset) (lossBuffer stream)
           in if i < length (lossBuffer stream) \<and> sb_offset (lossBuffer stream ! i) = frameOffset
              then Inr (False, handleRetransmissionWritten stream frameLen frameFin i,
                        on_ls (\<lambda>ls. ls\<lparr>ls_totalBytesRetransmitted := ls_totalBytesRetransmitted ls + frameLen\<rparr>) conn)
              else Inr (False, stream,
                        on_ls (\<lambda>ls. ls\<lparr>ls_totalStreamBytesCloned := ls_totalStreamBytesCloned ls + frameLen\<rparr>) conn))"

definition handleStreamBufMetaWritten ::
    "QuicConnectionState \<Rightarrow> QuicStreamState \<Rightarrow> u64 \<Rightarrow> u64 \<Rightarrow> bool
     \<Rightarrow> (bool \<times> QuicStreamState \<times> QuicConnectionState) result" where
  "handleStreamBufMetaWritten conn stream frameOffset frameLen frameFin =
     (if wbm_offset (writeBufMeta stream) > 0 \<and> frameOffset = wbm_offset (writeBufMeta stream)
      then let s1 = handleNewStreamBufMetaWritten stream frameLen frameFin
           in Inr (True, s1\<lparr>numPacketsTxWithNewData := numPacketsTxWithNewData s1 + 1\<rparr>, conn)
      else let i = lower_bound (\<lambda>m. wbm_offset m < frameOffset) (lossBufMetas stream)
           in and_then (handleRetransmissionBufMetaWritten stream frameLen frameFin i)
                (\<lambda>s1. Inr (False, s1,
                   on_ls (\<lambda>ls. ls\<lparr>ls_totalBytesRetransmitted := ls_totalBytesRetransmitted ls + frameLen\<rparr>) conn)))"

section \<open>Receiving and reading\<close>

definition appendDataToReadBuffer ::
    "QuicStreamState \<Rightarrow> StreamBuffer \<Rightarrow> QuicConnectionState \<Rightarrow> (QuicStreamState \<times> QuicConnectionState) result" where
  "appendDataToReadBuffer stream buffer conn =
     appendDataToReadBufferCommon stream buffer
       (\<lambda>previousMaxOffsetObserved bufferEndOffset s. updateFlowControlOnStreamData s previousMaxOffsetObserved bufferEndOffset)
       conn"

text \<open>The readable and the peekable streams after a change of the stream.\<close>

definition refresh_readable :: "TimePoint \<Rightarrow> QuicStreamState \<times> QuicConnectionState \<Rightarrow> QuicStreamState \<times> QuicConnectionState" where
  "refresh_readable now = (\<lambda>(stream, conn).
     let (s1, sm) = updateReadableStreams now stream (streamManager conn) in (s1, conn\<lparr>streamManager := sm\<rparr>))"

definition refresh_both :: "TimePoint \<Rightarrow> QuicStreamState \<times> QuicConnectionState \<Rightarrow> QuicStreamState \<times> QuicConnectionState" where
  "refresh_both now st =
     (let (s1, conn1) = refresh_readable now st in (s1, on_sm (updatePeekableStreams s1) conn1))"

definition at_final :: "QuicStreamState \<Rightarrow> bool" where
  "at_final stream \<longleftrightarrow> finalReadOffset stream = Some (currentReadOffset stream)"

text \<open>Reading and consuming differ in whether the data is returned.\<close>

definition read_stream ::
    "bool \<Rightarrow> TimePoint \<Rightarrow> QuicStreamState \<Rightarrow> u64 \<Rightarrow> QuicConnectionState
     \<Rightarrow> ((Buf \<times> bool \<times> QuicStreamState \<times> QuicConnectionState) result) option" where
  "read_stream sinkData now stream amount conn =
     (let step_past = (\<lambda>s. if at_final s then s\<lparr>currentReadOffset := currentReadOffset s + 1\<rparr> else s)
      in if (case finalReadOffset stream of Some fin \<Rightarrow> currentReadOffset stream \<ge> fin | None \<Rightarrow> False)
         then let (s1, conn1) = refresh_both now (step_past stream, conn) in Some (Inr ([], True, s1, conn1))
         else case readDataInOrderFromReadBuffer stream amount sinkData of
                None \<Rightarrow> None
              | Some (Inl e) \<Rightarrow> Some (Inl e)
              | Some (Inr (s1, data, _)) \<Rightarrow>
                  Some (and_then (updateFlowControlOnRead s1 (currentReadOffset stream) now conn)
                    (\<lambda>conn1. let (s2, conn2) = refresh_both now (step_past s1, conn1)
                             in Inr (data, at_final s1, s2, conn2))))"

definition readDataFromQuicStream ::
    "TimePoint \<Rightarrow> QuicStreamState \<Rightarrow> u64 \<Rightarrow> QuicConnectionState
     \<Rightarrow> ((Buf \<times> bool \<times> QuicStreamState \<times> QuicConnectionState) result) option" where
  "readDataFromQuicStream = read_stream False"

definition consumeDataFromQuicStream ::
    "TimePoint \<Rightarrow> QuicStreamState \<Rightarrow> u64 \<Rightarrow> QuicConnectionState \<Rightarrow> ((QuicStreamState \<times> QuicConnectionState) result) option" where
  "consumeDataFromQuicStream now stream amount conn =
     map_option (\<lambda>r. and_then r (\<lambda>(data, eof, s1, conn1). Inr (s1, conn1))) (read_stream True now stream amount conn)"

section \<open>Acknowledgements, resets and stops\<close>

definition allBytesTillFinAcked :: "QuicStreamState \<Rightarrow> bool" where
  "allBytesTillFinAcked stream \<longleftrightarrow>
     hasSentFIN stream \<and> retransmissionBuffer stream = Map.empty \<and> retransmissionBufMetas stream = Map.empty
     \<and> bq_empty (writeBuffer stream) \<and> \<not> hasWritableBufMeta stream \<and> lossBuffer stream = [] \<and> lossBufMetas stream = []"

definition appendPendingStreamReset ::
    "QuicStreamState \<Rightarrow> ApplicationErrorCode \<Rightarrow> QuicConnectionState \<Rightarrow> QuicConnectionState" where
  "appendPendingStreamReset stream errorCode conn =
     (let off = wbm_offset (writeBufMeta stream);
          writeBufWritten = (off \<noteq> 0 \<and> currentWriteOffset stream + of_nat (chainLength (writeBuffer stream)) \<noteq> off);
          final = min (if writeBufWritten then off else currentWriteOffset stream)
                      (value_or (finalWriteOffset stream) u64_max)
      in if pe_resets (pendingEvents conn) (stream_id stream) = None
         then on_pe (\<lambda>pe. pe\<lparr>pe_resets := (pe_resets pe)(stream_id stream \<mapsto> RstStreamFrame (stream_id stream) errorCode final)\<rparr>) conn
         else conn)"

definition processCryptoStreamAck :: "QuicCryptoStream \<Rightarrow> u64 \<Rightarrow> u64 \<Rightarrow> QuicCryptoStream" where
  "processCryptoStreamAck cryptoStream offset len =
     (case retransmissionBuffer cryptoStream offset of
        None \<Rightarrow> cryptoStream
      | Some b \<Rightarrow>
          if sb_offset b \<noteq> offset \<or> of_nat (chainLength (sb_data b)) \<noteq> len then cryptoStream
          else cryptoStream\<lparr>retransmissionBuffer := (retransmissionBuffer cryptoStream)(offset := None)\<rparr>)"

text \<open>Handing a stream over to be closed once both sides are done.\<close>

definition close_if_terminal :: "QuicStreamState \<Rightarrow> QuicConnectionState \<Rightarrow> QuicConnectionState" where
  "close_if_terminal stream conn = (if inTerminalStates stream then on_sm (addClosed (stream_id stream)) conn else conn)"

definition processTxStopSending ::
    "QuicStreamState \<Rightarrow> QuicConnectionState \<Rightarrow> QuicStreamState \<times> QuicConnectionState" where
  "processTxStopSending stream conn =
     (let s1 = stream\<lparr>recvState := Recv_Closed, readBuffer := []\<rparr>
      in (s1, close_if_terminal s1
                (on_sm (\<lambda>sm. sm\<lparr>sm_readableStreams := sm_readableStreams sm - {stream_id s1}\<rparr>) conn)))"

definition resetQuicStream ::
    "TimePoint \<Rightarrow> QuicStreamState \<Rightarrow> ApplicationErrorCode \<Rightarrow> QuicConnectionState
     \<Rightarrow> (QuicStreamState \<times> QuicConnectionState) result" where
  "resetQuicStream now stream error conn =
     and_then (updateFlowControlOnResetStream stream conn)
       (\<lambda>conn1.
          let s1 = stream\<lparr>retransmissionBuffer := Map.empty, writeBuffer := snd (bq_move (writeBuffer stream)),
                          readBuffer := [], lossBuffer := [], streamWriteError := Some (AppError error),
                          writeBufMeta := (writeBufMeta stream)\<lparr>wbm_length := 0\<rparr>,
                          retransmissionBufMetas := Map.empty, lossBufMetas := [], dsrSender := False\<rparr>;
              (s2, conn2) = refresh_readable now (s1, conn1)
          in Inr (s2, on_sm (updateWritableStreams s2) conn2))"

definition onResetQuicStream ::
    "TimePoint \<Rightarrow> QuicStreamState \<Rightarrow> RstStreamFrame \<Rightarrow> QuicConnectionState
     \<Rightarrow> (QuicStreamState \<times> QuicConnectionState) result" where
  "onResetQuicStream now stream frame conn =
     (if finalReadOffset stream \<noteq> None \<and> finalReadOffset stream \<noteq> Some (rst_offset frame)
      then Inl (QuicTransportException FINAL_SIZE_ERROR)
      else if maxOffsetObserved stream > rst_offset frame then Inl (QuicTransportException FINAL_SIZE_ERROR)
      else and_then (updateFlowControlOnStreamData stream (maxOffsetObserved stream) (rst_offset frame) conn)
             (\<lambda>conn1.
                let s1 = stream\<lparr>readBuffer := [], finalReadOffset := Some (rst_offset frame),
                                streamReadError := Some (AppError (rst_errorCode frame))\<rparr>
                in and_then
                     (if currentReadOffset s1 > rst_offset frame then Inr (s1, conn1)
                      else let s2 = s1\<lparr>currentReadOffset := rst_offset frame, maxOffsetObserved := rst_offset frame\<rparr>
                           in and_then (updateFlowControlOnRead s2 (currentReadOffset s1) now conn1)
                                (\<lambda>conn2. Inr (s2, conn2)))
                     (\<lambda>st. let (s3, conn3) = refresh_readable now st
                           in Inr (s3, on_sm (updateWritableStreams s3) conn3))))"

definition isAllDataReceived :: "QuicStreamState \<Rightarrow> bool" where
  "isAllDataReceived stream =
     (case finalReadOffset stream of
        None \<Rightarrow> False
      | Some fin \<Rightarrow>
          fin \<le> currentReadOffset stream
          \<or> (case readBuffer stream of
               [b] \<Rightarrow> currentReadOffset stream = sb_offset b \<and> sb_end b = fin
             | _ \<Rightarrow> False))"

section \<open>The sending side\<close>

definition sendStopSendingSMHandler ::
    "QuicStreamState \<Rightarrow> StopSendingFrame \<Rightarrow> QuicConnectionState \<Rightarrow> (QuicStreamState \<times> QuicConnectionState) result" where
  "sendStopSendingSMHandler stream frame conn =
     (case sendState stream of
        Send_Open \<Rightarrow> Inr (stream, on_sm (addStopSending (stream_id stream) (ss_errorCode frame)) conn)
      | Send_Closed \<Rightarrow> Inr (stream, conn)
      | Send_ResetSent \<Rightarrow> Inr (stream, conn)
      | Send_Invalid \<Rightarrow> Inl (QuicTransportException STREAM_STATE_ERROR))"

definition sendRstSMHandler ::
    "TimePoint \<Rightarrow> QuicStreamState \<Rightarrow> ApplicationErrorCode \<Rightarrow> QuicConnectionState
     \<Rightarrow> (QuicStreamState \<times> QuicConnectionState) result" where
  "sendRstSMHandler now stream errorCode conn =
     (case sendState stream of
        Send_Open \<Rightarrow>
          and_then (resetQuicStream now stream errorCode conn)
            (\<lambda>(s1, conn1). Inr (s1\<lparr>sendState := Send_ResetSent\<rparr>, appendPendingStreamReset s1 errorCode conn1))
      | Send_Closed \<Rightarrow> Inr (stream, conn)
      | Send_ResetSent \<Rightarrow> Inr (stream, conn)
      | Send_Invalid \<Rightarrow> Inl (QuicTransportException STREAM_STATE_ERROR))"

text \<open>The buffers that an acknowledged frame leaves behind.\<close>

definition acked_data :: "WriteStreamFrame \<Rightarrow> QuicStreamState \<Rightarrow> QuicStreamState result" where
  "acked_data f stream =
     (if \<not> ws_fromBufMeta f
      then case retransmissionBuffer stream (ws_offset f) of
             None \<Rightarrow> Inr stream
           | Some b \<Rightarrow>
               and_then (updateAckedIntervals (sb_offset b) (of_nat (chainLength (sb_data b))) (sb_eof b) stream)
                 (\<lambda>s1. Inr (s1\<lparr>retransmissionBuffer := (retransmissionBuffer s1)(ws_offset f := None)\<rparr>))
      else case retransmissionBufMetas stream (ws_offset f) of
             None \<Rightarrow> Inr stream
           | Some m \<Rightarrow>
               and_then (updateAckedIntervals (wbm_offset m) (wbm_length m) (wbm_eof m) stream)
                 (\<lambda>s1. Inr (s1\<lparr>retransmissionBufMetas := (retransmissionBufMetas s1)(ws_offset f := None)\<rparr>)))"

definition sendAckSMHandler ::
    "QuicStreamState \<Rightarrow> WriteStreamFrame \<Rightarrow> QuicConnectionState \<Rightarrow> (QuicStreamState \<times> QuicConnectionState) result" where
  "sendAckSMHandler stream ackedFrame conn =
     (case sendState stream of
        Send_Open \<Rightarrow>
          and_then (acked_data ackedFrame stream)
            (\<lambda>s1. let conn1 = on_sm (addDeliverable (stream_id s1)) conn
                  in if allBytesTillFinAcked s1
                     then let s2 = s1\<lparr>sendState := Send_Closed\<rparr> in Inr (s2, close_if_terminal s2 conn1)
                     else Inr (s1, conn1))
      | Send_Closed \<Rightarrow> Inr (stream, conn)
      | Send_ResetSent \<Rightarrow> Inr (stream, conn)
      | Send_Invalid \<Rightarrow> Inl (QuicTransportException STREAM_STATE_ERROR))"

definition sendRstAckSMHandler ::
    "QuicStreamState \<Rightarrow> QuicConnectionState \<Rightarrow> (QuicStreamState \<times> QuicConnectionState) result" where
  "sendRstAckSMHandler stream conn =
     (case sendState stream of
        Send_ResetSent \<Rightarrow> (let s1 = stream\<lparr>sendState := Send_Closed\<rparr> in Inr (s1, close_if_terminal s1 conn))
      | Send_Closed \<Rightarrow> Inr (stream, conn)
      | Send_Open \<Rightarrow> Inl (QuicTransportException STREAM_STATE_ERROR)
      | Send_Invalid \<Rightarrow> Inl (QuicTransportException STREAM_STATE_ERROR))"

section \<open>The receiving side\<close>

definition receiveReadStreamFrameSMHandler ::
    "TimePoint \<Rightarrow> QuicStreamState \<Rightarrow> ReadStreamFrame \<Rightarrow> QuicConnectionState
     \<Rightarrow> (QuicStreamState \<times> QuicConnectionState) result" where
  "receiveReadStreamFrameSMHandler now stream frame conn =
     (case recvState stream of
        Recv_Open \<Rightarrow>
          and_then (appendDataToReadBuffer stream (StreamBuffer_make (rs_data frame) (rs_offset frame) (rs_fin frame)) conn)
            (\<lambda>(s1, conn1).
               let (s2, conn2) = (if isAllDataReceived s1
                                  then let s = s1\<lparr>recvState := Recv_Closed\<rparr> in (s, close_if_terminal s conn1)
                                  else (s1, conn1))
               in Inr (refresh_both now (s2, conn2)))
      | Recv_Closed \<Rightarrow> Inr (stream, conn)
      | Recv_Invalid \<Rightarrow> Inl (QuicTransportException STREAM_STATE_ERROR))"

definition receiveRstStreamSMHandler ::
    "TimePoint \<Rightarrow> QuicStreamState \<Rightarrow> RstStreamFrame \<Rightarrow> QuicConnectionState
     \<Rightarrow> (QuicStreamState \<times> QuicConnectionState) result" where
  "receiveRstStreamSMHandler now stream rst conn =
     (case recvState stream of
        Recv_Closed \<Rightarrow> onResetQuicStream now stream rst conn
      | Recv_Open \<Rightarrow>
          (let s1 = stream\<lparr>recvState := Recv_Closed\<rparr>
           in onResetQuicStream now s1 rst (close_if_terminal s1 conn))
      | Recv_Invalid \<Rightarrow> Inl (QuicTransportException STREAM_STATE_ERROR))"

section \<open>Steps of a stream\<close>

text \<open>
  Everything that happens to a stream after it was created. The application may ask the peer
  to stop sending only on a stream that has a receiving side
  (\<^verbatim>\<open>QuicTransportBase::stopSending\<close>).
\<close>

inductive stream_step ::
    "QuicStreamState \<times> QuicConnectionState \<Rightarrow> QuicStreamState \<times> QuicConnectionState \<Rightarrow> bool" where
  app_write: "writeDataToQuicStream s data eof c = Inr st \<Longrightarrow> stream_step (s, c) st"
| write_meta: "writeBufMetaToQuicStream s len eof c = Inr st \<Longrightarrow> stream_step (s, c) st"
| written: "handleStreamWritten c s off len fin = Inr (isNew, st) \<Longrightarrow> stream_step (s, c) st"
| written_meta: "handleStreamBufMetaWritten c s off len fin = Inr (isNew, st) \<Longrightarrow> stream_step (s, c) st"
| acked: "sendAckSMHandler s f c = Inr st \<Longrightarrow> stream_step (s, c) st"
| declared_lost: "mark_stream_data c f s seen = Some (s', seen') \<Longrightarrow> stream_step (s, c) (s', c)"
| stop_received: "sendStopSendingSMHandler s ss c = Inr st \<Longrightarrow> stream_step (s, c) st"
| reset: "sendRstSMHandler now s err c = Inr st \<Longrightarrow> stream_step (s, c) st"
| reset_acked: "sendRstAckSMHandler s c = Inr st \<Longrightarrow> stream_step (s, c) st"
| received: "receiveReadStreamFrameSMHandler now s rf c = Inr st \<Longrightarrow> stream_step (s, c) st"
| reset_received: "receiveRstStreamSMHandler now s rst c = Inr st \<Longrightarrow> stream_step (s, c) st"
| app_read: "readDataFromQuicStream now s amount c = Some (Inr (data, eof, st)) \<Longrightarrow> stream_step (s, c) st"
| consumed: "consumeDataFromQuicStream now s amount c = Some (Inr st) \<Longrightarrow> stream_step (s, c) st"
| stopped: "\<not> isSendingStream (nodeType c) (stream_id s) \<Longrightarrow> stream_step (s, c) (processTxStopSending s c)"

text \<open>The two diagrams of the state machines.\<close>

definition send_next :: "StreamSendState \<Rightarrow> StreamSendState \<Rightarrow> bool" where
  "send_next a b \<longleftrightarrow> a = b \<or> a = Send_Open \<and> b = Send_ResetSent \<or> a = Send_Open \<and> b = Send_Closed
     \<or> a = Send_ResetSent \<and> b = Send_Closed"

definition recv_next :: "StreamRecvState \<Rightarrow> StreamRecvState \<Rightarrow> bool" where
  "recv_next a b \<longleftrightarrow> a = b \<or> a = Recv_Open \<and> b = Recv_Closed"

text \<open>A step moves along the diagrams, and a stream that becomes finished is queued to be closed.\<close>

definition moves :: "QuicStreamState \<times> QuicConnectionState \<Rightarrow> QuicStreamState \<times> QuicConnectionState \<Rightarrow> bool" where
  "moves = (\<lambda>(s, c) (s', c'). stream_id s' = stream_id s \<and> nodeType c' = nodeType c
     \<and> send_next (sendState s) (sendState s') \<and> recv_next (recvState s) (recvState s')
     \<and> sm_closedStreams (streamManager c) \<subseteq> sm_closedStreams (streamManager c')
     \<and> (inTerminalStates s' \<longrightarrow> inTerminalStates s \<or> stream_id s \<in> sm_closedStreams (streamManager c')))"

text \<open>What an operation that leaves the states of the machines alone keeps.\<close>

definition view :: "QuicStreamState \<Rightarrow> StreamId \<times> StreamSendState \<times> StreamRecvState" where
  "view s = (stream_id s, sendState s, recvState s)"

definition conn_view :: "QuicConnectionState \<Rightarrow> QuicNodeType \<times> StreamId set" where
  "conn_view c = (nodeType c, sm_closedStreams (streamManager c))"

lemma moves_same: "view s' = view s \<Longrightarrow> conn_view c' = conn_view c \<Longrightarrow> moves (s, c) (s', c')"
  by (simp add: moves_def view_def conn_view_def send_next_def recv_next_def inTerminalStates_def)

lemma view_more:
  assumes "QuicStreamLike.more s' = QuicStreamLike.more s"
  shows "view s' = view s"
  using assms by (cases s; cases s') (simp add: view_def)

lemma read_loop_more:
  "read_loop fuel amount remaining sink s data eof = Some (Inr (s', data', eof'))
     \<Longrightarrow> QuicStreamLike.more s' = QuicStreamLike.more s"
  by (induction fuel amount remaining sink s data eof rule: read_loop.induct)
    (auto simp: Let_def split: list.splits if_splits sum.splits prod.splits)

lemma append_more:
  "appendDataToReadBufferCommon s b v c = Inr (s', c') \<Longrightarrow> QuicStreamLike.more s' = QuicStreamLike.more s"
  by (auto simp: appendDataToReadBufferCommon_def check_final_size_def Let_def elim!: and_then_InrE
      split: if_splits option.splits)

lemma closed_parts [simp]:
  "sm_closedStreams (updateWritableStreams s sm) = sm_closedStreams sm"
  "sm_closedStreams (updatePeekableStreams s sm) = sm_closedStreams sm"
  "sm_closedStreams (maybeWriteBlockAfterAPIWrite s sm) = sm_closedStreams sm"
  "sm_closedStreams (queueWindowUpdate sid sm) = sm_closedStreams sm"
  "sm_closedStreams (addStopSending sid e sm) = sm_closedStreams sm"
  "sm_closedStreams (addDeliverable sid sm) = sm_closedStreams sm"
  "sm_closedStreams (addClosed sid sm) = insert sid (sm_closedStreams sm)"
  by (simp_all add: updateWritableStreams_def removeWritable_def dequeue_stream_def updatePeekableStreams_def
      maybeWriteBlockAfterAPIWrite_def queueBlocked_def queueWindowUpdate_def addStopSending_def addDeliverable_def
      addClosed_def Let_def)

lemma conn_view_parts [simp]:
  "conn_view (on_fc f c) = conn_view c" "conn_view (on_ls g c) = conn_view c" "conn_view (on_pe h c) = conn_view c"
  "sm_closedStreams (k (streamManager c)) = sm_closedStreams (streamManager c) \<Longrightarrow> conn_view (on_sm k c) = conn_view c"
  by (simp_all add: conn_view_def)

lemma conn_view_windows [simp]:
  "conn_view (snd (maybeSendConnWindowUpdate t c)) = conn_view c"
  "conn_view (snd (maybeSendStreamWindowUpdate s t c)) = conn_view c"
  by (simp_all add: maybeSendConnWindowUpdate_def maybeSendStreamWindowUpdate_def
      maybeIncreaseConnectionFlowControlWindow_def Let_def split: option.split)

lemma conn_view_flow:
  "updateFlowControlOnStreamData s a b c = Inr c' \<Longrightarrow> conn_view c' = conn_view c"
  "updateFlowControlOnRead s a t c = Inr c' \<Longrightarrow> conn_view c' = conn_view c"
  "updateFlowControlOnWriteToStream len c = Inr c' \<Longrightarrow> conn_view c' = conn_view c"
  "updateFlowControlOnResetStream s c = Inr c' \<Longrightarrow> conn_view c' = conn_view c"
  by (auto simp: updateFlowControlOnStreamData_def updateFlowControlOnRead_def updateFlowControlOnWriteToStream_def
      updateFlowControlOnResetStream_def Let_def elim!: and_then_InrE split: if_splits)

lemma view_refresh:
  "refresh_readable now (s, c) = (s', c') \<Longrightarrow> view s' = view s \<and> conn_view c' = conn_view c"
  by (auto simp: refresh_readable_def updateReadableStreams_def updateHolBlockedTime_def view_def conn_view_def Let_def
      split: option.splits if_splits)

lemma view_refresh_both:
  "refresh_both now (s, c) = (s', c') \<Longrightarrow> view s' = view s \<and> conn_view c' = conn_view c"
  by (auto simp: refresh_both_def split: prod.splits dest: view_refresh)

lemma view_append: "appendDataToReadBuffer s b c = Inr (s', c') \<Longrightarrow> view s' = view s \<and> conn_view c' = conn_view c"
proof -
  assume run: "appendDataToReadBuffer s b c = Inr (s', c')"
  then have "view s' = view s"
    unfolding appendDataToReadBuffer_def by (intro view_more append_more)
  moreover have "conn_view c' = conn_view c"
    using run by (auto simp: appendDataToReadBuffer_def appendDataToReadBufferCommon_def Let_def elim!: and_then_InrE
        dest: conn_view_flow split: if_splits)
  ultimately show ?thesis ..
qed

text \<open>The operations that leave the states of both machines alone.\<close>

lemma view_written:
  "writeDataToQuicStream s data eof c = Inr (s', c') \<Longrightarrow> view s' = view s \<and> conn_view c' = conn_view c"
  "writeBufMetaToQuicStream s len eof c = Inr (s', c') \<Longrightarrow> view s' = view s \<and> conn_view c' = conn_view c"
  "handleStreamWritten c s off len fin = Inr (isNew, s', c') \<Longrightarrow> view s' = view s \<and> conn_view c' = conn_view c"
  "handleStreamBufMetaWritten c s off len fin = Inr (isNew, s', c') \<Longrightarrow> view s' = view s \<and> conn_view c' = conn_view c"
  by (auto simp: writeDataToQuicStream_def writeBufMetaToQuicStream_def handleStreamWritten_def handleStreamBufMetaWritten_def
      handleNewStreamDataWritten_def handleNewStreamBufMetaWritten_def handleRetransmissionWritten_def
      handleRetransmissionBufMetaWritten_def view_def Let_def elim!: and_then_InrE dest!: conn_view_flow split: if_splits)

lemma view_lost: "mark_stream_data c f s seen = Some (s', seen') \<Longrightarrow> view s' = view s"
  by (auto simp: mark_stream_data_def count_stream_loss_def insertIntoLossBuffer_def insertIntoLossBufMeta_def view_def Let_def
      split: option.splits if_splits)

lemma view_in_order: "readDataInOrderFromReadBuffer s amount sink = Some (Inr (s', data, eof)) \<Longrightarrow> view s' = view s"
  unfolding readDataInOrderFromReadBuffer_def by (rule view_more, rule read_loop_more)

lemma view_read:
  assumes "read_stream sink now s amount c = Some (Inr (data, eof, s', c'))"
  shows "view s' = view s \<and> conn_view c' = conn_view c"
proof -
  have offset: "view (s\<lparr>currentReadOffset := x\<rparr>) = view s" for s x by (simp add: view_def)
  show ?thesis
    using assms
    by (auto simp: read_stream_def offset Let_def elim!: and_then_InrE
        dest!: view_refresh_both conn_view_flow(2) view_in_order
        split: if_splits option.splits sum.splits prod.splits)
qed

lemma view_reset:
  "resetQuicStream now s e c = Inr (s', c') \<Longrightarrow> view s' = view s \<and> conn_view c' = conn_view c"
  by (auto simp: resetQuicStream_def Let_def elim!: and_then_InrE dest!: view_refresh conn_view_flow split: prod.splits)
    (simp_all add: view_def)

lemma view_on_reset:
  "onResetQuicStream now s rst c = Inr (s', c') \<Longrightarrow> view s' = view s \<and> conn_view c' = conn_view c"
  by (auto simp: onResetQuicStream_def Let_def elim!: and_then_InrE dest!: view_refresh conn_view_flow
      split: prod.splits if_splits) (simp_all add: view_def)

lemma view_acked: "acked_data f s = Inr s' \<Longrightarrow> view s' = view s"
  by (auto simp: acked_data_def updateAckedIntervals_def view_def Let_def elim!: and_then_InrE split: option.splits if_splits)

lemma next_trans:
  "send_next a b \<Longrightarrow> send_next b c \<Longrightarrow> send_next a c" "recv_next p q \<Longrightarrow> recv_next q r \<Longrightarrow> recv_next p r"
  by (cases a; cases b; cases c; simp add: send_next_def) (cases p; cases q; cases r; simp add: recv_next_def)

lemma moves_trans:
  assumes "moves (s1, c1) (s2, c2)" and "moves (s2, c2) (s3, c3)"
  shows "moves (s1, c1) (s3, c3)"
proof -
  note m = assms [unfolded moves_def prod.case]
  have "send_next (sendState s1) (sendState s3)" "recv_next (recvState s1) (recvState s3)"
    using m next_trans(1) [of "sendState s1" "sendState s2" "sendState s3"]
      next_trans(2) [of "recvState s1" "recvState s2" "recvState s3"] by simp_all
  moreover have "sm_closedStreams (streamManager c1) \<subseteq> sm_closedStreams (streamManager c3)"
    using m by (meson subset_trans)
  moreover have "inTerminalStates s1 \<or> stream_id s1 \<in> sm_closedStreams (streamManager c3)" if "inTerminalStates s3"
    using m that by auto
  ultimately show ?thesis using m by (simp add: moves_def)
qed

lemma moves_closing:
  assumes "stream_id s' = stream_id s" and "send_next (sendState s) (sendState s')" "recv_next (recvState s) (recvState s')"
    and "conn_view c1 = conn_view c"
  shows "moves (s, c) (s', close_if_terminal s' c1)"
  using assms by (auto simp: moves_def close_if_terminal_def conn_view_def)

lemma moves_acked: "sendAckSMHandler s f c = Inr (s', c') \<Longrightarrow> moves (s, c) (s', c')"
proof (cases "sendState s")
  case Send_Open
  assume "sendAckSMHandler s f c = Inr (s', c')"
  then obtain s1 where got: "acked_data f s = Inr s1"
    and res: "(s', c') = (if allBytesTillFinAcked s1
        then (s1\<lparr>sendState := Send_Closed\<rparr>, close_if_terminal (s1\<lparr>sendState := Send_Closed\<rparr>) (on_sm (addDeliverable (stream_id s1)) c))
        else (s1, on_sm (addDeliverable (stream_id s1)) c))"
    using Send_Open by (auto simp: sendAckSMHandler_def Let_def elim!: and_then_InrE split: if_splits)
  have v: "view s1 = view s" by (rule view_acked [OF got])
  show ?thesis
  proof (cases "allBytesTillFinAcked s1")
    case True
    have "moves (s, c) (s1\<lparr>sendState := Send_Closed\<rparr>,
        close_if_terminal (s1\<lparr>sendState := Send_Closed\<rparr>) (on_sm (addDeliverable (stream_id s1)) c))"
      using v Send_Open by (intro moves_closing) (simp_all add: view_def send_next_def recv_next_def)
    then show ?thesis using res True by simp
  next
    case False
    then show ?thesis using res v by (simp add: moves_same)
  qed
qed (auto simp: sendAckSMHandler_def intro: moves_same)

lemma moves_stop_received: "sendStopSendingSMHandler s ss c = Inr (s', c') \<Longrightarrow> moves (s, c) (s', c')"
  by (auto simp: sendStopSendingSMHandler_def intro!: moves_same split: StreamSendState.splits)

lemma moves_reset:
  assumes "sendRstSMHandler now s e c = Inr (s', c')"
  shows "moves (s, c) (s', c')"
proof (cases "sendState s")
  case Send_Open
  then obtain s1 c1 where r: "resetQuicStream now s e c = Inr (s1, c1)" "s' = s1\<lparr>sendState := Send_ResetSent\<rparr>"
    "c' = appendPendingStreamReset s1 e c1"
    using assms by (auto simp: sendRstSMHandler_def elim!: and_then_InrE)
  have "conn_view c' = conn_view c1" by (simp add: r(3) appendPendingStreamReset_def Let_def)
  then show ?thesis using view_reset [OF r(1)] r(2) Send_Open
    by (simp add: moves_def view_def conn_view_def send_next_def recv_next_def inTerminalStates_def)
qed (use assms in \<open>auto simp: sendRstSMHandler_def intro: moves_same\<close>)

lemma moves_reset_acked: "sendRstAckSMHandler s c = Inr (s', c') \<Longrightarrow> moves (s, c) (s', c')"
proof (cases "sendState s")
  case Send_ResetSent
  assume "sendRstAckSMHandler s c = Inr (s', c')"
  then have "s' = s\<lparr>sendState := Send_Closed\<rparr>" "c' = close_if_terminal s' c"
    using Send_ResetSent by (auto simp: sendRstAckSMHandler_def Let_def)
  then show ?thesis using Send_ResetSent by (simp add: moves_closing send_next_def recv_next_def)
qed (auto simp: sendRstAckSMHandler_def intro: moves_same)

lemma moves_received:
  assumes "receiveReadStreamFrameSMHandler now s rf c = Inr (s', c')"
  shows "moves (s, c) (s', c')"
proof (cases "recvState s")
  case Recv_Open
  then obtain s1 c1 where a: "appendDataToReadBuffer s (StreamBuffer_make (rs_data rf) (rs_offset rf) (rs_fin rf)) c = Inr (s1, c1)"
    and r: "refresh_both now (if isAllDataReceived s1
        then (s1\<lparr>recvState := Recv_Closed\<rparr>, close_if_terminal (s1\<lparr>recvState := Recv_Closed\<rparr>) c1) else (s1, c1)) = (s', c')"
    using assms by (auto simp: receiveReadStreamFrameSMHandler_def Let_def elim!: and_then_InrE split: if_splits)
  note v = view_append [OF a]
  have "moves (s, c) (s1\<lparr>recvState := Recv_Closed\<rparr>, close_if_terminal (s1\<lparr>recvState := Recv_Closed\<rparr>) c1)"
    using v Recv_Open by (intro moves_closing) (simp_all add: view_def send_next_def recv_next_def)
  moreover have "moves (s, c) (s1, c1)" using v by (simp add: moves_same)
  moreover have "moves (s, c) (s2, c2) \<Longrightarrow> refresh_both now (s2, c2) = (s', c') \<Longrightarrow> moves (s, c) (s', c')" for s2 c2
    using moves_trans moves_same view_refresh_both by metis
  ultimately show ?thesis using r by (auto split: if_splits)
qed (use assms in \<open>auto simp: receiveReadStreamFrameSMHandler_def intro: moves_same\<close>)

lemma moves_reset_received:
  assumes "receiveRstStreamSMHandler now s rst c = Inr (s', c')"
  shows "moves (s, c) (s', c')"
proof (cases "recvState s")
  case Recv_Open
  let ?s = "s\<lparr>recvState := Recv_Closed\<rparr>"
  have "onResetQuicStream now ?s rst (close_if_terminal ?s c) = Inr (s', c')"
    using assms Recv_Open by (simp add: receiveRstStreamSMHandler_def Let_def)
  from view_on_reset [OF this] have "moves (?s, close_if_terminal ?s c) (s', c')" by (simp add: moves_same)
  moreover have "moves (s, c) (?s, close_if_terminal ?s c)"
    using Recv_Open by (intro moves_closing) (simp_all add: send_next_def recv_next_def)
  ultimately show ?thesis by (rule moves_trans [rotated])
qed (use assms view_on_reset in \<open>auto simp: receiveRstStreamSMHandler_def intro!: moves_same\<close>)

lemma moves_stopped:
  assumes "recvState s \<noteq> Recv_Invalid"
  shows "moves (s, c) (processTxStopSending s c)"
  using assms unfolding processTxStopSending_def Let_def
  by (intro moves_closing) (cases "recvState s"; simp add: send_next_def recv_next_def conn_view_def)+

text \<open>Which sides a stream has is given by its identifier.\<close>

definition sides_typed :: "QuicNodeType \<Rightarrow> QuicStreamState \<Rightarrow> bool" where
  "sides_typed type s \<longleftrightarrow> (sendState s = Send_Invalid \<longleftrightarrow> isReceivingStream type (stream_id s))
     \<and> (recvState s = Recv_Invalid \<longleftrightarrow> isSendingStream type (stream_id s))"

lemma step_moves:
  assumes "stream_step (s, c) (s', c')" and "sides_typed (nodeType c) s"
  shows "moves (s, c) (s', c')"
  using assms
  by (cases rule: stream_step.cases)
    (auto dest!: view_written view_lost view_read moves_acked moves_stop_received moves_reset moves_reset_acked moves_received
      moves_reset_received simp: readDataFromQuicStream_def consumeDataFromQuicStream_def sides_typed_def
      elim!: and_then_InrE intro: moves_same moves_stopped)

lemma moves_typed: "moves (s, c) (s', c') \<Longrightarrow> sides_typed (nodeType c) s \<Longrightarrow> sides_typed (nodeType c') s'"
  by (auto simp: moves_def sides_typed_def send_next_def recv_next_def)

lemma steps_move:
  assumes "stream_step\<^sup>*\<^sup>* (s, c) (s', c')" and "sides_typed (nodeType c) s"
  shows "moves (s, c) (s', c') \<and> sides_typed (nodeType c') s'"
  using assms(1)
proof (induction "(s', c')" arbitrary: s' c' rule: rtranclp_induct)
  case base
  then show ?case using assms(2) by (simp add: moves_same)
next
  case (step st)
  obtain s1 c1 where st: "st = (s1, c1)" by (cases st)
  from step.hyps(3) [OF st] have "moves (s, c) (s1, c1)" "sides_typed (nodeType c1) s1" by auto
  moreover from step_moves [OF step.hyps(2) [unfolded st] this(2)] have "moves (s1, c1) (s', c')" .
  ultimately show ?case using moves_trans moves_typed by blast
qed

lemma made_typed: "sides_typed (nodeType conn) (QuicStreamState_make_group sid grp conn)"
  by (auto simp: sides_typed_def QuicStreamState_make_def QuicStreamState_make_group_def QuicStreamLike.extend_def Let_def
      directions local_or_remote)

lemma invalid_send_refused:
  assumes "sendState s = Send_Invalid"
  shows "sendRstSMHandler now s err c = Inl (QuicTransportException STREAM_STATE_ERROR)"
    and "sendStopSendingSMHandler s ss c = Inl (QuicTransportException STREAM_STATE_ERROR)"
    and "sendAckSMHandler s f c = Inl (QuicTransportException STREAM_STATE_ERROR)"
    and "sendRstAckSMHandler s c = Inl (QuicTransportException STREAM_STATE_ERROR)"
  using assms by (simp_all add: sendRstSMHandler_def sendStopSendingSMHandler_def sendAckSMHandler_def sendRstAckSMHandler_def)

lemma invalid_recv_refused:
  assumes "recvState s = Recv_Invalid"
  shows "receiveReadStreamFrameSMHandler now s rf c = Inl (QuicTransportException STREAM_STATE_ERROR)"
    and "receiveRstStreamSMHandler now s rst c = Inl (QuicTransportException STREAM_STATE_ERROR)"
  using assms by (simp_all add: receiveReadStreamFrameSMHandler_def receiveRstStreamSMHandler_def)

section \<open>Properties\<close>

text \<open>C17: A stream keeps exactly the sides its identifier gives it, whatever the application,
  the peer, acknowledgements and losses do to it: its sending side is invalid exactly when it
  is a unidirectional stream of the peer, its receiving side exactly when it is a
  unidirectional stream of this endpoint. Every frame or request for a side that does not
  exist is refused with a stream state error.\<close>

theorem stream_sides_typed:
  assumes "stream_step\<^sup>*\<^sup>* (QuicStreamState_make_group sid grp conn, conn) (s, conn')"
  shows "stream_id s = sid \<and> nodeType conn' = nodeType conn
    \<and> (sendState s = Send_Invalid \<longleftrightarrow> isReceivingStream (nodeType conn) sid)
    \<and> (recvState s = Recv_Invalid \<longleftrightarrow> isSendingStream (nodeType conn) sid)
    \<and> (isReceivingStream (nodeType conn) sid \<longrightarrow>
         sendRstSMHandler now s err conn' = Inl (QuicTransportException STREAM_STATE_ERROR)
         \<and> sendStopSendingSMHandler s ss conn' = Inl (QuicTransportException STREAM_STATE_ERROR)
         \<and> sendAckSMHandler s f conn' = Inl (QuicTransportException STREAM_STATE_ERROR)
         \<and> sendRstAckSMHandler s conn' = Inl (QuicTransportException STREAM_STATE_ERROR))
    \<and> (isSendingStream (nodeType conn) sid \<longrightarrow>
         receiveReadStreamFrameSMHandler now s rf conn' = Inl (QuicTransportException STREAM_STATE_ERROR)
         \<and> receiveRstStreamSMHandler now s rst conn' = Inl (QuicTransportException STREAM_STATE_ERROR))"
proof -
  from steps_move [OF assms made_typed]
  have "stream_id s = sid" "nodeType conn' = nodeType conn" "sides_typed (nodeType conn) s" by (auto simp: moves_def)
  then show ?thesis
    using invalid_send_refused [of s] invalid_recv_refused [of s] by (auto simp: sides_typed_def)
qed

lemma stream_3:
  "isSendingStream Server 3" "\<not> isReceivingStream Server 3" "nodeType demo_flight = Server"
  "sendState (QuicStreamState_make_group 3 None demo_flight) = Send_Open"
  "recvState (QuicStreamState_make_group 3 None demo_flight) = Recv_Invalid"
  "stream_id (QuicStreamState_make_group 3 None demo_flight) = 3"
  by (simp_all add: demo_flight_def QuicConnectionState_make_def on_os_def QuicStreamState_make_group_def
      QuicStreamState_make_def QuicStreamLike.extend_def isSendingStream_def isReceivingStream_def isLocalStream_def
      isUnidirectionalStream_def isServerStream_def isClientStream_def Let_def)

theorem stream_sides_typed_witness:
  "\<exists>s conn'. stream_step\<^sup>*\<^sup>* (QuicStreamState_make_group 3 None demo_flight, demo_flight) (s, conn')
     \<and> sm_stopSendingStreams (streamManager conn') 3 = Some 7
     \<and> receiveRstStreamSMHandler 0 s (RstStreamFrame 3 7 0) conn' = Inl (QuicTransportException STREAM_STATE_ERROR)"
proof -
  let ?s = "QuicStreamState_make_group 3 None demo_flight"
  let ?c = "on_sm (addStopSending 3 7) demo_flight"
  have "stream_step (?s, demo_flight) (?s, ?c)"
    by (rule stream_step.stop_received [of _ "StopSendingFrame 3 7"]) (simp add: sendStopSendingSMHandler_def stream_3)
  then have steps: "stream_step\<^sup>*\<^sup>* (?s, demo_flight) (?s, ?c)" ..
  have "sm_stopSendingStreams (streamManager ?c) 3 = Some 7"
    by (simp add: addStopSending_def demo_flight_def QuicConnectionState_make_def QuicStreamManager_blank_def Let_def)
  moreover have "receiveRstStreamSMHandler 0 ?s (RstStreamFrame 3 7 0) ?c = Inl (QuicTransportException STREAM_STATE_ERROR)"
    using stream_sides_typed [OF steps] stream_3 by simp
  ultimately show ?thesis using steps by blast
qed

text \<open>C8: The two state machines of a stream only move along their diagrams: the sending side
  from open to reset or closed and from reset to closed, the receiving side from open to
  closed. A stream whose two sides are done stays so, and a stream that becomes done is handed
  over to be closed.\<close>

theorem stream_states_advance:
  assumes "stream_step\<^sup>*\<^sup>* (s, conn) (s', conn')" and "sides_typed (nodeType conn) s"
  shows "send_next (sendState s) (sendState s') \<and> recv_next (recvState s) (recvState s')
    \<and> (inTerminalStates s \<longrightarrow> inTerminalStates s')
    \<and> (inTerminalStates s' \<and> \<not> inTerminalStates s \<longrightarrow> stream_id s \<in> sm_closedStreams (streamManager conn'))"
proof -
  have m: "moves (s, conn) (s', conn')" using steps_move [OF assms] ..
  then have "inTerminalStates s \<Longrightarrow> inTerminalStates s'"
    by (auto simp: moves_def send_next_def recv_next_def inTerminalStates_def)
  then show ?thesis using m by (auto simp: moves_def)
qed

theorem stream_states_advance_witness:
  "\<exists>s' conn'. stream_step\<^sup>*\<^sup>* ((QuicStreamState_make_group 3 None demo_flight)\<lparr>sendState := Send_ResetSent\<rparr>, demo_flight) (s', conn')
     \<and> sendState s' = Send_Closed \<and> 3 \<in> sm_closedStreams (streamManager conn')"
proof -
  let ?s = "(QuicStreamState_make_group 3 None demo_flight)\<lparr>sendState := Send_ResetSent\<rparr>"
  let ?t = "?s\<lparr>sendState := Send_Closed\<rparr>"
  have "stream_step (?s, demo_flight) (?t, close_if_terminal ?t demo_flight)"
    by (rule stream_step.reset_acked) (simp add: sendRstAckSMHandler_def Let_def)
  then have steps: "stream_step\<^sup>*\<^sup>* (?s, demo_flight) (?t, close_if_terminal ?t demo_flight)" ..
  have "sides_typed (nodeType demo_flight) ?s" using stream_3 by (simp add: sides_typed_def)
  from stream_states_advance [OF steps this] have "3 \<in> sm_closedStreams (streamManager (close_if_terminal ?t demo_flight))"
    using stream_3 by (simp add: inTerminalStates_def)
  then show ?thesis using steps by (intro exI [of _ ?t] exI [of _ "close_if_terminal ?t demo_flight"]) simp
qed

text \<open>Sending the frames of a list one after the other, each at the write offset.\<close>

primrec send_out ::
    "(u64 \<times> bool) list \<Rightarrow> QuicStreamState \<times> QuicConnectionState \<Rightarrow> (QuicStreamState \<times> QuicConnectionState) result" where
  "send_out [] st = Inr st"
| "send_out (f # fs) st =
     and_then (handleStreamWritten (snd st) (fst st) (currentWriteOffset (fst st)) (fst f) (snd f))
       (\<lambda>(isNew, st'). send_out fs st')"

definition nothing_kept :: "QuicStreamState \<Rightarrow> bool" where
  "nothing_kept s \<longleftrightarrow> retransmissionBuffer s = Map.empty \<and> retransmissionBufMetas s = Map.empty
     \<and> lossBuffer s = [] \<and> lossBufMetas s = []"

lemma send_out_kept:
  "send_out fs (s, c) = Inr (s', c') \<Longrightarrow> nothing_kept s \<Longrightarrow>
     nothing_kept s' \<and> sendState s' = sendState s \<and> ackedIntervals s' = ackedIntervals s"
proof (induction fs arbitrary: s c)
  case (Cons f fs)
  let ?s = "handleNewStreamDataWritten s (fst f) (snd f)"
  have "send_out fs (?s\<lparr>numPacketsTxWithNewData := numPacketsTxWithNewData ?s + 1\<rparr>, c) = Inr (s', c')"
    using Cons.prems(1) by (simp add: handleStreamWritten_def Let_def)
  from Cons.IH [OF this] Cons.prems(2) show ?case by (simp add: nothing_kept_def handleNewStreamDataWritten_def)
qed simp

text \<open>C18: Data that is sent is not kept: however the data of a stream is cut into frames and
  sent, a lost frame leaves nothing to send again, and an acknowledgement of any frame records
  no byte as acknowledged. Once the end of the stream has been sent, the acknowledgement of a
  single frame, whichever it is, closes the sending side although other frames are
  outstanding.\<close>

theorem sent_data_not_kept:
  assumes "send_out fs (s, conn) = Inr (s', conn')" and "nothing_kept s" and "sendState s = Send_Open"
  shows "nothing_kept s' \<and> mark_stream_data conn' f s' seen = None
    \<and> (\<exists>s'' conn''. sendAckSMHandler s' f conn' = Inr (s'', conn'') \<and> ackedIntervals s'' = ackedIntervals s
         \<and> (hasSentFIN s' \<and> bq_empty (writeBuffer s') \<and> \<not> hasWritableBufMeta s' \<longrightarrow> sendState s'' = Send_Closed))"
proof -
  have k: "nothing_kept s'" "sendState s' = Send_Open" "ackedIntervals s' = ackedIntervals s"
    using send_out_kept [OF assms(1,2)] assms(3) by auto
  then have "acked_data f s' = Inr s'" by (simp add: nothing_kept_def acked_data_def)
  moreover have "mark_stream_data conn' f s' seen = None" using k by (simp add: nothing_kept_def mark_stream_data_def)
  ultimately show ?thesis using k
    by (auto simp: sendAckSMHandler_def allBytesTillFinAcked_def nothing_kept_def Let_def)
qed

text \<open>Six bytes and the end of the stream, sent in two frames; only the second is acknowledged.\<close>

definition demo_writer :: QuicStreamState where
  "demo_writer = (QuicStreamState_make 1 demo_flight)
     \<lparr>writeBuffer := bq_of_chain [[1, 2, 3, 4, 5, 6]], finalWriteOffset := Some 6\<rparr>"

theorem sent_data_not_kept_witness:
  "\<exists>s' conn' s'' conn''. send_out [(2, False), (4, True)] (demo_writer, demo_flight) = Inr (s', conn')
     \<and> sendAckSMHandler s' (WriteStreamFrame 1 2 4 True False None 0) conn' = Inr (s'', conn'')
     \<and> sendState s'' = Send_Closed \<and> ackedIntervals s'' = IntervalSet_empty"
proof -
  let ?f = "WriteStreamFrame 1 2 4 True False None 0"
  have m: "nothing_kept demo_writer" "sendState demo_writer = Send_Open" "ackedIntervals demo_writer = IntervalSet_empty"
    "currentWriteOffset demo_writer = 0" "writeBufMeta demo_writer = WriteBufferMeta_init" "finalWriteOffset demo_writer = Some 6"
    "writeBuffer demo_writer = bq_of_chain [[1, 2, 3, 4, 5, 6]]"
    by (simp_all add: demo_writer_def nothing_kept_def QuicStreamState_make_def QuicStreamLike.extend_def QuicStreamLike_init_def
        isUnidirectionalStream_def Let_def)
  have b: "bq_empty (snd (splitAtMost (snd (splitAtMost (bq_of_chain [[1, 2, 3, 4, 5, 6]]) 2)) 4))" by code_simp
  obtain s' conn' where run: "send_out [(2, False), (4, True)] (demo_writer, demo_flight) = Inr (s', conn')"
    and s': "finalWriteOffset s' = Some 6" "currentWriteOffset s' = 7" "bq_empty (writeBuffer s')"
      "writeBufMeta s' = WriteBufferMeta_init"
    using b by (auto simp: handleStreamWritten_def handleNewStreamDataWritten_def m Let_def)
  have "hasSentFIN s'" "\<not> hasWritableBufMeta s'"
    using s' by (simp_all add: hasSentFIN_def hasWritableBufMeta_def WriteBufferMeta_init_def)
  then show ?thesis
    using sent_data_not_kept [OF run m(1,2), of ?f "{}"] run s'(3) m(3) by auto
qed

end
