(* ===== verification/Packet_Scheduler.thy ===== *)
theory Packet_Scheduler
  imports Stream_Machine Write_Codec
begin

text \<open>
  Sending stream data: the part of \<^verbatim>\<open>StreamFrameScheduler\<close> in
  \<^verbatim>\<open>api/quic_packet_scheduler.cpp\<close> that writes the frames of one stream into a packet, and
  the part of \<^verbatim>\<open>updateConnection\<close> in \<^verbatim>\<open>api/quic_transport_function.cpp\<close> that accounts
  for the stream frames of a packet that was sent. The allowance of the connection is read once
  per packet and counted down by the frames. The theorem shows that the sender never passes the
  limit of the peer, in whatever order the scheduler visits the streams.
\<close>

section \<open>Writing the frames of a stream\<close>

text \<open>The frames for the data in the loss buffer; the loop stops at the first that does not fit.\<close>

fun write_loss_loop ::
    "QuicStreamState \<Rightarrow> StreamBuffer list \<Rightarrow> bool \<Rightarrow> RegularQuicPacketBuilder
     \<Rightarrow> (bool \<times> RegularQuicPacketBuilder) result" where
  "write_loss_loop stream [] wroteStreamFrame builder = Inr (wroteStreamFrame, builder)"
| "write_loss_loop stream (buffer # buffers) wroteStreamFrame builder =
     (let bufferLen = of_nat (chainLength (sb_data buffer))
      in and_then (writeStreamFrameHeader builder (stream_id stream) (sb_offset buffer) bufferLen bufferLen
                     (sb_eof buffer) None (groupId stream) True) (\<lambda>(dataLen, b1).
           case dataLen of
             None \<Rightarrow> Inr (wroteStreamFrame, b1)
           | Some n \<Rightarrow>
               and_then (writeStreamFrameData b1 (bq_chain (sb_data buffer)) n)
                 (write_loss_loop stream buffers True)))"

definition writeStreamLossBuffers ::
    "RegularQuicPacketBuilder \<Rightarrow> QuicStreamState \<Rightarrow> (bool \<times> RegularQuicPacketBuilder) result" where
  "writeStreamLossBuffers builder stream = write_loss_loop stream (lossBuffer stream) False builder"

text \<open>A frame for new data. The third component is the allowance that is left.\<close>

definition writeStreamFrame ::
    "RegularQuicPacketBuilder \<Rightarrow> QuicStreamState \<Rightarrow> u64 \<Rightarrow> (bool \<times> RegularQuicPacketBuilder \<times> u64) result" where
  "writeStreamFrame builder stream connWritableBytes =
     (if remainingSpaceInPkt builder = 0 then Inr (False, builder, connWritableBytes)
      else let flowControlLen = min (getSendStreamFlowControlBytesWire stream) connWritableBytes;
               bufferLen = of_nat (chainLength (writeBuffer stream));
               canWriteFin = (finalWriteOffset stream \<noteq> None \<and> bufferLen \<le> flowControlLen
                              \<and> wbm_offset (writeBufMeta stream) = 0)
           in and_then (writeStreamFrameHeader builder (stream_id stream) (currentWriteOffset stream) bufferLen
                          flowControlLen canWriteFin None (groupId stream) True) (\<lambda>(dataLen, b1).
                case dataLen of
                  None \<Rightarrow> Inr (False, b1, connWritableBytes)
                | Some n \<Rightarrow>
                    and_then (writeStreamFrameData b1 (bq_chain (writeBuffer stream)) n)
                      (\<lambda>b2. Inr (True, b2, connWritableBytes - n))))"

definition writeSingleStream ::
    "RegularQuicPacketBuilder \<Rightarrow> QuicStreamState \<Rightarrow> u64 \<Rightarrow> (bool \<times> RegularQuicPacketBuilder \<times> u64) result" where
  "writeSingleStream builder stream connWritableBytes =
     and_then (if lossBuffer stream \<noteq> [] then writeStreamLossBuffers builder stream else Inr (True, builder))
       (\<lambda>(wrote, b1).
          if \<not> wrote then Inr (False, b1, connWritableBytes)
          else if hasWritableData stream \<and> connWritableBytes > 0 then writeStreamFrame b1 stream connWritableBytes
          else Inr (True, b1, connWritableBytes))"

definition stream_scheduler_pending :: "bool \<Rightarrow> QuicConnectionState \<Rightarrow> bool" where
  "stream_scheduler_pending nextStreamDsr conn \<longleftrightarrow>
     \<not> nextStreamDsr
     \<and> (sm_lossStreams (streamManager conn) \<noteq> {}
        \<or> hasNonDSRWritable (streamManager conn) \<and> getSendConnFlowControlBytesWire conn > 0)"

section \<open>Accounting for the frames of a packet\<close>

text \<open>A stream frame of a packet that was sent. The pointer to the stream is followed unchecked.\<close>

definition stream_frame_sent :: "TimePoint \<Rightarrow> WriteStreamFrame \<Rightarrow> QuicConnectionState \<Rightarrow> QuicConnectionState result" where
  "stream_frame_sent now frame conn =
     and_then (getStream now (ws_streamId frame) None conn) (\<lambda>(st, conn1).
       case st of
         None \<Rightarrow> Inl undefined_behaviour
       | Some stream \<Rightarrow>
           and_then (if ws_fromBufMeta frame
                     then handleStreamBufMetaWritten conn1 stream (ws_offset frame) (ws_len frame) (ws_fin frame)
                     else handleStreamWritten conn1 stream (ws_offset frame) (ws_len frame) (ws_fin frame))
             (\<lambda>(newStreamDataWritten, s1, conn2).
                let conn3 = on_sm (put_stream s1) conn2
                in and_then (if newStreamDataWritten
                             then and_then (updateFlowControlOnWriteToSocket (ws_len frame) conn3)
                                    (\<lambda>conn4. Inr (on_sm (addTx (ws_streamId frame))
                                       (maybeWriteDataBlockedAfterSocketWrite
                                          (on_sm (maybeWriteBlockAfterSocketWrite s1) conn4))))
                             else Inr conn3)
                     (\<lambda>conn5. Inr (on_sm (updateWritableStreams s1) conn5))))"

text \<open>
  The loop over the frames of the packet, for the frames with stream data; what the loop does for
  the other kinds of frames and what follows it are not modelled.
\<close>

primrec stream_frames_sent :: "TimePoint \<Rightarrow> QuicWriteFrame list \<Rightarrow> QuicConnectionState \<Rightarrow> QuicConnectionState result" where
  "stream_frames_sent now [] conn = Inr conn"
| "stream_frames_sent now (f # fs) conn =
     (case f of
        WF_WriteStream frame \<Rightarrow> and_then (stream_frame_sent now frame conn) (stream_frames_sent now fs)
      | _ \<Rightarrow> stream_frames_sent now fs conn)"

section \<open>A frame fits the allowance\<close>

lemma space_behind:
  fixes d h space :: u64
  assumes "space < d + h" and "h \<le> space"
  shows "space - h \<le> d"
proof -
  have "unat (d + h) \<le> unat d + unat h" by (simp add: unat_word_ariths)
  moreover have "unat (space - h) = unat space - unat h" using assms(2) by (simp add: unat_sub word_le_nat_alt)
  ultimately show ?thesis using assms by (simp add: word_less_nat_alt word_le_nat_alt)
qed

lemma planned_if: "(if c then Inr None else r) = Inr (Some x) \<longleftrightarrow> \<not> c \<and> r = Inr (Some x)"
  by simp

lemma stream_frame_plan_fits:
  assumes "stream_frame_plan space sid offset writeBufferLen flowControlLen fin hint grp = Inr (Some (n, m, f))"
  shows "n \<le> writeBufferLen \<and> n \<le> flowControlLen"
proof -
  have "\<exists>h1 h2. n = (if m > 0 \<and> space < min (min writeBufferLen flowControlLen) (space - h1) + h2 then space - h2
      else min (min writeBufferLen flowControlLen) (space - h1)) \<and> \<not> space < h2"
    using assms unfolding stream_frame_plan_def Let_def planned_if
    by (elim and_then_InrE, unfold planned_if, elim conjE and_then_InrE, unfold planned_if, elim conjE) blast
  then obtain h1 h2 d where d: "d = min (min writeBufferLen flowControlLen) (space - h1)"
    and n: "n = (if m > 0 \<and> space < d + h2 then space - h2 else d)" and fits: "\<not> space < h2" by blast
  have "n \<le> d" unfolding n using space_behind [of space d h2] fits by (simp add: not_less)
  also have "d \<le> min writeBufferLen flowControlLen" unfolding d by (rule min.cobounded1)
  finally show ?thesis by simp
qed

abbreviation frames_of :: "RegularQuicPacketBuilder \<Rightarrow> QuicWriteFrame list" where
  "frames_of b \<equiv> rw_frames (pb_packet b)"

lemma pb_writes_packet: "pb_writes vs b = Inr b' \<Longrightarrow> pb_packet b' = pb_packet b"
  by (induction vs arbitrary: b) (auto simp: pb_write_def pb_take_def elim!: and_then_InrE)

lemma data_frames: "writeStreamFrameData b buf n = Inr b' \<Longrightarrow> pb_packet b' = pb_packet b"
  by (auto simp: writeStreamFrameData_def pb_insert_limit_def pb_insert_def pb_take_def Let_def elim!: and_then_InrE
      split: if_splits)

lemma header_frames:
  assumes "writeStreamFrameHeader b sid offset writeBufferLen flowControlLen fin hint grp True = Inr (r, b')"
  shows "case r of
      None \<Rightarrow> b' = b
    | Some n \<Rightarrow> n \<le> flowControlLen
        \<and> (\<exists>fin'. frames_of b' = frames_of b @ [WF_WriteStream (WriteStreamFrame sid offset n fin' False grp 0)])"
  using assms
  by (auto simp: writeStreamFrameHeader_def Let_def pb_appendFrame_def pb_writeBE_def pb_take_def simp del: pb_writes.simps
      elim!: and_then_InrE dest!: pb_writes_packet dest: stream_frame_plan_fits split: if_splits option.splits)

section \<open>The bytes of a packet\<close>

definition stream_bytes :: "QuicWriteFrame list \<Rightarrow> nat" where
  "stream_bytes fs = (\<Sum>f \<leftarrow> fs. case f of WF_WriteStream g \<Rightarrow> unat (ws_len g) | _ \<Rightarrow> 0)"

lemma single_stream_bytes:
  assumes "writeSingleStream b stream cw = Inr (wrote, b', cw')" and "lossBuffer stream = []"
  shows "stream_bytes (frames_of b') + unat cw' = stream_bytes (frames_of b) + unat cw"
proof -
  consider (same) "b' = b" "cw' = cw" | (frame) "writeStreamFrame b stream cw = Inr (wrote, b', cw')"
    using assms by (auto simp: writeSingleStream_def split: if_splits)
  then show ?thesis
  proof cases
    case frame
    then show ?thesis
      using assms(2) unat_sub [of _ cw]
      by (auto simp: writeStreamFrame_def Let_def stream_bytes_def dest!: header_frames data_frames elim!: and_then_InrE
          split: if_splits option.splits) (simp add: word_le_nat_alt)
  qed simp
qed

text \<open>
  A packet is filled: the allowance is read from the connection, and the frames of streams of
  the manager are written one stream after the other. The two helpers of the scheduler choose
  the streams by their place in the queues; here every choice is covered.
\<close>

inductive packet_filled ::
    "QuicConnectionState \<Rightarrow> RegularQuicPacketBuilder \<Rightarrow> RegularQuicPacketBuilder \<Rightarrow> u64 \<Rightarrow> bool" for conn b where
  fill_start: "packet_filled conn b b (getSendConnFlowControlBytesWire conn)"
| fill_stream: "packet_filled conn b b1 cw \<Longrightarrow> findStream sid (streamManager conn) = Some stream \<Longrightarrow>
    writeSingleStream b1 stream cw = Inr (wrote, b2, cw2) \<Longrightarrow> packet_filled conn b b2 cw2"

lemma packet_filled_bytes:
  assumes "packet_filled conn b b' cw" and "none_kept (streamManager conn)"
  shows "stream_bytes (frames_of b') + unat cw = stream_bytes (frames_of b) + unat (getSendConnFlowControlBytesWire conn)"
  using assms
proof induction
  case (fill_stream b1 cw sid stream wrote b2 cw2)
  then have "lossBuffer stream = []" by (simp add: none_kept_def findStream_def)
  then show ?case using single_stream_bytes fill_stream by metis
qed simp

section \<open>What is accounted for\<close>

abbreviation sent_total :: "QuicConnectionState \<Rightarrow> nat" where
  "sent_total conn \<equiv> unat (cfc_sumCurWriteOffset (conn_flowControlState conn))"

abbreviation peer_limit :: "QuicConnectionState \<Rightarrow> u64" where
  "peer_limit conn \<equiv> cfc_peerAdvertisedMaxOffset (conn_flowControlState conn)"

lemma written_keeps:
  assumes "handleStreamWritten conn s offset len fin = Inr (new, s', conn')" and "lossBuffer s = []"
  shows "lossBuffer s' = [] \<and> retransmissionBuffer s' = retransmissionBuffer s
    \<and> streamManager conn' = streamManager conn \<and> conn_flowControlState conn' = conn_flowControlState conn"
  using assms by (auto simp: handleStreamWritten_def handleNewStreamDataWritten_def Let_def split: if_splits)

lemma meta_written_keeps:
  assumes "handleStreamBufMetaWritten conn s offset len fin = Inr (new, s', conn')"
  shows "lossBuffer s' = lossBuffer s \<and> retransmissionBuffer s' = retransmissionBuffer s
    \<and> streamManager conn' = streamManager conn \<and> conn_flowControlState conn' = conn_flowControlState conn"
  using assms by (auto simp: handleStreamBufMetaWritten_def handleNewStreamBufMetaWritten_def
      handleRetransmissionBufMetaWritten_def Let_def elim!: and_then_InrE split: if_splits)

text \<open>The invariant of the manager on the way: streams under their identifiers, nothing kept.\<close>

definition plain_streams :: "QuicStreamManager \<Rightarrow> bool" where
  "plain_streams sm \<longleftrightarrow> keyed sm \<and> none_kept sm"

lemma plain_put:
  "plain_streams sm \<Longrightarrow> lossBuffer s = [] \<Longrightarrow> retransmissionBuffer s = Map.empty \<Longrightarrow> plain_streams (put_stream s sm)"
  by (auto simp: plain_streams_def keyed_def none_kept_def put_stream_def)

lemma plain_queues [simp]:
  "plain_streams (updateWritableStreams s sm) = plain_streams sm" "plain_streams (addTx sid sm) = plain_streams sm"
  "plain_streams (maybeWriteBlockAfterSocketWrite s sm) = plain_streams sm"
  "plain_streams (maybeWriteBlockAfterAPIWrite s sm) = plain_streams sm"
  "plain_streams (queueFlowControlUpdated sid sm) = plain_streams sm"
  by (simp_all add: plain_streams_def keyed_def none_kept_def addTx_def maybeWriteBlockAfterSocketWrite_def
      maybeWriteBlockAfterAPIWrite_def queueBlocked_def queueFlowControlUpdated_def)

lemma plain_grows: "manager_grows sm sm' \<Longrightarrow> plain_streams sm \<Longrightarrow> plain_streams sm'"
  by (simp add: manager_grows_def plain_streams_def)

lemma accounted:
  assumes "updateFlowControlOnWriteToSocket len conn = Inr conn'"
  shows "streamManager conn' = streamManager conn \<and> peer_limit conn' = peer_limit conn
    \<and> sent_total conn' = sent_total conn + unat len"
  using assms by (auto simp: updateFlowControlOnWriteToSocket_def elim!: and_then_InrE dest!: increment_unat)

lemma stream_frame_sent_total:
  assumes "stream_frame_sent now f conn = Inr conn'" and "plain_streams (streamManager conn)"
  shows "plain_streams (streamManager conn') \<and> peer_limit conn' = peer_limit conn
    \<and> sent_total conn \<le> sent_total conn' \<and> sent_total conn' \<le> sent_total conn + unat (ws_len f)"
proof -
  let ?writing = "\<lambda>conn1 stream. if ws_fromBufMeta f
      then handleStreamBufMetaWritten conn1 stream (ws_offset f) (ws_len f) (ws_fin f)
      else handleStreamWritten conn1 stream (ws_offset f) (ws_len f) (ws_fin f)"
  let ?account = "\<lambda>new s1 conn2. if new
      then and_then (updateFlowControlOnWriteToSocket (ws_len f) (on_sm (put_stream s1) conn2))
             (\<lambda>conn4. Inr (on_sm (addTx (ws_streamId f)) (maybeWriteDataBlockedAfterSocketWrite
                (on_sm (maybeWriteBlockAfterSocketWrite s1) conn4))))
      else Inr (on_sm (put_stream s1) conn2)"
  have "and_then (getStream now (ws_streamId f) None conn) (\<lambda>(st, conn1). case st of
      None \<Rightarrow> Inl undefined_behaviour
    | Some stream \<Rightarrow> and_then (?writing conn1 stream) (\<lambda>(new, s1, conn2).
        and_then (?account new s1 conn2) (\<lambda>conn5. Inr (on_sm (updateWritableStreams s1) conn5)))) = Inr conn'"
    using assms(1) by (simp only: stream_frame_sent_def Let_def)
  then obtain stream conn1 where got: "getStream now (ws_streamId f) None conn = Inr (Some stream, conn1)"
    and "and_then (?writing conn1 stream) (\<lambda>(new, s1, conn2).
        and_then (?account new s1 conn2) (\<lambda>conn5. Inr (on_sm (updateWritableStreams s1) conn5))) = Inr conn'"
    by (rule and_then_InrE) (auto simp only: prod.case split: prod.splits option.splits)
  from this(2) obtain new s1 conn2 where wr: "?writing conn1 stream = Inr (new, s1, conn2)"
    and "and_then (?account new s1 conn2) (\<lambda>conn5. Inr (on_sm (updateWritableStreams s1) conn5)) = Inr conn'"
    by (rule and_then_InrE) (auto simp only: prod.case split: prod.splits)
  from this(2) obtain conn5 where acc: "?account new s1 conn2 = Inr conn5" and conn': "conn' = on_sm (updateWritableStreams s1) conn5"
    by (rule and_then_InrE) simp
  note up = looked_up_getStream [OF got]
  have plain: "plain_streams (streamManager conn1)" and fc: "conn_flowControlState conn1 = conn_flowControlState conn"
    and found: "lossBuffer stream = []" "retransmissionBuffer stream = Map.empty"
    using up assms(2) plain_grows [of "streamManager conn" "streamManager conn1"]
    by (auto simp: looked_up_def plain_streams_def none_kept_def)
  have w: "lossBuffer s1 = []" "retransmissionBuffer s1 = Map.empty" "streamManager conn2 = streamManager conn1"
      "conn_flowControlState conn2 = conn_flowControlState conn"
    using wr found fc written_keeps [of conn1 stream] meta_written_keeps [of conn1 stream]
    by (auto split: if_splits)
  have put: "plain_streams (streamManager (on_sm (put_stream s1) conn2))" using plain_put [OF plain w(1,2)] w(3) by simp
  show ?thesis
  proof (cases new)
    case True
    then obtain conn4 where "updateFlowControlOnWriteToSocket (ws_len f) (on_sm (put_stream s1) conn2) = Inr conn4"
      and "conn5 = on_sm (addTx (ws_streamId f)) (maybeWriteDataBlockedAfterSocketWrite (on_sm (maybeWriteBlockAfterSocketWrite s1) conn4))"
      using acc by (auto elim!: and_then_InrE)
    with accounted [OF this(1)] put w(4) show ?thesis by (simp add: conn' maybeWriteDataBlockedAfterSocketWrite_def)
  next
    case False
    then show ?thesis using acc put w(4) by (auto simp: conn')
  qed
qed

lemma stream_frames_sent_total:
  assumes "stream_frames_sent now fs conn = Inr conn'" and "plain_streams (streamManager conn)"
  shows "plain_streams (streamManager conn') \<and> peer_limit conn' = peer_limit conn
    \<and> sent_total conn \<le> sent_total conn' \<and> sent_total conn' \<le> sent_total conn + stream_bytes fs"
  using assms
proof (induction fs arbitrary: conn)
  case (Cons f fs)
  show ?case
  proof (cases "\<exists>g. f = WF_WriteStream g")
    case True
    then obtain g conn1 where g: "f = WF_WriteStream g" and one: "stream_frame_sent now g conn = Inr conn1"
      and rest: "stream_frames_sent now fs conn1 = Inr conn'"
      using Cons.prems(1) by (auto elim!: and_then_InrE)
    note first = stream_frame_sent_total [OF one Cons.prems(2)]
    with Cons.IH [OF rest] show ?thesis by (simp add: g stream_bytes_def)
  next
    case False
    then have "stream_frames_sent now fs conn = Inr conn'" "stream_bytes (f # fs) = stream_bytes fs"
      using Cons.prems(1) by (auto simp: stream_bytes_def split: QuicWriteFrame.splits)
    then show ?thesis using Cons.IH Cons.prems(2) by simp
  qed
qed (simp add: stream_bytes_def)

section \<open>Sending stays within the limit of the peer\<close>

text \<open>
  What happens to a sender: the application writes to a stream or resets it, a packet is filled
  and accounted for, a packet is lost, and the peer raises or repeats its limits. A packet that
  the stream scheduler fills may already hold other frames, but no stream data.
\<close>

inductive send_step :: "QuicConnectionState \<Rightarrow> QuicConnectionState \<Rightarrow> bool" where
  api_write: "findStream sid (streamManager conn) = Some stream \<Longrightarrow>
    writeDataToQuicStream stream data eof conn = Inr (stream', conn') \<Longrightarrow>
    send_step conn (on_sm (put_stream stream') conn')"
| reset_stream: "findStream sid (streamManager conn) = Some stream \<Longrightarrow>
    resetQuicStream now stream error conn = Inr (stream', conn') \<Longrightarrow>
    send_step conn (on_sm (put_stream stream') conn')"
| packet: "stream_bytes (frames_of b) = 0 \<Longrightarrow> packet_filled conn b b' cw \<Longrightarrow>
    stream_frames_sent now (frames_of b') conn = Inr conn' \<Longrightarrow> send_step conn conn'"
| packet_lost: "markPacketLoss now conn packet processed = Inr conn' \<Longrightarrow> send_step conn conn'"
| max_data: "send_step conn (handleConnWindowUpdate frame conn)"
| max_stream_data: "findStream sid (streamManager conn) = Some stream \<Longrightarrow>
    handleStreamWindowUpdate stream maximumData (streamManager conn) = (stream', sm) \<Longrightarrow>
    send_step conn (conn\<lparr>streamManager := put_stream stream' sm\<rparr>)"

definition send_within :: "QuicConnectionState \<Rightarrow> bool" where
  "send_within conn \<longleftrightarrow>
     cfc_sumCurWriteOffset (conn_flowControlState conn) \<le> cfc_peerAdvertisedMaxOffset (conn_flowControlState conn)"

definition send_inv :: "QuicConnectionState \<Rightarrow> bool" where
  "send_inv conn \<longleftrightarrow> send_within conn \<and> plain_streams (streamManager conn)"

definition send_later :: "QuicConnectionState \<Rightarrow> QuicConnectionState \<Rightarrow> bool" where
  "send_later conn conn' \<longleftrightarrow> send_inv conn' \<and> sent_total conn \<le> sent_total conn' \<and> peer_limit conn \<le> peer_limit conn'"

lemma send_later_same:
  assumes "send_inv conn" and "plain_streams (streamManager conn')"
    and "cfc_sumCurWriteOffset (conn_flowControlState conn') = cfc_sumCurWriteOffset (conn_flowControlState conn)"
    and "peer_limit conn \<le> peer_limit conn'"
  shows "send_later conn conn'"
  using assms by (auto simp: send_later_def send_inv_def send_within_def)

lemma found_plain:
  "findStream sid sm = Some s \<Longrightarrow> plain_streams sm \<Longrightarrow> lossBuffer s = [] \<and> retransmissionBuffer s = Map.empty"
  by (simp add: findStream_def plain_streams_def none_kept_def)

lemma api_write_later:
  assumes "findStream sid (streamManager conn) = Some stream" and "send_inv conn"
    and "writeDataToQuicStream stream data eof conn = Inr (stream', conn')"
  shows "send_later conn (on_sm (put_stream stream') conn')"
proof -
  have plain: "plain_streams (streamManager conn)" using assms(2) by (simp add: send_inv_def)
  note kept = found_plain [OF assms(1) plain]
  have "lossBuffer stream' = [] \<and> retransmissionBuffer stream' = Map.empty \<and> plain_streams (streamManager conn')
      \<and> cfc_sumCurWriteOffset (conn_flowControlState conn') = cfc_sumCurWriteOffset (conn_flowControlState conn)
      \<and> peer_limit conn' = peer_limit conn"
    using assms(3) kept plain
    by (auto simp: writeDataToQuicStream_def updateFlowControlOnWriteToStream_def Let_def elim!: and_then_InrE split: if_splits)
  then show ?thesis using send_later_same [OF assms(2)] plain_put by simp
qed

lemma reset_later:
  assumes "findStream sid (streamManager conn) = Some stream" and "send_inv conn"
    and "resetQuicStream now stream error conn = Inr (stream', conn')"
  shows "send_later conn (on_sm (put_stream stream') conn')"
proof -
  have plain: "plain_streams (streamManager conn)" using assms(2) by (simp add: send_inv_def)
  have read: "plain_streams (sm\<lparr>sm_readableStreams := R\<rparr>) = plain_streams sm" for sm R
    by (simp add: plain_streams_def keyed_def none_kept_def)
  have "lossBuffer stream' = [] \<and> retransmissionBuffer stream' = Map.empty \<and> plain_streams (streamManager conn')
      \<and> cfc_sumCurWriteOffset (conn_flowControlState conn') = cfc_sumCurWriteOffset (conn_flowControlState conn)
      \<and> peer_limit conn' = peer_limit conn"
    using assms(3) plain
    by (auto simp: resetQuicStream_def updateFlowControlOnResetStream_def refresh_readable_def updateReadableStreams_def
        updateHolBlockedTime_def read Let_def elim!: and_then_InrE split: if_splits option.splits)
  then show ?thesis using send_later_same [OF assms(2)] plain_put by simp
qed

lemma packet_later:
  assumes "stream_bytes (frames_of b) = 0" and "packet_filled conn b b' cw" and "send_inv conn"
    and "stream_frames_sent now (frames_of b') conn = Inr conn'"
  shows "send_later conn conn'"
proof -
  have plain: "plain_streams (streamManager conn)" and within: "sent_total conn \<le> unat (peer_limit conn)"
    using assms(3) by (simp_all add: send_inv_def send_within_def word_le_nat_alt)
  have "unat (getSendConnFlowControlBytesWire conn) = unat (peer_limit conn) - sent_total conn"
    using within unat_sub_no_wrap by (simp add: getSendConnFlowControlBytesWire_def)
  then have "stream_bytes (frames_of b') \<le> unat (peer_limit conn) - sent_total conn"
    using packet_filled_bytes [OF assms(2)] assms(1) plain by (simp add: plain_streams_def)
  with stream_frames_sent_total [OF assms(4) plain] within
  have "sent_total conn' \<le> unat (peer_limit conn)" by linarith
  then show ?thesis using stream_frames_sent_total [OF assms(4) plain]
    by (simp add: send_later_def send_inv_def send_within_def word_le_nat_alt)
qed

lemma lost_later:
  assumes "markPacketLoss now conn packet processed = Inr conn'" and "send_inv conn"
  shows "send_later conn conn'"
proof -
  obtain seen where run: "mark_frames now (rw_header packet) processed (rw_frames packet) (conn, {}) = Inr (conn', seen)"
    using assms(1) by (auto simp: markPacketLoss_def elim!: and_then_InrE)
  have "pending_grows conn conn'" using mark_frames_again [OF run] assms(2) by (simp add: send_inv_def plain_streams_def)
  then show ?thesis using assms(2) plain_grows
    by (intro send_later_same) (auto simp: pending_grows_def send_inv_def)
qed

lemma max_data_later:
  assumes "send_inv conn"
  shows "send_later conn (handleConnWindowUpdate frame conn)"
  using assms by (auto simp: handleConnWindowUpdate_def send_later_def send_inv_def send_within_def)

lemma max_stream_data_later:
  assumes "findStream sid (streamManager conn) = Some stream" and "send_inv conn"
    and "handleStreamWindowUpdate stream maximumData (streamManager conn) = (stream', sm)"
  shows "send_later conn (conn\<lparr>streamManager := put_stream stream' sm\<rparr>)"
proof -
  have plain: "plain_streams (streamManager conn)" using assms(2) by (simp add: send_inv_def)
  have "lossBuffer stream' = [] \<and> retransmissionBuffer stream' = Map.empty \<and> plain_streams sm"
    using assms(3) found_plain [OF assms(1) plain] plain
    by (auto simp: handleStreamWindowUpdate_def updateFlowControlList_def Let_def split: if_splits)
  then show ?thesis using send_later_same [OF assms(2)] plain_put by simp
qed

lemma send_step_later: "send_step conn conn' \<Longrightarrow> send_inv conn \<Longrightarrow> send_later conn conn'"
proof (induction rule: send_step.induct)
  case api_write
  show ?case by (rule api_write_later [OF api_write(1,3,2)])
next
  case reset_stream
  show ?case by (rule reset_later [OF reset_stream(1,3,2)])
next
  case packet
  show ?case by (rule packet_later [OF packet(1,2,4,3)])
next
  case packet_lost
  show ?case by (rule lost_later [OF packet_lost(1,2)])
next
  case max_data
  show ?case by (rule max_data_later [OF max_data(1)])
next
  case max_stream_data
  show ?case by (rule max_stream_data_later [OF max_stream_data(1,3,2)])
qed

text \<open>C16:
  Whatever the application writes or resets, in whatever order the scheduler visits the streams to
  fill a packet, whichever packets are lost and whatever limits the peer sends: the bytes of new
  stream data that were sent never pass the connection limit of the peer, the limit never goes
  down, and what has been sent is never taken back. The allowance that a packet starts with is
  the one the scheduler reads, and the bytes accounted for are those of the frames it wrote. At
  the start the counter is within the limit, streams are stored under their identifiers and none
  of them holds data for retransmission, which stays so, since the code keeps no sent data. Data
  that another server sends for the stream is not covered.
\<close>

theorem sender_within_peer_limit:
  assumes "send_step\<^sup>*\<^sup>* conn conn'" and "send_within conn"
    and "keyed (streamManager conn)" and "none_kept (streamManager conn)"
  shows "send_within conn' \<and> none_kept (streamManager conn')
    \<and> cfc_sumCurWriteOffset (conn_flowControlState conn) \<le> cfc_sumCurWriteOffset (conn_flowControlState conn')
    \<and> cfc_peerAdvertisedMaxOffset (conn_flowControlState conn) \<le> cfc_peerAdvertisedMaxOffset (conn_flowControlState conn')"
proof -
  have "send_later conn conn'"
    using assms(1)
  proof (induction rule: rtranclp_induct)
    case base
    then show ?case using assms(2-4) by (simp add: send_later_def send_inv_def plain_streams_def)
  next
    case (step c c')
    then have "send_inv c" by (simp add: send_later_def)
    from send_step_later [OF step.hyps(2) this] step.IH show ?case by (auto simp: send_later_def)
  qed
  then show ?thesis by (simp add: send_later_def send_inv_def plain_streams_def word_le_nat_alt)
qed

text \<open>A stream with six bytes to send; one packet takes them, and the peer raises its limit.\<close>

definition demo_source :: QuicStreamState where
  "demo_source = demo_writer\<lparr>flowControlState := (flowControlState demo_writer)\<lparr>fcs_peerAdvertisedMaxOffset := 50\<rparr>\<rparr>"

definition demo_sender :: QuicConnectionState where
  "demo_sender = on_fc (\<lambda>fc. fc\<lparr>cfc_peerAdvertisedMaxOffset := 100, cfc_sumCurStreamBufferLen := 6\<rparr>)
     (on_sm (put_stream demo_source) demo_flight)"

definition demo_builder :: RegularQuicPacketBuilder where
  "demo_builder = RegularQuicPacketBuilder_make 1000 (rw_header (op_packet (sent_packet 0))) 0"

lemma demo_sender_packet:
  "case writeSingleStream demo_builder demo_source 100 of
     Inl e \<Rightarrow> False
   | Inr (wrote, b, cw) \<Rightarrow> frames_of b = [WF_WriteStream (WriteStreamFrame 1 0 6 True False None 0)]"
  by code_simp

lemma demo_sender_accounted:
  "case stream_frames_sent 0 [WF_WriteStream (WriteStreamFrame 1 0 6 True False None 0)] demo_sender of
     Inl e \<Rightarrow> False
   | Inr conn \<Rightarrow> cfc_sumCurWriteOffset (conn_flowControlState conn) = 6"
  by code_simp

lemma demo_sender_start:
  "findStream 1 (streamManager demo_sender) = Some demo_source" "getSendConnFlowControlBytesWire demo_sender = 100"
  "send_within demo_sender" "keyed (streamManager demo_sender)" "none_kept (streamManager demo_sender)"
  "stream_bytes (frames_of demo_builder) = 0"
  by (simp_all add: demo_sender_def demo_source_def demo_writer_def demo_flight_def demo_builder_def findStream_def put_stream_def
      QuicConnectionState_make_def QuicStreamManager_blank_def QuicStreamState_make_def QuicStreamLike.extend_def
      QuicStreamLike_init_def ConnectionFlowControlState_init_def getSendConnFlowControlBytesWire_def send_within_def
      keyed_def none_kept_def stream_bytes_def RegularQuicPacketBuilder_make_def RegularQuicWritePacket_make_def
      sent_packet_def Let_def)

theorem sender_within_peer_limit_witness:
  "\<exists>conn'. send_step\<^sup>*\<^sup>* demo_sender conn' \<and> cfc_sumCurWriteOffset (conn_flowControlState conn') = 6 \<and> send_within conn'
     \<and> cfc_peerAdvertisedMaxOffset (conn_flowControlState conn') = 120"
proof -
  obtain wrote b cw where "writeSingleStream demo_builder demo_source 100 = Inr (wrote, b, cw)"
    and frames: "frames_of b = [WF_WriteStream (WriteStreamFrame 1 0 6 True False None 0)]"
    using demo_sender_packet by (auto split: sum.splits)
  then have filled: "packet_filled demo_sender demo_builder b cw"
    using fill_stream [OF fill_start demo_sender_start(1)] by (simp add: demo_sender_start(2))
  obtain conn where sent: "stream_frames_sent 0 (frames_of b) demo_sender = Inr conn"
    and total: "cfc_sumCurWriteOffset (conn_flowControlState conn) = 6"
    using demo_sender_accounted unfolding frames by (auto split: sum.splits)
  have one: "send_step demo_sender conn" by (rule packet [OF demo_sender_start(6) filled sent])
  let ?conn' = "handleConnWindowUpdate (MaxDataFrame 120) conn"
  have limit: "peer_limit conn = 100"
    using stream_frames_sent_total [OF sent] demo_sender_start(2,4,5)
    by (simp add: plain_streams_def) (simp add: demo_sender_def demo_flight_def)
  have steps: "send_step\<^sup>*\<^sup>* demo_sender ?conn'"
    using one max_data by (meson converse_rtranclp_into_rtranclp r_into_rtranclp)
  have "send_within ?conn'" using sender_within_peer_limit [OF steps demo_sender_start(3-5)] by simp
  with steps total limit show ?thesis by (intro exI [of _ ?conn']) (simp add: handleConnWindowUpdate_def)
qed

end
