(* ===== verification/Spec2Isabelle.thy ===== *)
theory Spec2Isabelle
  imports Quic_Integer Packet_Num Loss_Buffer Read_Buffer Packet_Codec Priority_Queue Stream_Limits Stream_Machine Packet_Scheduler
begin

text \<open>
  Verification of the QUIC transport of the stream server.

  \<^bold>\<open>The program.\<close> A QUIC endpoint in C++ (\<^verbatim>\<open>src/src/\<close>). Datagrams are parsed into
  packets and frames (\<^verbatim>\<open>protocol/\<close>); the frames change the state of a connection and of
  its streams (\<^verbatim>\<open>state/\<close>, \<^verbatim>\<open>flowcontrol/\<close>); what is written is kept until it is
  acknowledged or declared lost (\<^verbatim>\<open>loss/\<close>); and a scheduler decides which stream writes
  next. The data structures below these parts are in \<^verbatim>\<open>common/\<close> and
  \<^verbatim>\<open>folly/io/\<close>.

  \<^bold>\<open>Conventions.\<close> Definitions have the names of the C++ functions; a definition in lower
  case with underscores is a part of a function, such as the body of a loop, or an accessor of
  a member chosen by a condition. \<open>uint64_t\<close> is a 64-bit word with wrapping arithmetic, a
  buffer chain is a list of lists of bytes, a hash map is a map, a hash set a set. A function
  that may throw returns an exception or its value; undefined behaviour of C++ is an exception
  of its own, and so is a loop that does not end. A pointer to a stream is a copy that is
  written back with \<open>put_stream\<close>. The time of the clock is an argument. What is told to
  the congestion controller or to a timer is a returned list of calls. Times are integers in
  microseconds and signed division truncates, as in C++.

  \<^bold>\<open>Theories.\<close>
  \<^item> \<open>Quic_Prelude\<close> and \<open>Quic_Types\<close>: results, words, lists, and the types and error codes
    of \<^verbatim>\<open>protocol/\<close>.
  \<^item> \<open>Buf_Queue\<close> and \<open>Io_Cursor\<close>: \<^verbatim>\<open>common/BufUtil\<close> and the reading cursor of
    \<^verbatim>\<open>folly/io/Cursor.h\<close>. The locale \<open>byte_queue\<close> is the interface of the queue;
    every operation is described by the bytes it holds.
  \<^item> \<open>Quic_Integer\<close>, \<open>Packet_Num\<close>: \<^verbatim>\<open>protocol/quic_integer\<close> and
    \<^verbatim>\<open>quic_packet_num\<close>. What is encoded is decoded again, with the fewest bytes; the
    decoder never reads past its input. A second decoder, on a raw buffer, is proved to misread.
  \<^item> \<open>Interval_Set\<close>: \<^verbatim>\<open>common/IntervalSet\<close>. Insertion and removal refine union and
    difference of sets of numbers, keep the intervals sorted and apart, and do not depend on
    the order; locale \<open>number_set\<close>.
  \<^item> \<open>Priority_Queue\<close>: \<^verbatim>\<open>state/quic_priority_queue.h\<close>. The buckets and the index
    agree, the most urgent stream is served, the rotation visits every stream, serving ends;
    locale \<open>stream_scheduler\<close>. A stale order identifier is proved to leave a stream behind.
  \<^item> \<open>Frames\<close>, \<open>Headers\<close>, \<open>Packet_Builder\<close>, \<open>Write_Codec\<close>, \<open>Parse\<close>,
    \<open>Frame_Codec\<close>, \<open>Packet_Codec\<close>: frames, headers, the packet builder, the frame writer and
    the parser. Parsing ends on every input with a packet or an error and never runs into
    undefined behaviour for the exponents that are safe, and which exponents are not is shown
    case by case; a payload of control frames within the limits of the parser that was
    written parses back; locale \<open>wire_field\<close> gives the combination of fields.
  \<^item> \<open>Stream_Data\<close>, \<open>Loss_Buffer\<close>, \<open>Read_Buffer\<close>: \<^verbatim>\<open>state/stream_data.h\<close> and the
    reassembly of \<^verbatim>\<open>state/quic_stream_function.cpp\<close>. A buffer is a range of a stream
    of bytes; lost ranges are added and removed exactly; received data, in whatever pieces and
    order, is read as the bytes that were sent, and once all of a prefix has arrived it is read.
  \<^item> \<open>Stream_Utilities\<close>, \<open>Conn_State\<close>, \<open>Stream_Manager\<close>, \<open>Stream_Opening\<close>,
    \<open>Stream_Limits\<close>: stream identifiers, the state of a connection
    (\<^verbatim>\<open>state/state_data.h\<close> and the structures it holds) and
    \<^verbatim>\<open>state/quic_stream_manager\<close>. The reachable managers satisfy an invariant; a
    lookup opens exactly the streams up to the identifier; the limits for the peer hold; credit
    of closed streams is given back; closing a unidirectional stream of the peer is undefined.
  \<^item> \<open>Flow_Control\<close>: \<^verbatim>\<open>flowcontrol/quic_flow_control.cpp\<close>. Received data is accepted
    exactly within the limits, and a reader opens its window again.
  \<^item> \<open>State_Functions\<close>: \<^verbatim>\<open>state/quic_state_function.cpp\<close>. The round trip
    estimates move towards every new sample by the fixed fractions, planning and content of acknowledgements, and the tolerance cut to eight bits.
  \<^item> \<open>Loss_Detection\<close>, \<open>Loss_Recovery\<close>: \<^verbatim>\<open>loss/\<close>. The locale \<open>loss_visitor\<close> states
    what a pass over the outstanding packets relies on, and is interpreted on
    \<open>markPacketLoss\<close>. A detection declares lost exactly the packets it should; the control
    information of a lost packet is pending again.
  \<^item> \<open>Stream_Machine\<close>: the rest of \<^verbatim>\<open>state/quic_stream_function.cpp\<close>, the written-data
    handlers of \<^verbatim>\<open>api/quic_transport_function.cpp\<close> and the state machines of
    \<^verbatim>\<open>state/stream/\<close>, with a step relation for everything that happens to a stream. A
    stream keeps the sides its identifier gives it, the machines follow their diagrams and a
    finished stream is handed over to be closed. The handlers do not keep what was sent: a lost
    frame is not sent again, and one acknowledgement closes a stream whose end was sent.
  \<^item> \<open>Packet_Scheduler\<close>: the part of \<^verbatim>\<open>StreamFrameScheduler\<close> in
    \<^verbatim>\<open>api/quic_packet_scheduler.cpp\<close> that writes the frames of a stream, and the part of
    \<^verbatim>\<open>updateConnection\<close> that accounts for them, with a step relation for what happens to a
    sender. In whatever order the streams are visited, the data that is sent stays within the
    limit of the peer.

  \<^bold>\<open>Loops.\<close> Loops over a list recurse on the list or on an explicit bound. The reading loop
  of \<open>Read_Buffer\<close> has a fuel that is the number of buffers plus two, since every round
  removes a buffer or is the last; the removal of 0-RTT packets runs as many rounds as there are
  packets, since every round removes one or moves past one; \<open>decode_frames\<close> recurses on the
  shrinking queue and its end is proved. The loop that opens streams up to an identifier ends
  because the identifier grows by four without wrapping below the limit.

  \<^bold>\<open>Not modelled.\<close> The congestion controllers and the pacer (\<^verbatim>\<open>congestion_control/\<close>)
  compute with floating point numbers and sampled rates; loss detection returns the calls it
  makes to them. The rest of the transport, the choice of streams and the other frames
  in the packet scheduler, and the batch writers (\<^verbatim>\<open>api/\<close>), the client, the server and its handshake (\<^verbatim>\<open>client/\<close>,
  \<^verbatim>\<open>server/\<close>, \<^verbatim>\<open>handshake/\<close>, \<^verbatim>\<open>happyeyeballs/\<close>,
  \<^verbatim>\<open>udp_server.cpp\<close>) are driven by sockets, timers, application callbacks and
  cryptography. \<^verbatim>\<open>fizz/\<close>, the rest of \<^verbatim>\<open>folly/\<close> and \<^verbatim>\<open>spdlog/\<close> are
  libraries that are copied into the tree. Logging, statistics and observers only read the
  state. Of the modelled files, the packet builders other than the regular one, the decoding
  of encrypted long headers and the writing of acknowledgement frames are left out.
\<close>

end
